(* ===== verification/Cslb_Prelude.thy ===== *)
theory Cslb_Prelude
  imports Main "HOL-Library.Word"
begin

text \<open>
  The prelude of the development: the types and the arithmetic of Go that every component
  uses (64-bit signed integers with their wrap-around written out, truncating division,
  saturating time differences), results of operations that may panic, and the lemmas on
  lists, sums and wrap-around that the component proofs share.
\<close>

section \<open>Results of operations that may panic\<close>

text \<open>
  A Go function that indexes out of range or divides by zero panics instead of returning.
  \<open>Val x\<close> is a normal return, \<open>Panic\<close> a run-time panic.
\<close>

datatype 'a outcome = Val 'a | Panic

section \<open>Go integers\<close>

text \<open>
  The type \<open>int\<close> of Go has 64 bits on the supported platforms and wraps around.
  The model keeps the value as an HOL integer and writes the wrap-around out: every
  arithmetic operation of the source on \<open>int\<close> or \<open>int64\<close> is followed by \<open>i64\<close>.
\<close>

definition i64 :: "int \<Rightarrow> int" where
  "i64 x = (x + 2 ^ 63) mod 2 ^ 64 - 2 ^ 63"

definition in_i64 :: "int \<Rightarrow> bool" where
  "in_i64 x \<longleftrightarrow> - (2 ^ 63) \<le> x \<and> x < 2 ^ 63"

text \<open>Integer division of Go truncates towards zero (the divisor is never zero where it is used).\<close>

definition go_quot :: "int \<Rightarrow> int \<Rightarrow> int" where
  "go_quot a b = sgn a * sgn b * (\<bar>a\<bar> div \<bar>b\<bar>)"

text \<open>The remainder of Go has the sign of the dividend.\<close>

definition go_rem :: "int \<Rightarrow> int \<Rightarrow> int" where
  "go_rem a b = sgn a * (\<bar>a\<bar> mod \<bar>b\<bar>)"

text \<open>Unsigned integers keep their width.\<close>

type_synonym byte = "8 word"
type_synonym u32 = "32 word"

section \<open>Time\<close>

text \<open>
  An instant of \<open>time.Time\<close> is a number of nanoseconds since the zero \<open>time.Time\<close>
  (so the zero value is \<open>0\<close>), a \<open>time.Duration\<close> a number of nanoseconds.
  \<open>Time.Sub\<close> saturates at the limits of \<open>Duration\<close>, a 64-bit integer.
\<close>

type_synonym time = int
type_synonym duration = int

definition time_Second :: duration where
  "time_Second = 1000000000"

definition time_Sub :: "time \<Rightarrow> time \<Rightarrow> duration" where
  "time_Sub t u = max (- (2 ^ 63)) (min (2 ^ 63 - 1) (t - u))"

section \<open>Collections of facts\<close>

named_theorems go_simps \<open>evaluation of Go arithmetic\<close>
named_theorems frame_simps \<open>what an operation leaves unchanged\<close>

section \<open>Wrap-around\<close>

lemma i64_in_range: "in_i64 (i64 x)"
proof -
  have "0 \<le> (x + 2 ^ 63) mod 2 ^ 64" and "(x + 2 ^ 63) mod 2 ^ 64 < (2 ^ 64 :: int)"
    by simp_all
  then show ?thesis by (simp add: in_i64_def i64_def)
qed

lemma i64_id [go_simps]: "in_i64 x \<Longrightarrow> i64 x = x"
  by (simp add: i64_def in_i64_def)

lemma i64_ge: "x < 2 ^ 63 \<Longrightarrow> x \<le> i64 x"
proof (cases "in_i64 x")
  case True
  then show ?thesis by (simp add: i64_id)
next
  case False
  assume "x < 2 ^ 63"
  with False have "x < - (2 ^ 63)" by (simp add: in_i64_def)
  with i64_in_range [of x] show ?thesis by (simp add: in_i64_def)
qed

lemma i64_eq_iff: "i64 x = i64 y \<longleftrightarrow> x mod 2 ^ 64 = y mod (2 ^ 64 :: int)"
proof -
  have "i64 x = i64 y \<longleftrightarrow> (x + 2 ^ 63) mod 2 ^ 64 = (y + 2 ^ 63) mod (2 ^ 64 :: int)"
    by (simp add: i64_def)
  also have "\<dots> \<longleftrightarrow> x mod 2 ^ 64 = y mod (2 ^ 64 :: int)"
    by (simp add: mod_eq_dvd_iff)
  finally show ?thesis .
qed

lemma i64_mod: "i64 x mod 2 ^ 64 = x mod (2 ^ 64 :: int)"
  by (simp add: i64_def mod_diff_left_eq)

lemma i64_i64 [simp]: "i64 (i64 x) = i64 x"
  by (simp only: i64_eq_iff i64_mod)

lemma i64_add_left [simp]: "i64 (i64 x + y) = i64 (x + y)"
  unfolding i64_eq_iff by (metis i64_mod mod_add_left_eq)

lemma i64_add_right [simp]: "i64 (x + i64 y) = i64 (x + y)"
  unfolding i64_eq_iff by (metis i64_mod mod_add_right_eq)

lemma i64_diff_left [simp]: "i64 (i64 x - y) = i64 (x - y)"
  unfolding i64_eq_iff by (metis i64_mod mod_diff_left_eq)

lemma i64_diff_right [simp]: "i64 (x - i64 y) = i64 (x - y)"
  unfolding i64_eq_iff by (metis i64_mod mod_diff_right_eq)

lemma i64_numeral_small [simp]: "i64 0 = 0" "i64 1 = 1"
  by (simp_all add: i64_def)

text \<open>A retry counter that is still within its limit grows when it is incremented.\<close>

lemma i64_retry_grows: "t \<le> 20 \<Longrightarrow> t < i64 (t + 1)"
  using i64_ge [of "t + 1"] by simp

section \<open>Cardinalities\<close>

lemma int_card_remove: "finite S \<Longrightarrow> p \<in> S \<Longrightarrow> int (card (S - {p})) = int (card S) - 1"
  by (metis add_diff_cancel_left' card_Suc_Diff1 of_nat_Suc)

end
