(* ===== verification/Errors.thy ===== *)
theory Errors
  imports Cslb_Prelude
begin

text \<open>
  Errors (\<open>src/balancer.go\<close>, \<open>src/transport.go\<close>). A sentinel is a package variable, compared
  by identity; \<open>errorText\<close> is a fresh \<open>errors.New\<close> or \<open>fmt.Errorf\<close> without \<open>%w\<close>;
  \<open>wrapError\<close> is \<open>fmt.Errorf\<close> with \<open>%w\<close>; \<open>joinError\<close> is \<open>errors.Join\<close>; \<open>externalError\<close>
  stands for an error of code outside the package that wraps no sentinel.
\<close>

datatype sentinel =
    ErrNoPeerAvailable
  | ErrNilBalancer
  | ErrNilTryFunc
  | ErrNilRequest
  | ErrNilRequestURL
  | ErrNilRoundTripper
  | ErrInvalidRoundTrip
  | ErrNilResponseBody
  | ErrInvalidUpstreamConfig

text \<open>What \<open>Error()\<close> of a sentinel returns.\<close>

fun sentinel_text :: "sentinel \<Rightarrow> string" where
  "sentinel_text ErrNoPeerAvailable = ''no peer available''"
| "sentinel_text ErrNilBalancer = ''cslb: nil balancer''"
| "sentinel_text ErrNilTryFunc = ''cslb: nil tryFunc''"
| "sentinel_text ErrNilRequest = ''cslb: nil request''"
| "sentinel_text ErrNilRequestURL = ''cslb: nil request URL''"
| "sentinel_text ErrNilRoundTripper = ''cslb: nil underlying transport''"
| "sentinel_text ErrInvalidRoundTrip = ''cslb: underlying transport returned nil response and nil error''"
| "sentinel_text ErrNilResponseBody = ''cslb: underlying transport returned a response with a nil body''"
| "sentinel_text ErrInvalidUpstreamConfig = ''cslb: invalid upstream configuration''"

datatype error =
    sentinelError sentinel
  | errorText string
  | wrapError string error
  | joinError "error list"
  | externalError nat

text \<open>\<open>errors.Is\<close> walks the chain of wrapped errors and every branch of a join.\<close>

fun errors_Is :: "error \<Rightarrow> sentinel \<Rightarrow> bool" where
  "errors_Is (sentinelError s) target = (s = target)"
| "errors_Is (wrapError _ e) target = errors_Is e target"
| "errors_Is (joinError es) target = list_ex (\<lambda>e. errors_Is e target) es"
| "errors_Is (errorText _) target = False"
| "errors_Is (externalError _) target = False"

text \<open>\<open>errors.Join\<close> drops nil errors and returns nil when nothing is left.\<close>

definition errors_Join :: "error option list \<Rightarrow> error option" where
  "errors_Join es =
     (let es' = List.map_filter (\<lambda>e. e) es in if es' = [] then None else Some (joinError es'))"

lemma set_present: "set (List.map_filter (\<lambda>e. e) es) = {e. Some e \<in> set es}"
  by (induction es) (auto simp: List.map_filter_simps split: option.split)

lemma errors_Join_None_iff: "errors_Join es = None \<longleftrightarrow> (\<forall>e. Some e \<notin> set es)"
  using set_present [of es] set_empty [of "List.map_filter (\<lambda>e. e) es"]
  by (auto simp: errors_Join_def Let_def simp del: set_empty)

lemma errors_Join_Is:
  assumes "errors_Join es = Some e"
  shows "errors_Is e t \<longleftrightarrow> (\<exists>x. Some x \<in> set es \<and> errors_Is x t)"
proof -
  from assms have "e = joinError (List.map_filter (\<lambda>e. e) es)"
    by (auto simp: errors_Join_def Let_def split: if_splits)
  then show ?thesis by (simp add: list_ex_iff set_present)
qed

end
