(* ===== verification/Peers.thy ===== *)
theory Peers
  imports Cslb_Prelude
begin

unbundle bit_operations_syntax

text \<open>
  Peers and peer groups (\<open>src/balancer.go\<close>, \<open>src/util.go\<close>): the record of one backend
  server, its initialisation, the split of the configured servers into the primary and the
  backup group, and the availability test that all algorithms share. A pointer \<open>*Peer\<close> is
  a number, an address of the store \<open>heap\<close>; the store, the readings of the clock and the
  number of random draws form the state \<open>world\<close> that the operations pass along.
\<close>

section \<open>Peers\<close>

type_synonym serverFieldSet = "8 word"

definition serverFieldWeight :: serverFieldSet where
  "serverFieldWeight = 1"

definition serverFieldMaxFails :: serverFieldSet where
  "serverFieldMaxFails = 2"

definition serverFieldFailTimeout :: serverFieldSet where
  "serverFieldFailTimeout = 4"

definition has :: "serverFieldSet \<Rightarrow> serverFieldSet \<Rightarrow> bool" where
  "has s field \<longleftrightarrow> s AND field \<noteq> 0"

record Peer =
  Addr :: string
  Weight :: int
  Down :: bool
  MaxConns :: int
  MaxFails :: int
  FailTimeout :: duration
  Backup :: bool
  explicit :: serverFieldSet
  currentWeight :: int
  effectiveWeight :: int
  conns :: int
  fails :: int
  accessed :: time
  checked :: time
  checkedSeq :: "64 word"

type_synonym peer_id = nat

definition setChecked :: "time \<Rightarrow> Peer \<Rightarrow> Peer" where
  "setChecked t p = p\<lparr>checked := t, checkedSeq := checkedSeq p + 1\<rparr>"

definition peer_init :: "Peer \<Rightarrow> Peer" where
  "peer_init p =
     (let p1 = (if Weight p \<le> 0 then p\<lparr>Weight := 1\<rparr> else p);
          p2 = (if MaxFails p1 = 0 \<and> \<not> has (explicit p1) serverFieldMaxFails
                then p1\<lparr>MaxFails := 1\<rparr> else p1);
          p3 = (if FailTimeout p2 = 0 \<and> \<not> has (explicit p2) serverFieldFailTimeout
                then p2\<lparr>FailTimeout := 10 * time_Second\<rparr> else p2)
      in p3\<lparr>effectiveWeight := Weight p3, currentWeight := 0\<rparr>)"

section \<open>The state the operations share\<close>

text \<open>
  \<open>heap\<close> holds the peers, \<open>clock\<close> is the sequence of values that successive calls of
  \<open>time.Now\<close> return and \<open>ticks\<close> counts the calls made so far, \<open>draws\<close> counts the calls
  of the random source. The mutex of a group makes each critical section one step.
\<close>

record world =
  heap :: "peer_id \<Rightarrow> Peer"
  clock :: "nat \<Rightarrow> time"
  ticks :: nat
  draws :: nat

definition time_Now :: "world \<Rightarrow> time \<times> world" where
  "time_Now w = (clock w (ticks w), w\<lparr>ticks := Suc (ticks w)\<rparr>)"

definition upd_peer :: "peer_id \<Rightarrow> (Peer \<Rightarrow> Peer) \<Rightarrow> world \<Rightarrow> world" where
  "upd_peer p f w = w\<lparr>heap := (heap w)(p := f (heap w p))\<rparr>"

section \<open>Peer groups\<close>

record PeerGroup =
  Peers :: "peer_id list"
  TotalWeight :: int
  single :: bool

definition empty_group :: PeerGroup where
  "empty_group = \<lparr>Peers = [], TotalWeight = 0, single = False\<rparr>"

definition group_append :: "peer_id \<Rightarrow> int \<Rightarrow> PeerGroup \<Rightarrow> PeerGroup" where
  "group_append p weight g =
     g\<lparr>Peers := Peers g @ [p], TotalWeight := i64 (TotalWeight g + weight)\<rparr>"

text \<open>The loop of \<open>BuildGroups\<close>; a nil pointer of the list is \<open>None\<close>.\<close>

fun BuildGroups_loop ::
  "peer_id option list \<Rightarrow> PeerGroup \<Rightarrow> PeerGroup \<Rightarrow> world \<Rightarrow> PeerGroup \<times> PeerGroup \<times> world" where
  "BuildGroups_loop [] primary backup w = (primary, backup, w)"
| "BuildGroups_loop (None # ps) primary backup w = BuildGroups_loop ps primary backup w"
| "BuildGroups_loop (Some p # ps) primary backup w =
     (let w1 = upd_peer p peer_init w
      in if Backup (heap w1 p)
         then BuildGroups_loop ps primary (group_append p (Weight (heap w1 p)) backup) w1
         else BuildGroups_loop ps (group_append p (Weight (heap w1 p)) primary) backup w1)"

definition BuildGroups ::
  "peer_id option list \<Rightarrow> world \<Rightarrow> PeerGroup \<times> PeerGroup option \<times> world" where
  "BuildGroups ps w =
     (case BuildGroups_loop ps empty_group empty_group w of
        (primary, backup, w1) \<Rightarrow>
          if Peers backup = []
          then (primary\<lparr>single := (length (Peers primary) = 1)\<rparr>, None, w1)
          else (primary, Some backup, w1))"

section \<open>Availability\<close>

text \<open>The two tests of \<open>peerAvailable\<close>, at an instant \<open>now\<close> already read.\<close>

definition failed_out :: "time \<Rightarrow> Peer \<Rightarrow> bool" where
  "failed_out now p \<longleftrightarrow>
     0 < MaxFails p \<and> MaxFails p \<le> fails p \<and> time_Sub now (checked p) \<le> FailTimeout p"

definition conns_full :: "Peer \<Rightarrow> bool" where
  "conns_full p \<longleftrightarrow> 0 < MaxConns p \<and> MaxConns p \<le> conns p"

definition peerAvailable :: "peer_id \<Rightarrow> world \<Rightarrow> bool \<times> world" where
  "peerAvailable p w =
     (case time_Now w of
        (now, w1) \<Rightarrow>
          (if failed_out now (heap w1 p) then (False, w1)
           else if conns_full (heap w1 p) then (False, w1)
           else (True, w1)))"

section \<open>Frames\<close>

text \<open>
  \<open>unweighted q\<close> hides the two fields that smooth weighted round-robin writes; \<open>settings q\<close>
  is what no operation of a picker ever changes.
\<close>

definition unweighted :: "Peer \<Rightarrow> Peer" where
  "unweighted q = q\<lparr>currentWeight := 0, effectiveWeight := 0\<rparr>"

definition settings ::
  "Peer \<Rightarrow> string \<times> int \<times> bool \<times> int \<times> int \<times> duration \<times> bool \<times> serverFieldSet" where
  "settings q =
     (Addr q, Weight q, Down q, MaxConns q, MaxFails q, FailTimeout q, Backup q, explicit q)"

lemma unweighted_sel:
  "Addr (unweighted q) = Addr q" "Weight (unweighted q) = Weight q"
  "Down (unweighted q) = Down q" "MaxConns (unweighted q) = MaxConns q"
  "MaxFails (unweighted q) = MaxFails q" "FailTimeout (unweighted q) = FailTimeout q"
  "Backup (unweighted q) = Backup q" "explicit (unweighted q) = explicit q"
  "conns (unweighted q) = conns q" "fails (unweighted q) = fails q"
  "accessed (unweighted q) = accessed q" "checked (unweighted q) = checked q"
  "checkedSeq (unweighted q) = checkedSeq q"
  by (simp_all add: unweighted_def)

lemma unweighted_eqD:
  assumes "unweighted q = unweighted r"
  shows "Addr q = Addr r" "Weight q = Weight r" "Down q = Down r" "MaxConns q = MaxConns r"
    "MaxFails q = MaxFails r" "FailTimeout q = FailTimeout r" "Backup q = Backup r"
    "explicit q = explicit r" "conns q = conns r" "fails q = fails r"
    "accessed q = accessed r" "checked q = checked r" "checkedSeq q = checkedSeq r"
  using assms [THEN arg_cong, of Addr] assms [THEN arg_cong, of Weight]
    assms [THEN arg_cong, of Down] assms [THEN arg_cong, of MaxConns]
    assms [THEN arg_cong, of MaxFails] assms [THEN arg_cong, of FailTimeout]
    assms [THEN arg_cong, of Backup] assms [THEN arg_cong, of explicit]
    assms [THEN arg_cong, of conns] assms [THEN arg_cong, of fails]
    assms [THEN arg_cong, of accessed] assms [THEN arg_cong, of checked]
    assms [THEN arg_cong, of checkedSeq]
  by (simp_all only: unweighted_sel)

lemma unweighted_idem [simp]: "unweighted (unweighted q) = unweighted q"
  by (simp add: unweighted_def)

lemma unweighted_failed_out: "failed_out now (unweighted q) = failed_out now q"
  by (simp add: failed_out_def unweighted_def)

lemma unweighted_conns_full: "conns_full (unweighted q) = conns_full q"
  by (simp add: conns_full_def unweighted_def)

lemma failed_out_cong: "unweighted q = unweighted r \<Longrightarrow> failed_out now q = failed_out now r"
  by (metis unweighted_failed_out)

lemma conns_full_cong: "unweighted q = unweighted r \<Longrightarrow> conns_full q = conns_full r"
  by (metis unweighted_conns_full)

lemma settings_unweighted: "settings (unweighted q) = settings q"
  by (simp add: settings_def unweighted_def)

lemma unweighted_settings: "unweighted q = unweighted r \<Longrightarrow> settings q = settings r"
  by (metis settings_unweighted)

text \<open>Access to an updated store.\<close>

lemma heap_upd_peer [simp]: "heap (upd_peer p f w) = (heap w)(p := f (heap w p))"
  by (simp add: upd_peer_def)

lemma upd_peer_frame [simp]:
  "clock (upd_peer p f w) = clock w" "ticks (upd_peer p f w) = ticks w"
  "draws (upd_peer p f w) = draws w"
  by (simp_all add: upd_peer_def)

lemma upd_peer_heap_upd:
  "upd_peer p f (w\<lparr>heap := h\<rparr>) = w\<lparr>heap := h(p := f (h p))\<rparr>"
  by (simp add: upd_peer_def)

lemma peerAvailable_heap [simp]:
  "heap (snd (peerAvailable p w)) = heap w" "clock (snd (peerAvailable p w)) = clock w"
  "ticks (snd (peerAvailable p w)) = Suc (ticks w)" "draws (snd (peerAvailable p w)) = draws w"
  by (simp_all add: peerAvailable_def time_Now_def)

lemma peerAvailable_iff:
  "fst (peerAvailable p w) \<longleftrightarrow>
     \<not> failed_out (clock w (ticks w)) (heap w p) \<and> \<not> conns_full (heap w p)"
  by (simp add: peerAvailable_def time_Now_def)

end
