(* ===== verification/Smooth_Weighted.thy ===== *)
theory Smooth_Weighted
  imports Peers
begin

text \<open>
  The smooth weighted round-robin core (\<open>smoothWeightedPeer\<close> of \<open>src/roundrobin.go\<close>),
  which round-robin, least-conn and consistent-hash selection share.
\<close>

section \<open>The code\<close>

text \<open>
  The callback \<open>eligible\<close> is a function of the peer and the state, because one of its
  uses reads the clock. One pass of the loop body for an eligible peer:
\<close>

definition swp_bump :: "peer_id \<Rightarrow> world \<Rightarrow> world" where
  "swp_bump p w =
     upd_peer p (\<lambda>q. q\<lparr>currentWeight := i64 (currentWeight q + effectiveWeight q)\<rparr>) w"

definition swp_recover :: "peer_id \<Rightarrow> world \<Rightarrow> world" where
  "swp_recover p w =
     (if effectiveWeight (heap w p) < Weight (heap w p)
      then upd_peer p (\<lambda>q. q\<lparr>effectiveWeight := i64 (effectiveWeight q + 1)\<rparr>) w
      else w)"

definition swp_better :: "world \<Rightarrow> peer_id \<Rightarrow> peer_id option \<Rightarrow> peer_id option" where
  "swp_better w p best =
     (case best of
        None \<Rightarrow> Some p
      | Some b \<Rightarrow> if currentWeight (heap w b) < currentWeight (heap w p) then Some p else best)"

fun swp_loop ::
  "(peer_id \<Rightarrow> world \<Rightarrow> bool \<times> world) \<Rightarrow> peer_id list \<Rightarrow> peer_id option \<Rightarrow> int \<Rightarrow> world
   \<Rightarrow> peer_id option \<times> int \<times> world" where
  "swp_loop eligible [] best tot w = (best, tot, w)"
| "swp_loop eligible (p # ps) best tot w =
     (case eligible p w of
        (False, w1) \<Rightarrow> swp_loop eligible ps best tot w1
      | (True, w1) \<Rightarrow>
          (let w2 = swp_bump p w1;
               tot' = i64 (tot + effectiveWeight (heap w2 p));
               w3 = swp_recover p w2
           in swp_loop eligible ps (swp_better w3 p best) tot' w3))"

definition smoothWeightedPeer ::
  "peer_id list \<Rightarrow> (peer_id \<Rightarrow> world \<Rightarrow> bool \<times> world) \<Rightarrow> world \<Rightarrow> peer_id option \<times> world" where
  "smoothWeightedPeer ps eligible w =
     (case swp_loop eligible ps None 0 w of
        (None, tot, w1) \<Rightarrow> (None, w1)
      | (Some b, tot, w1) \<Rightarrow>
          (Some b, upd_peer b (\<lambda>q. q\<lparr>currentWeight := i64 (currentWeight q - tot)\<rparr>) w1))"

section \<open>The reference\<close>

text \<open>
  What one round does to an eligible peer, and the winner: the first peer whose weight, after
  every eligible peer has been credited, is maximal.
\<close>

definition bumped :: "Peer \<Rightarrow> Peer" where
  "bumped q =
     q\<lparr>currentWeight := i64 (currentWeight q + effectiveWeight q),
       effectiveWeight :=
         (if effectiveWeight q < Weight q then i64 (effectiveWeight q + 1)
          else effectiveWeight q)\<rparr>"

definition debit :: "int \<Rightarrow> Peer \<Rightarrow> Peer" where
  "debit t q = q\<lparr>currentWeight := i64 (currentWeight q - t)\<rparr>"

definition first_max :: "('a \<Rightarrow> int) \<Rightarrow> 'a list \<Rightarrow> 'a option" where
  "first_max f xs = find (\<lambda>x. \<forall>y \<in> set xs. f y \<le> f x) xs"

definition credit :: "peer_id list \<Rightarrow> (peer_id \<Rightarrow> Peer) \<Rightarrow> peer_id \<Rightarrow> Peer" where
  "credit E h p = (if p \<in> set E then bumped (h p) else h p)"

definition round_total :: "peer_id list \<Rightarrow> (peer_id \<Rightarrow> Peer) \<Rightarrow> int" where
  "round_total E h = (\<Sum>p\<leftarrow>E. effectiveWeight (h p))"

definition round_winner :: "peer_id list \<Rightarrow> (peer_id \<Rightarrow> Peer) \<Rightarrow> peer_id option" where
  "round_winner E h = first_max (\<lambda>p. currentWeight (bumped (h p))) E"

definition swrr_round ::
  "peer_id list \<Rightarrow> (peer_id \<Rightarrow> Peer) \<Rightarrow> peer_id option \<times> (peer_id \<Rightarrow> Peer)" where
  "swrr_round E h =
     (case round_winner E h of
        None \<Rightarrow> (None, h)
      | Some b \<Rightarrow> (Some b, (credit E h)(b := debit (round_total E h) (bumped (h b)))))"

lemma swp_step:
  "swp_recover p (swp_bump p w) = w\<lparr>heap := (heap w)(p := bumped (heap w p))\<rparr>"
  by (auto simp: swp_recover_def swp_bump_def upd_peer_def bumped_def)

lemma swp_bump_ew [simp]: "effectiveWeight (heap (swp_bump p w) x) = effectiveWeight (heap w x)"
  by (simp add: swp_bump_def)

lemma swp_better_heap: "swp_better (w\<lparr>heap := h\<rparr>) p b = swp_better (w'\<lparr>heap := h\<rparr>) p b"
  by (cases b) (simp_all add: swp_better_def)

lemma unweighted_bumped [simp]: "unweighted (bumped q) = unweighted q"
  by (simp add: unweighted_def bumped_def)

lemma unweighted_debit [simp]: "unweighted (debit t q) = unweighted q"
  by (simp add: unweighted_def debit_def)

section \<open>Eligibility tests\<close>

text \<open>
  The interface between the core and its three users: an eligibility test reads the store
  and the clock, writes nothing but the number of clock readings, and does not look at the
  weights that the core itself updates.
\<close>

definition always :: "peer_id \<Rightarrow> world \<Rightarrow> bool \<times> world" where
  "always p w = (True, w)"

fun accepted :: "(peer_id \<Rightarrow> world \<Rightarrow> bool \<times> world) \<Rightarrow> peer_id list \<Rightarrow> world \<Rightarrow> peer_id list" where
  "accepted el [] w = []"
| "accepted el (p # ps) w =
     (if fst (el p w) then p # accepted el ps (snd (el p w)) else accepted el ps (snd (el p w)))"

fun after_tests :: "(peer_id \<Rightarrow> world \<Rightarrow> bool \<times> world) \<Rightarrow> peer_id list \<Rightarrow> world \<Rightarrow> world" where
  "after_tests el [] w = w"
| "after_tests el (p # ps) w = after_tests el ps (snd (el p w))"

lemma accepted_subset: "set (accepted el ps w) \<subseteq> set ps"
  by (induction ps arbitrary: w) (simp_all add: subset_insertI2)

lemma distinct_accepted: "distinct ps \<Longrightarrow> distinct (accepted el ps w)"
proof (induction ps arbitrary: w)
  case (Cons p ps)
  then have "p \<notin> set (accepted el ps w')" for w'
    using accepted_subset [of el ps w'] by auto
  with Cons show ?case by simp
qed simp

locale eligibility =
  fixes eligible :: "peer_id \<Rightarrow> world \<Rightarrow> bool \<times> world"
  assumes heap_eligible: "heap (snd (eligible p w)) = heap w"
    and clock_eligible: "clock (snd (eligible p w)) = clock w"
    and ticks_eligible: "ticks w \<le> ticks (snd (eligible p w))"
    and draws_eligible: "draws (snd (eligible p w)) = draws w"
    and weight_blind:
      "\<forall>x. unweighted (h x) = unweighted (heap w x) \<Longrightarrow>
       eligible p (w\<lparr>heap := h\<rparr>) = (fst (eligible p w), (snd (eligible p w))\<lparr>heap := h\<rparr>)"
begin

lemma after_tests_frame:
  "heap (after_tests eligible ps w) = heap w" "clock (after_tests eligible ps w) = clock w"
  "ticks w \<le> ticks (after_tests eligible ps w)" "draws (after_tests eligible ps w) = draws w"
proof (induction ps arbitrary: w)
  case (Cons p ps)
  {
    case 1
    show ?case using Cons.IH(1) by (simp add: heap_eligible)
  next
    case 2
    show ?case using Cons.IH(2) by (simp add: clock_eligible)
  next
    case 3
    show ?case using Cons.IH(3) [of "snd (eligible p w)"] ticks_eligible [of w p] by simp
  next
    case 4
    show ?case using Cons.IH(4) by (simp add: draws_eligible)
  }
qed simp_all

lemma tests_weight_blind:
  assumes "\<forall>x. unweighted (h x) = unweighted (heap w x)"
  shows "accepted eligible ps (w\<lparr>heap := h\<rparr>) = accepted eligible ps w \<and>
    after_tests eligible ps (w\<lparr>heap := h\<rparr>) = (after_tests eligible ps w)\<lparr>heap := h\<rparr>"
  using assms
proof (induction ps arbitrary: w)
  case (Cons p ps)
  have "\<forall>x. unweighted (h x) = unweighted (heap (snd (eligible p w)) x)"
    using Cons.prems by (simp add: heap_eligible)
  from Cons.IH [OF this] show ?case
    by (simp add: weight_blind [OF Cons.prems])
qed simp

lemma swp_loop_accepted:
  "swp_loop eligible ps b t w =
     swp_loop always (accepted eligible ps w) b t (after_tests eligible ps w)"
proof (induction ps arbitrary: b t w)
  case (Cons p ps)
  obtain ok w1 where el: "eligible p w = (ok, w1)" by fastforce
  have h1: "heap w1 = heap w" using heap_eligible [of p w] el by simp
  show ?case
  proof (cases ok)
    case False
    with Cons.IH el show ?thesis by simp
  next
    case True
    define h where "h = (heap w)(p := bumped (heap w p))"
    have "\<forall>x. unweighted (h x) = unweighted (heap w1 x)"
      by (simp add: h1 h_def)
    note blind = tests_weight_blind [OF this, of ps]
    have step: "swp_recover p (swp_bump p w1) = w1\<lparr>heap := h\<rparr>"
      by (simp add: swp_step h1 h_def)
    have step': "swp_recover p (swp_bump p (after_tests eligible ps w1)) =
        (after_tests eligible ps w1)\<lparr>heap := h\<rparr>"
      by (simp add: swp_step after_tests_frame h1 h_def)
    show ?thesis
      using True el Cons.IH [where w = "w1\<lparr>heap := h\<rparr>"]
      by (simp add: Let_def always_def step step' blind after_tests_frame
          swp_better_heap [where w = w1 and w' = "after_tests eligible ps w1"])
  qed
qed simp

lemma smoothWeightedPeer_accepted:
  "smoothWeightedPeer ps eligible w =
     smoothWeightedPeer (accepted eligible ps w) always (after_tests eligible ps w)"
  by (simp add: smoothWeightedPeer_def swp_loop_accepted)

end

section \<open>The core implements the reference\<close>

lemma first_max_SomeI:
  assumes "xs = us @ x # vs" and "\<forall>y \<in> set us. f y < f x" and "\<forall>y \<in> set vs. f y \<le> f x"
  shows "first_max f xs = Some x"
proof -
  have "find (\<lambda>z. \<forall>y \<in> set xs. f y \<le> f z) (us @ x # vs) = Some x"
    using assms(2)
  proof (induction us)
    case Nil
    with assms show ?case by auto
  next
    case (Cons u us)
    have "x \<in> set xs" and "f u < f x" using assms(1) Cons.prems by auto
    with Cons show ?case by (auto simp: not_le intro!: bexI [of _ x])
  qed
  with assms(1) show ?thesis by (simp add: first_max_def)
qed

lemma first_max_split:
  fixes f :: "'a \<Rightarrow> int"
  assumes "xs \<noteq> []"
  obtains us b vs where "xs = us @ b # vs" "\<forall>y \<in> set us. f y < f b" "\<forall>y \<in> set vs. f y \<le> f b"
  using assms
proof (induction xs arbitrary: thesis rule: rev_induct)
  case (snoc x xs)
  show ?case
  proof (cases "xs = []")
    case True
    with snoc.prems(1) [of "[]" x "[]"] show ?thesis by simp
  next
    case False
    from snoc.IH [OF _ this] obtain us b vs
      where d: "xs = us @ b # vs" "\<forall>y \<in> set us. f y < f b" "\<forall>y \<in> set vs. f y \<le> f b"
      by blast
    show ?thesis
    proof (cases "f b < f x")
      case True
      with d have "\<forall>y \<in> set xs. f y < f x" by fastforce
      with snoc.prems(1) [of xs x "[]"] show ?thesis by simp
    next
      case False
      with d snoc.prems(1) [of us b "vs @ [x]"] show ?thesis by simp
    qed
  qed
qed simp

lemma first_max_Nil [simp]: "first_max f [] = None"
  by (simp add: first_max_def)

lemma first_max_ge: "first_max f xs = Some x \<Longrightarrow> y \<in> set xs \<Longrightarrow> f y \<le> f x"
  by (auto simp: first_max_def find_Some_iff)

lemma first_max_mem: "first_max f xs = Some x \<Longrightarrow> x \<in> set xs"
  by (auto simp: first_max_def find_Some_iff)

lemma first_max_None_iff: "first_max f xs = None \<longleftrightarrow> xs = []"
proof (cases "xs = []")
  case False
  from first_max_split [OF this, of f] obtain us b vs where
    "xs = us @ b # vs" "\<forall>y \<in> set us. f y < f b" "\<forall>y \<in> set vs. f y \<le> f b" .
  then have "first_max f xs = Some b" by (rule first_max_SomeI)
  with False show ?thesis by simp
qed simp

lemma first_max_snoc:
  "first_max f (xs @ [x]) =
     (case first_max f xs of None \<Rightarrow> Some x | Some b \<Rightarrow> if f b < f x then Some x else Some b)"
proof (cases "xs = []")
  case True
  then show ?thesis by (simp add: first_max_def)
next
  case False
  from first_max_split [OF this, of f] obtain us b vs where
    d: "xs = us @ b # vs" "\<forall>y \<in> set us. f y < f b" "\<forall>y \<in> set vs. f y \<le> f b" .
  have b: "first_max f xs = Some b" using d by (rule first_max_SomeI)
  show ?thesis
  proof (cases "f b < f x")
    case True
    with d have "\<forall>y \<in> set xs. f y < f x" by fastforce
    then have "first_max f (xs @ [x]) = Some x" by (intro first_max_SomeI [of _ xs x "[]"]) auto
    with True b show ?thesis by simp
  next
    case False
    then have "first_max f (xs @ [x]) = Some b"
      using d by (intro first_max_SomeI [of _ us b "vs @ [x]"]) auto
    with False b show ?thesis by simp
  qed
qed

lemma swp_loop_append:
  "swp_loop el (xs @ ys) b t w =
     (case swp_loop el xs b t w of (b', t', w') \<Rightarrow> swp_loop el ys b' t' w')"
  by (induction xs arbitrary: b t w) (auto simp: Let_def split: prod.splits bool.splits)

lemma swp_loop_always_Cons:
  "swp_loop always (p # ps) b t w =
     (let w' = w\<lparr>heap := (heap w)(p := bumped (heap w p))\<rparr>
      in swp_loop always ps (swp_better w' p b) (i64 (t + effectiveWeight (heap w p))) w')"
  by (simp add: always_def swp_step)

text \<open>
  The loop over a list of distinct eligible peers: the best peer so far heads the scan, the
  credited peers are the ones already passed.
\<close>

lemma swp_loop_always:
  assumes "distinct E"
  shows "swp_loop always E None 0 w =
    (round_winner E (heap w), i64 (round_total E (heap w)), w\<lparr>heap := credit E (heap w)\<rparr>)"
  using assms
proof (induction E rule: rev_induct)
  case Nil
  then show ?case
    by (simp add: round_winner_def round_total_def credit_def)
next
  case (snoc p E)
  then have p: "p \<notin> set E" and IH: "swp_loop always E None 0 w =
    (round_winner E (heap w), i64 (round_total E (heap w)), w\<lparr>heap := credit E (heap w)\<rparr>)"
    by auto
  have cr: "(credit E (heap w))(p := bumped (heap w p)) = credit (E @ [p]) (heap w)"
    by (auto simp: credit_def fun_eq_iff)
  have "swp_better (w\<lparr>heap := credit (E @ [p]) (heap w)\<rparr>) p (round_winner E (heap w)) =
      round_winner (E @ [p]) (heap w)"
    unfolding round_winner_def first_max_snoc swp_better_def
    by (auto simp: credit_def dest: first_max_mem split: option.splits)
  then show ?case
    using p by (simp add: swp_loop_append IH swp_loop_always_Cons Let_def cr round_total_def
        credit_def [of E "heap w" p] del: swp_loop.simps(2))
qed

lemma smoothWeightedPeer_always:
  assumes "distinct E"
  shows "smoothWeightedPeer E always w =
    (fst (swrr_round E (heap w)), w\<lparr>heap := snd (swrr_round E (heap w))\<rparr>)"
proof (cases "round_winner E (heap w)")
  case None
  then have "E = []" by (simp add: round_winner_def first_max_None_iff)
  then show ?thesis
    by (simp add: smoothWeightedPeer_def swrr_round_def round_winner_def)
next
  case (Some b)
  then have "b \<in> set E" by (auto simp: round_winner_def dest: first_max_mem)
  with Some show ?thesis
    by (simp add: smoothWeightedPeer_def swp_loop_always [OF assms] swrr_round_def upd_peer_def
        debit_def credit_def)
qed

lemma swrr_round_None_iff: "fst (swrr_round E h) = None \<longleftrightarrow> E = []"
  by (auto simp: swrr_round_def round_winner_def first_max_None_iff split: option.splits)

lemma swrr_round_None: "fst (swrr_round E h) = None \<Longrightarrow> snd (swrr_round E h) = h"
  by (auto simp: swrr_round_def split: option.splits)

lemma swrr_round_mem: "fst (swrr_round E h) = Some p \<Longrightarrow> p \<in> set E"
  by (auto simp: swrr_round_def round_winner_def dest: first_max_mem split: option.splits)

lemma accepted_tested:
  "p \<in> set (accepted el ps w) \<Longrightarrow> \<exists>us vs. ps = us @ p # vs \<and> fst (el p (after_tests el us w))"
proof (induction ps arbitrary: w)
  case (Cons q ps)
  show ?case
  proof (cases "p = q \<and> fst (el q w)")
    case True
    then show ?thesis by (intro exI [of _ "[]"] exI [of _ ps]) simp
  next
    case False
    with Cons.prems have "p \<in> set (accepted el ps (snd (el q w)))" by (auto split: if_splits)
    from Cons.IH [OF this] obtain us vs where
      "ps = us @ p # vs" "fst (el p (after_tests el us (snd (el q w))))" by blast
    then show ?thesis by (intro exI [of _ "q # us"] exI [of _ vs]) simp
  qed
qed simp

context eligibility
begin

lemma smoothWeightedPeer_round:
  assumes "distinct ps"
  shows "smoothWeightedPeer ps eligible w =
    (fst (swrr_round (accepted eligible ps w) (heap w)),
     (after_tests eligible ps w)\<lparr>heap := snd (swrr_round (accepted eligible ps w) (heap w))\<rparr>)"
  by (simp add: smoothWeightedPeer_accepted smoothWeightedPeer_always distinct_accepted assms
      after_tests_frame)

end

end
