(* ===== verification/Swrr_Balance.thy ===== *)
theory Swrr_Balance
  imports Smooth_Weighted
begin

text \<open>
  Balance of smooth weighted round-robin. The current weights of a group sum to zero, and the
  sum over any \<open>k\<close> of its \<open>n\<close> peers is at most \<open>T * k * (n - k)\<close>, where \<open>T\<close> bounds
  the weight credited in one round. The invariant holds for every sequence of rounds, whichever peers
  are eligible in each of them, so the current weights stay within \<open>T * (n - 1)\<close> and the
  64-bit arithmetic of the code never wraps as long as \<open>T * n\<close> fits. When all peers take part
  in every round, \<open>T\<close> rounds select every peer exactly as often as its weight says.
\<close>

section \<open>One round, on integers\<close>

definition ledger_ok :: "'a set \<Rightarrow> int \<Rightarrow> ('a \<Rightarrow> int) \<Rightarrow> bool" where
  "ledger_ok S T x \<longleftrightarrow>
     sum x S = 0 \<and>
     (\<forall>K \<subseteq> S. sum x K \<le> T * int (card K) * (int (card S) - int (card K)))"

lemma ledger_zero: "0 \<le> T \<Longrightarrow> finite S \<Longrightarrow> (\<And>p. p \<in> S \<Longrightarrow> x p = 0) \<Longrightarrow> ledger_ok S T x"
  unfolding ledger_ok_def
proof (intro conjI allI impI)
  fix K
  assume T: "0 \<le> T" and fin: "finite S" and z: "\<And>p. p \<in> S \<Longrightarrow> x p = 0" and K: "K \<subseteq> S"
  have "sum x K = 0" using z K by (intro sum.neutral) auto
  moreover have "card K \<le> card S" using fin K by (rule card_mono)
  ultimately show "sum x K \<le> T * int (card K) * (int (card S) - int (card K))"
    using T by simp
qed simp

lemma ledger_upper:
  assumes "ledger_ok S T x" and "p \<in> S"
  shows "x p \<le> T * (int (card S) - 1)"
proof -
  from assms have "sum x {p} \<le> T * int (card {p}) * (int (card S) - int (card {p}))"
    unfolding ledger_ok_def by blast
  then show ?thesis by simp
qed

lemma ledger_lower:
  assumes "ledger_ok S T x" and "finite S" and "p \<in> S"
  shows "- (T * (int (card S) - 1)) \<le> x p"
proof -
  let ?K = "S - {p}"
  have card: "int (card ?K) = int (card S) - 1"
    using assms(2,3) by (rule int_card_remove)
  have "sum x ?K \<le> T * int (card ?K) * (int (card S) - int (card ?K))"
    using assms(1) unfolding ledger_ok_def by blast
  then have "sum x ?K \<le> T * (int (card S) - 1)" by (simp add: card)
  moreover have "sum x S = x p + sum x ?K" using assms(2,3) by (simp add: sum.remove)
  moreover have "sum x S = 0" using assms(1) by (simp add: ledger_ok_def)
  ultimately show ?thesis by simp
qed

text \<open>Crediting the eligible set and debiting the winner by the total credit.\<close>

definition ledger_round ::
  "'a set \<Rightarrow> ('a \<Rightarrow> int) \<Rightarrow> 'a \<Rightarrow> ('a \<Rightarrow> int) \<Rightarrow> 'a \<Rightarrow> int" where
  "ledger_round E e w x p =
     (if p \<in> E then x p + e p else x p) - (if p = w then sum e E else 0)"

lemma ledger_round_sum:
  assumes "finite K" and "finite E"
  shows "sum (ledger_round E e w x) K =
    sum x K + sum e (K \<inter> E) - (if w \<in> K then sum e E else 0)"
proof -
  have "sum (ledger_round E e w x) K =
      (\<Sum>p\<in>K. (x p + (if p \<in> E then e p else 0)) - (if p = w then sum e E else 0))"
    by (intro sum.cong) (auto simp: ledger_round_def)
  also have "\<dots> = sum x K + (\<Sum>p\<in>K. if p \<in> E then e p else 0)
      - (\<Sum>p\<in>K. if p = w then sum e E else 0)"
    by (simp add: sum.distrib sum_subtractf)
  finally show ?thesis
    using assms by (simp add: sum.inter_restrict)
qed

text \<open>The rules of a round: the eligible set, its non-negative credits and the winner.\<close>

definition round_rules ::
  "'a set \<Rightarrow> int \<Rightarrow> 'a set \<Rightarrow> ('a \<Rightarrow> int) \<Rightarrow> 'a \<Rightarrow> ('a \<Rightarrow> int) \<Rightarrow> bool" where
  "round_rules S T E e w x \<longleftrightarrow>
     finite S \<and> E \<subseteq> S \<and> w \<in> E \<and> (\<forall>p \<in> E. 0 \<le> e p) \<and> sum e E \<le> T \<and>
     (\<forall>p \<in> E. x p + e p \<le> x w + e w) \<and> ledger_ok S T x"

lemma round_rulesD:
  assumes "round_rules S T E e w x"
  shows "finite S" "finite E" "E \<subseteq> S" "w \<in> E" "w \<in> S" "sum e E \<le> T" "ledger_ok S T x"
    "p \<in> E \<Longrightarrow> x p + e p \<le> x w + e w" "sum e (K \<inter> E) \<le> sum e E"
    "K \<subseteq> S \<Longrightarrow> sum x K \<le> T * int (card K) * (int (card S) - int (card K))"
proof -
  show fin: "finite E"
    using assms unfolding round_rules_def by (blast intro: finite_subset)
  show "sum e (K \<inter> E) \<le> sum e E"
    using assms fin unfolding round_rules_def by (intro sum_mono2) auto
  show "K \<subseteq> S \<Longrightarrow> sum x K \<le> T * int (card K) * (int (card S) - int (card K))"
    using assms unfolding round_rules_def ledger_ok_def by blast
qed (use assms in \<open>auto simp: round_rules_def\<close>)

text \<open>
  A set that loses the winner's debit: exchange an eligible member for the winner and use the
  bounds for the two neighbouring sizes.
\<close>

lemma exchange_bound:
  assumes r: "round_rules S T E e w x" and K: "K \<subseteq> S" and wK: "w \<notin> K" and j: "j \<in> K" "j \<in> E"
  shows "sum x K + sum e (K \<inter> E) \<le> T * int (card K) * (int (card S) - int (card K))"
proof -
  let ?b = "\<lambda>k. T * k * (int (card S) - k)"
  let ?k = "int (card K)"
  have finK: "finite K" using K round_rulesD(1) [OF r] by (rule finite_subset)
  note wE = round_rulesD(4) [OF r] and wS = round_rulesD(5) [OF r]
  have c1: "int (card (K - {j})) = ?k - 1"
    using finK j(1) by (rule int_card_remove)
  have c2: "int (card (insert w K)) = ?k + 1" using wK finK by simp
  have lo: "sum x (K - {j}) \<le> ?b (?k - 1)" using round_rulesD(10) [OF r, of "K - {j}"] K c1 by auto
  have hi: "sum x (insert w K) \<le> ?b (?k + 1)" using round_rulesD(10) [OF r, of "insert w K"] K wS c2 by auto
  have s1: "sum x K = x j + sum x (K - {j})" using j(1) finK by (simp add: sum.remove)
  have s2: "sum x (insert w K) = x w + sum x K" using wK finK by simp
  have t1: "sum e (K \<inter> E) = e j + sum e ((K - {j}) \<inter> E)"
  proof -
    have "(K - {j}) \<inter> E = (K \<inter> E) - {j}" by blast
    with j finK show ?thesis by (simp add: sum.remove)
  qed
  have t2: "sum e (insert w K \<inter> E) = e w + sum e (K \<inter> E)"
    using wK wE finK by (simp add: Int_insert_left)
  have "2 * (sum x K + sum e (K \<inter> E)) \<le>
      sum x (K - {j}) + sum x (insert w K) + (sum e ((K - {j}) \<inter> E) + sum e (insert w K \<inter> E))"
    unfolding s2 t2 using round_rulesD(8) [OF r j(2)] s1 t1 by simp
  also have "\<dots> \<le> ?b (?k - 1) + ?b (?k + 1) + (T + T)"
    using lo hi round_rulesD(9) [OF r, of "K - {j}"]
      round_rulesD(9) [OF r, of "insert w K"] round_rulesD(6) [OF r] by linarith
  also have "\<dots> = 2 * ?b ?k" by (simp add: algebra_simps)
  finally show ?thesis by simp
qed

lemma ledger_round_ok:
  assumes r: "round_rules S T E e w x"
  shows "ledger_ok S T (ledger_round E e w x)"
  unfolding ledger_ok_def
proof (intro conjI allI impI)
  have "S \<inter> E = E" using round_rulesD(3) [OF r] by blast
  then show "sum (ledger_round E e w x) S = 0"
    using round_rulesD(1,2,5,7) [OF r] by (simp add: ledger_round_sum ledger_ok_def)
next
  fix K
  assume K: "K \<subseteq> S"
  then have finK: "finite K" using round_rulesD(1) [OF r] by (rule finite_subset)
  note rs = ledger_round_sum [OF finK round_rulesD(2) [OF r], of e w x]
  show "sum (ledger_round E e w x) K \<le> T * int (card K) * (int (card S) - int (card K))"
  proof (cases "w \<in> K \<or> K \<inter> E = {}")
    case True
    then have "sum (ledger_round E e w x) K \<le> sum x K"
      using rs round_rulesD(9) [OF r, of K] r by (auto simp: round_rules_def sum_nonneg)
    with round_rulesD(10) [OF r K] show ?thesis by linarith
  next
    case False
    then obtain j where "j \<in> K" "j \<in> E" "w \<notin> K" by blast
    with exchange_bound [OF r K] rs show ?thesis by simp
  qed
qed

section \<open>One round, on peers\<close>

definition weight_ok :: "Peer \<Rightarrow> bool" where
  "weight_ok q \<longleftrightarrow> 0 < Weight q \<and> 0 \<le> effectiveWeight q \<and> effectiveWeight q \<le> Weight q"

definition weight_sum :: "peer_id list \<Rightarrow> (peer_id \<Rightarrow> Peer) \<Rightarrow> int" where
  "weight_sum ps h = (\<Sum>p \<in> set ps. Weight (h p))"

definition balanced :: "peer_id list \<Rightarrow> (peer_id \<Rightarrow> Peer) \<Rightarrow> bool" where
  "balanced ps h \<longleftrightarrow>
     (\<forall>p \<in> set ps. weight_ok (h p)) \<and>
     ledger_ok (set ps) (weight_sum ps h) (\<lambda>p. currentWeight (h p))"

text \<open>The configured weights are small enough for 64-bit arithmetic.\<close>

definition weights_fit :: "peer_id list \<Rightarrow> (peer_id \<Rightarrow> Peer) \<Rightarrow> bool" where
  "weights_fit ps h \<longleftrightarrow> int (card (set ps)) * weight_sum ps h < 2 ^ 63"

lemma weight_sum_pos: "p \<in> set ps \<Longrightarrow> balanced ps h \<Longrightarrow> Weight (h p) \<le> weight_sum ps h"
  unfolding weight_sum_def balanced_def weight_ok_def
  by (rule member_le_sum) (auto simp: less_imp_le)

lemma currentWeight_bounds:
  assumes b: "balanced ps h" and p: "p \<in> set ps"
  shows "currentWeight (h p) \<le> weight_sum ps h * (int (card (set ps)) - 1)"
    and "- (weight_sum ps h * (int (card (set ps)) - 1)) \<le> currentWeight (h p)"
  using ledger_upper [of "set ps" "weight_sum ps h" "\<lambda>p. currentWeight (h p)" p]
    ledger_lower [of "set ps" "weight_sum ps h" "\<lambda>p. currentWeight (h p)" p] b p
  by (simp_all add: balanced_def)

text \<open>Under the invariant no addition of a round wraps.\<close>

lemma credit_exact:
  assumes b: "balanced ps h" and f: "weights_fit ps h" and p: "p \<in> set ps"
  shows "currentWeight (bumped (h p)) = currentWeight (h p) + effectiveWeight (h p)"
    and "effectiveWeight (bumped (h p)) =
      (if effectiveWeight (h p) < Weight (h p) then effectiveWeight (h p) + 1
       else effectiveWeight (h p))"
    and "in_i64 (currentWeight (h p) + effectiveWeight (h p))"
proof -
  let ?T = "weight_sum ps h" and ?n = "int (card (set ps))"
  have w: "0 < Weight (h p)" "0 \<le> effectiveWeight (h p)" "effectiveWeight (h p) \<le> Weight (h p)"
    using b p by (auto simp: balanced_def weight_ok_def)
  have T: "Weight (h p) \<le> ?T" using weight_sum_pos [OF p b] .
  have "0 < card (set ps)" using p by (auto simp: card_gt_0_iff)
  then have n: "1 \<le> ?n" by linarith
  have Tn: "?T * (?n - 1) + ?T < 2 ^ 63"
    using f by (simp add: weights_fit_def algebra_simps)
  have T0: "0 < ?T" using w(1) T by simp
  then have "0 \<le> ?T * (?n - 1)" using n by simp
  with w T Tn currentWeight_bounds [OF b p]
  show r: "in_i64 (currentWeight (h p) + effectiveWeight (h p))"
    by (simp add: in_i64_def)
  have "in_i64 (effectiveWeight (h p) + 1)" if "effectiveWeight (h p) < Weight (h p)"
    using that w T Tn \<open>0 \<le> ?T * (?n - 1)\<close> by (simp add: in_i64_def)
  then show "effectiveWeight (bumped (h p)) =
      (if effectiveWeight (h p) < Weight (h p) then effectiveWeight (h p) + 1
       else effectiveWeight (h p))"
    by (simp add: bumped_def i64_id)
  show "currentWeight (bumped (h p)) = currentWeight (h p) + effectiveWeight (h p)"
    using r by (simp add: bumped_def i64_id)
qed

text \<open>The round of the reference follows the rules of the ledger.\<close>

lemma swrr_round_rules:
  assumes b: "balanced ps h" and f: "weights_fit ps h"
    and E: "distinct E" "set E \<subseteq> set ps" and w: "round_winner E h = Some w"
  shows "round_rules (set ps) (weight_sum ps h) (set E) (\<lambda>p. effectiveWeight (h p)) w
           (\<lambda>p. currentWeight (h p))"
    and "round_total E h = sum (\<lambda>p. effectiveWeight (h p)) (set E)"
proof -
  show tot: "round_total E h = sum (\<lambda>p. effectiveWeight (h p)) (set E)"
    using E(1) by (simp add: round_total_def sum_list_distinct_conv_sum_set)
  have ok: "weight_ok (h p)" if "p \<in> set ps" for p
    using b that by (simp add: balanced_def)
  have "sum (\<lambda>p. effectiveWeight (h p)) (set E) \<le> sum (\<lambda>p. Weight (h p)) (set E)"
    using ok E(2) by (intro sum_mono) (auto simp: weight_ok_def)
  also have "\<dots> \<le> weight_sum ps h"
    unfolding weight_sum_def
    using ok E(2) by (intro sum_mono2) (auto simp: weight_ok_def less_imp_le)
  finally have le: "sum (\<lambda>p. effectiveWeight (h p)) (set E) \<le> weight_sum ps h" .
  have mx: "currentWeight (h p) + effectiveWeight (h p) \<le> currentWeight (h w) + effectiveWeight (h w)"
    if "p \<in> set E" for p
    using first_max_ge [OF w [unfolded round_winner_def] that] credit_exact(1) [OF b f]
      first_max_mem [OF w [unfolded round_winner_def]] that E(2) by (simp add: subset_iff)
  show "round_rules (set ps) (weight_sum ps h) (set E) (\<lambda>p. effectiveWeight (h p)) w
           (\<lambda>p. currentWeight (h p))"
    using E(2) first_max_mem [OF w [unfolded round_winner_def]] ok le mx b
    by (auto simp: round_rules_def balanced_def weight_ok_def)
qed

lemma ledger_in_range:
  assumes "ledger_ok (set ps) (weight_sum ps h) x" and "weights_fit ps h"
    and "p \<in> set ps" and "0 \<le> weight_sum ps h"
  shows "in_i64 (x p)"
proof -
  let ?T = "weight_sum ps h" and ?n = "int (card (set ps))"
  have "?T * (?n - 1) \<le> ?n * ?T" using assms(4) by (simp add: algebra_simps)
  then show ?thesis
    using ledger_upper [OF assms(1,3)] ledger_lower [OF assms(1) _ assms(3)] assms(2)
    by (simp add: in_i64_def weights_fit_def)
qed

lemma weight_sum_nonneg: "balanced ps h \<Longrightarrow> 0 \<le> weight_sum ps h"
  unfolding balanced_def weight_sum_def weight_ok_def by (intro sum_nonneg) (auto simp: less_imp_le)

lemma swrr_round_exact:
  assumes b: "balanced ps h" and f: "weights_fit ps h"
    and E: "distinct E" "set E \<subseteq> set ps" and w: "round_winner E h = Some w" and p: "p \<in> set ps"
  shows "currentWeight (snd (swrr_round E h) p) =
    ledger_round (set E) (\<lambda>p. effectiveWeight (h p)) w (\<lambda>p. currentWeight (h p)) p"
proof -
  note rules = swrr_round_rules [OF b f E w]
  have wE: "w \<in> set E" using w by (auto simp: round_winner_def dest: first_max_mem)
  note rng = ledger_in_range [OF ledger_round_ok [OF rules(1)] f _ weight_sum_nonneg [OF b]]
  show ?thesis
  proof (cases "p = w")
    case True
    have "in_i64 (currentWeight (h w) + effectiveWeight (h w) - round_total E h)"
      using rng [OF p] True wE rules(2) by (simp add: ledger_round_def)
    with True w wE rules(2) credit_exact(1) [OF b f p] show ?thesis
      by (simp add: swrr_round_def debit_def ledger_round_def i64_id)
  next
    case False
    with w credit_exact(1) [OF b f p] show ?thesis
      by (simp add: swrr_round_def credit_def ledger_round_def)
  qed
qed

lemma swrr_round_unweighted: "unweighted (snd (swrr_round E h) p) = unweighted (h p)"
  by (simp add: swrr_round_def credit_def split: option.split)

lemma swrr_round_weight_sum: "weight_sum ps (snd (swrr_round E h)) = weight_sum ps h"
  by (simp add: weight_sum_def unweighted_eqD(2) [OF swrr_round_unweighted])

lemma swrr_round_weight_ok:
  assumes b: "balanced ps h" and f: "weights_fit ps h" and p: "p \<in> set ps"
  shows "weight_ok (snd (swrr_round E h) p)"
proof -
  have "weight_ok (h p)" using b p by (simp add: balanced_def)
  moreover have "Weight (bumped (h p)) = Weight (h p)" by (simp add: bumped_def)
  ultimately have "weight_ok (bumped (h p))"
    using credit_exact(2) [OF b f p] by (auto simp: weight_ok_def)
  with \<open>weight_ok (h p)\<close> show ?thesis
    by (auto simp: swrr_round_def credit_def debit_def weight_ok_def split: option.split)
qed

lemma swrr_round_balanced:
  assumes b: "balanced ps h" and f: "weights_fit ps h" and E: "distinct E" "set E \<subseteq> set ps"
  shows "balanced ps (snd (swrr_round E h))"
proof (cases "round_winner E h")
  case None
  with b show ?thesis by (simp add: swrr_round_def)
next
  case (Some w)
  have "ledger_ok (set ps) (weight_sum ps h)
      (ledger_round (set E) (\<lambda>p. effectiveWeight (h p)) w (\<lambda>p. currentWeight (h p)))"
    by (rule ledger_round_ok [OF swrr_round_rules(1) [OF b f E Some]])
  then have "ledger_ok (set ps) (weight_sum ps h) (\<lambda>p. currentWeight (snd (swrr_round E h) p))"
    using swrr_round_exact [OF b f E Some]
    by (auto simp: ledger_ok_def subset_iff intro!: sum.cong cong: sum.cong)
  then show ?thesis
    using swrr_round_weight_ok [OF b f] by (simp add: balanced_def swrr_round_weight_sum)
qed

lemma swrr_round_fits: "weights_fit ps (snd (swrr_round E h)) = weights_fit ps h"
  by (simp add: weights_fit_def swrr_round_weight_sum)

section \<open>Fairness\<close>

text \<open>
  A group at full speed: every peer has its full effective weight, and no peer owes a whole
  period. A round in which all peers take part keeps it.
\<close>

definition full_speed :: "peer_id list \<Rightarrow> (peer_id \<Rightarrow> Peer) \<Rightarrow> bool" where
  "full_speed ps h \<longleftrightarrow>
     distinct ps \<and> ps \<noteq> [] \<and> balanced ps h \<and> weights_fit ps h \<and>
     (\<forall>p \<in> set ps. effectiveWeight (h p) = Weight (h p) \<and> - weight_sum ps h < currentWeight (h p))"

lemma full_speed_winner:
  assumes "full_speed ps h"
  obtains w where "w \<in> set ps" "round_winner ps h = Some w"
    "0 < currentWeight (h w) + Weight (h w)"
proof -
  have d: "distinct ps" "ps \<noteq> []" "balanced ps h" "weights_fit ps h"
    and ew: "\<And>p. p \<in> set ps \<Longrightarrow> effectiveWeight (h p) = Weight (h p)"
    using assms by (auto simp: full_speed_def)
  from d(2) obtain w where w: "round_winner ps h = Some w"
    by (cases "round_winner ps h") (auto simp: round_winner_def first_max_None_iff)
  have wp: "w \<in> set ps" using w by (auto simp: round_winner_def dest: first_max_mem)
  have "0 < Weight (h w)" using d(3) wp by (simp add: balanced_def weight_ok_def)
  then have "0 < weight_sum ps h" using weight_sum_pos [OF wp d(3)] by simp
  moreover have "(\<Sum>p \<in> set ps. currentWeight (h p) + Weight (h p)) = weight_sum ps h"
    using d(3) by (simp add: sum.distrib balanced_def ledger_ok_def weight_sum_def)
  ultimately have "0 < (\<Sum>p \<in> set ps. currentWeight (h p) + Weight (h p))" by simp
  then obtain p where p: "p \<in> set ps" "0 < currentWeight (h p) + Weight (h p)"
    by (meson not_less sum_nonpos)
  have "currentWeight (h p) + Weight (h p) \<le> currentWeight (h w) + Weight (h w)"
    using swrr_round_rules(1) [OF d(3,4,1) order_refl w] p(1) ew wp by (auto simp: round_rules_def)
  with p(2) have "0 < currentWeight (h w) + Weight (h w)" by simp
  with that wp w show thesis by blast
qed

lemma full_speed_round:
  assumes fs: "full_speed ps h" and w: "fst (swrr_round ps h) = Some w" and p: "p \<in> set ps"
  shows "currentWeight (snd (swrr_round ps h) p) =
      currentWeight (h p) + Weight (h p) - (if p = w then weight_sum ps h else 0)"
    and "effectiveWeight (snd (swrr_round ps h) p) = Weight (h p)"
    and "- weight_sum ps h < currentWeight (snd (swrr_round ps h) p)"
proof -
  have d: "distinct ps" "balanced ps h" "weights_fit ps h"
    and ew: "\<And>p. p \<in> set ps \<Longrightarrow> effectiveWeight (h p) = Weight (h p)"
    and lo: "- weight_sum ps h < currentWeight (h p)"
    using fs p by (auto simp: full_speed_def)
  have win: "round_winner ps h = Some w"
    using w by (auto simp: swrr_round_def split: option.splits)
  have tot: "sum (\<lambda>p. effectiveWeight (h p)) (set ps) = weight_sum ps h"
    by (simp add: weight_sum_def ew)
  show cw: "currentWeight (snd (swrr_round ps h) p) =
      currentWeight (h p) + Weight (h p) - (if p = w then weight_sum ps h else 0)"
    using swrr_round_exact [OF d(2,3,1) order_refl win p] p ew tot
    by (simp add: ledger_round_def)
  have W: "0 < Weight (h p)" using d(2) p by (simp add: balanced_def weight_ok_def)
  show "effectiveWeight (snd (swrr_round ps h) p) = Weight (h p)"
    using win credit_exact(2) [OF d(2,3) p] p ew
    by (auto simp: swrr_round_def credit_def debit_def)
  show "- weight_sum ps h < currentWeight (snd (swrr_round ps h) p)"
  proof -
    from full_speed_winner [OF fs] win have "0 < currentWeight (h w) + Weight (h w)" by force
    with cw lo W show ?thesis by (cases "p = w") auto
  qed
qed

text \<open>
  A run of \<open>n\<close> rounds, given by the states \<open>H 0, \<dots>, H n\<close> between them and the winners
  \<open>B 0, \<dots>, B (n - 1)\<close>; only the weights of the states matter.
\<close>

definition full_run ::
  "peer_id list \<Rightarrow> nat \<Rightarrow> (nat \<Rightarrow> peer_id \<Rightarrow> Peer) \<Rightarrow> (nat \<Rightarrow> peer_id) \<Rightarrow> bool" where
  "full_run ps n H B \<longleftrightarrow>
     (\<forall>i < n. fst (swrr_round ps (H i)) = Some (B i) \<and>
        (\<forall>p \<in> set ps.
           currentWeight (H (Suc i) p) = currentWeight (snd (swrr_round ps (H i)) p) \<and>
           effectiveWeight (H (Suc i) p) = effectiveWeight (snd (swrr_round ps (H i)) p) \<and>
           Weight (H (Suc i) p) = Weight (H i p)))"

lemma full_speed_cong:
  assumes "\<forall>p \<in> set ps. currentWeight (h p) = currentWeight (h' p) \<and>
      effectiveWeight (h p) = effectiveWeight (h' p) \<and> Weight (h p) = Weight (h' p)"
  shows "full_speed ps h = full_speed ps h'"
proof -
  have "weight_sum ps h = weight_sum ps h'" using assms by (simp add: weight_sum_def)
  moreover have "ledger_ok (set ps) T (\<lambda>p. currentWeight (h p)) =
      ledger_ok (set ps) T (\<lambda>p. currentWeight (h' p))" for T
    using assms by (auto simp: ledger_ok_def subset_iff cong: sum.cong)
  ultimately show ?thesis
    using assms by (auto simp: full_speed_def balanced_def weights_fit_def weight_ok_def)
qed

lemma full_run_step:
  assumes run: "full_run ps n H B" and fs: "full_speed ps (H 0)" and i: "i \<le> n"
  shows "full_speed ps (H i) \<and> (\<forall>p \<in> set ps. Weight (H i p) = Weight (H 0 p)) \<and>
    (\<forall>p \<in> set ps. currentWeight (H i p) = currentWeight (H 0 p) + int i * Weight (H 0 p)
       - weight_sum ps (H 0) * int (card {j. j < i \<and> B j = p}))"
  using i
proof (induction i)
  case 0
  with fs show ?case by simp
next
  case (Suc i)
  then have fsi: "full_speed ps (H i)" and W: "\<forall>p \<in> set ps. Weight (H i p) = Weight (H 0 p)"
    and cw: "\<forall>p \<in> set ps. currentWeight (H i p) = currentWeight (H 0 p) + int i * Weight (H 0 p)
       - weight_sum ps (H 0) * int (card {j. j < i \<and> B j = p})"
    by auto
  let ?h = "snd (swrr_round ps (H i))"
  have win: "fst (swrr_round ps (H i)) = Some (B i)"
    and nxt: "\<forall>p \<in> set ps. currentWeight (H (Suc i) p) = currentWeight (?h p) \<and>
      effectiveWeight (H (Suc i) p) = effectiveWeight (?h p) \<and> Weight (H (Suc i) p) = Weight (H i p)"
    using run Suc.prems by (auto simp: full_run_def)
  have ws: "weight_sum ps (H i) = weight_sum ps (H 0)" using W by (simp add: weight_sum_def)
  have Wh: "Weight (?h p) = Weight (H i p)" for p by (rule unweighted_eqD(2) [OF swrr_round_unweighted])
  have "full_speed ps ?h"
    using fsi full_speed_round(2,3) [OF fsi win] swrr_round_balanced [of ps "H i" ps]
    by (auto simp: full_speed_def swrr_round_fits swrr_round_weight_sum Wh)
  then have "full_speed ps (H (Suc i))"
    using nxt Wh by (subst full_speed_cong [of _ _ ?h]) auto
  moreover have "card {j. j < Suc i \<and> B j = p} = card {j. j < i \<and> B j = p} + (if p = B i then 1 else 0)"
    for p
  proof -
    have "{j. j < Suc i \<and> B j = p} = {j. j < i \<and> B j = p} \<union> (if p = B i then {i} else {})"
      by (auto simp: less_Suc_eq)
    then show ?thesis by simp
  qed
  ultimately show ?case
    using nxt cw W full_speed_round(1) [OF fsi win] ws by (auto simp: algebra_simps)
qed

text \<open>
  Over one period of \<open>T\<close> rounds from a fresh group every peer wins exactly \<open>Weight\<close> times,
  and the current weights return to zero.
\<close>

lemma full_run_period:
  assumes run: "full_run ps n H B" and fs: "full_speed ps (H 0)"
    and n: "int n = weight_sum ps (H 0)" and z: "\<forall>p \<in> set ps. currentWeight (H 0 p) = 0"
    and p: "p \<in> set ps"
  shows "int (card {i. i < n \<and> B i = p}) = Weight (H 0 p)" and "currentWeight (H n p) = 0"
proof -
  let ?T = "weight_sum ps (H 0)" and ?c = "\<lambda>p. int (card {i. i < n \<and> B i = p})"
  note st = full_run_step [OF run fs order_refl]
  have W0: "weight_sum ps (H n) = ?T" using st by (simp add: weight_sum_def)
  have cw: "currentWeight (H n q) = ?T * (Weight (H 0 q) - ?c q)" if "q \<in> set ps" for q
    using st z n that by (simp add: algebra_simps)
  have T: "0 < ?T"
    using p weight_sum_pos [OF p] fs by (fastforce simp: full_speed_def balanced_def weight_ok_def)
  have le: "?c q \<le> Weight (H 0 q)" if q: "q \<in> set ps" for q
  proof -
    have "- ?T < currentWeight (H n q)" using conjunct1 [OF st] W0 q unfolding full_speed_def by metis
    then have "?T * (- 1) < ?T * (Weight (H 0 q) - ?c q)" using cw [OF q] by simp
    with T show ?thesis by (simp only: mult_less_cancel_left_pos)
  qed
  have win: "B i \<in> set ps" if "i < n" for i
    using run that
    by (auto simp: full_run_def swrr_round_def round_winner_def dest: first_max_mem split: option.splits)
  have "{i. i < n} = (\<Union>q \<in> set ps. {i. i < n \<and> B i = q})" using win by blast
  then have "n = card (\<Union>q \<in> set ps. {i. i < n \<and> B i = q})" by (metis card_Collect_less_nat)
  also have "\<dots> = (\<Sum>q \<in> set ps. card {i. i < n \<and> B i = q})"
    by (rule card_UN_disjoint) auto
  finally have "int n = (\<Sum>q \<in> set ps. ?c q)" by (metis of_nat_sum)
  then have "(\<Sum>q \<in> set ps. Weight (H 0 q) - ?c q) = 0"
    using n by (simp add: sum_subtractf weight_sum_def)
  then have "Weight (H 0 p) - ?c p = 0"
    using le p by (subst (asm) sum_nonneg_eq_0_iff) auto
  then show "?c p = Weight (H 0 p)" by simp
  with cw [OF p] show "currentWeight (H n p) = 0" by simp
qed

end
