(* ===== verification/Round_Robin.thy ===== *)
theory Round_Robin
  imports Swrr_Balance
begin

text \<open>
  Round-robin selection (\<open>src/roundrobin.go\<close>): the balancer, the per-request picker that all
  other algorithms embed, selection from a group, the switch to the backup group, and the
  report of a result.
\<close>

section \<open>The code\<close>

record RoundRobin =
  primary :: PeerGroup
  backup :: "PeerGroup option"

definition NewRoundRobin :: "peer_id option list \<Rightarrow> world \<Rightarrow> RoundRobin \<times> world" where
  "NewRoundRobin ps w =
     (case BuildGroups ps w of (p, b, w1) \<Rightarrow> (\<lparr>primary = p, backup = b\<rparr>, w1))"

record probeCheck =
  prior :: time
  seq :: "64 word"

text \<open>
  The maps \<open>tried\<close> and \<open>probeChecked\<close> of the picker: an absent key of \<open>tried\<close> reads as
  false, and the lazily allocated \<open>probeChecked\<close> starts empty.
\<close>

record RRPicker =
  rr_primary :: PeerGroup
  rr_backup :: "PeerGroup option"
  tried :: "peer_id \<Rightarrow> bool"
  backupPhase :: bool
  probeChecked :: "peer_id \<rightharpoonup> probeCheck"

definition NewRRPicker :: "PeerGroup \<Rightarrow> PeerGroup option \<Rightarrow> RRPicker" where
  "NewRRPicker p b =
     \<lparr>rr_primary = p, rr_backup = b, tried = (\<lambda>_. False), backupPhase = False,
      probeChecked = Map.empty\<rparr>"

definition RoundRobin_NewPicker :: "RoundRobin \<Rightarrow> RRPicker" where
  "RoundRobin_NewPicker rr = NewRRPicker (primary rr) (backup rr)"

text \<open>The accessors, which the other balancers of the package read as fields.\<close>

definition RoundRobin_Primary :: "RoundRobin \<Rightarrow> PeerGroup" where
  "RoundRobin_Primary rr = primary rr"

definition RoundRobin_Backup :: "RoundRobin \<Rightarrow> PeerGroup option" where
  "RoundRobin_Backup rr = backup rr"

definition Tried :: "peer_id \<Rightarrow> RRPicker \<Rightarrow> bool" where
  "Tried p rr = tried rr p"

definition PrimaryGroup :: "RRPicker \<Rightarrow> PeerGroup" where
  "PrimaryGroup rr = rr_primary rr"

definition BackupGroup :: "RRPicker \<Rightarrow> PeerGroup option" where
  "BackupGroup rr = rr_backup rr"

definition SetTried :: "peer_id \<Rightarrow> RRPicker \<Rightarrow> RRPicker" where
  "SetTried p rr = rr\<lparr>tried := (tried rr)(p := True)\<rparr>"

definition commitPeer :: "peer_id \<Rightarrow> time \<Rightarrow> RRPicker \<Rightarrow> world \<Rightarrow> RRPicker \<times> world" where
  "commitPeer p now rr w =
     (let (rr1, w1) =
        (if FailTimeout (heap w p) < time_Sub now (checked (heap w p))
         then (let prior_t = checked (heap w p);
                   w' = upd_peer p (setChecked now) w
               in (rr\<lparr>probeChecked := (probeChecked rr)
                     (p \<mapsto> \<lparr>prior = prior_t, seq = checkedSeq (heap w' p)\<rparr>)\<rparr>, w'))
         else (rr, w));
        w2 = upd_peer p (\<lambda>q. q\<lparr>conns := i64 (conns q + 1)\<rparr>) w1
      in (SetTried p rr1, w2))"

text \<open>The eligibility test of \<open>pickFromGroup\<close>: not tried, not down, not failed out, not full.\<close>

definition rr_eligible :: "RRPicker \<Rightarrow> time \<Rightarrow> peer_id \<Rightarrow> world \<Rightarrow> bool \<times> world" where
  "rr_eligible rr now p w =
     ((if tried rr p then False
       else if Down (heap w p) then False
       else if failed_out now (heap w p) then False
       else if conns_full (heap w p) then False
       else True), w)"

text \<open>
  Selection from one group. A \<open>single\<close> group holds exactly one peer; indexing an empty
  group would panic.
\<close>

type_synonym 'pk pick_result = "(peer_id option \<times> 'pk \<times> world) outcome"
type_synonym group_pick = "PeerGroup \<Rightarrow> RRPicker \<Rightarrow> world \<Rightarrow> RRPicker pick_result"

definition pickFromGroup :: group_pick where
  "pickFromGroup grp rr w =
     (if single grp
      then (case Peers grp of
              [] \<Rightarrow> Panic
            | p # _ \<Rightarrow>
                if tried rr p \<or> Down (heap w p) \<or> conns_full (heap w p)
                then Val (None, rr, w)
                else Val (Some p, rr\<lparr>tried := (tried rr)(p := True)\<rparr>,
                          upd_peer p (\<lambda>q. q\<lparr>conns := i64 (conns q + 1)\<rparr>) w))
      else (case time_Now w of
              (now, w1) \<Rightarrow>
                (case smoothWeightedPeer (Peers grp) (rr_eligible rr now) w1 of
                   (None, w2) \<Rightarrow> Val (None, rr, w2)
                 | (Some best, w2) \<Rightarrow>
                     (case commitPeer best now rr w2 of (rr', w3) \<Rightarrow> Val (Some best, rr', w3)))))"

definition pickFromCurrentGroup :: "group_pick \<Rightarrow> group_pick" where
  "pickFromCurrentGroup pick grp rr w =
     (if single grp then pickFromGroup grp rr w else pick grp rr w)"

definition backupGroupForPick :: "RRPicker \<Rightarrow> PeerGroup option \<times> RRPicker" where
  "backupGroupForPick rr =
     (case rr_backup rr of
        None \<Rightarrow> (None, rr)
      | Some b \<Rightarrow>
          if Peers b = [] then (None, rr)
          else if \<not> backupPhase rr
          then (Some b, rr\<lparr>backupPhase := True,
                  tried := (\<lambda>p. if p \<in> set (Peers b) then False else tried rr p)\<rparr>)
          else (Some b, rr))"

definition pickFromBackup :: "group_pick \<Rightarrow> RRPicker \<Rightarrow> world \<Rightarrow> RRPicker pick_result" where
  "pickFromBackup pick rr w =
     (case backupGroupForPick rr of
        (Some grp, rr1) \<Rightarrow> pickFromCurrentGroup pick grp rr1 w
      | (None, rr1) \<Rightarrow> Val (None, rr1, w))"

definition pickWithBackup :: "group_pick \<Rightarrow> RRPicker \<Rightarrow> world \<Rightarrow> RRPicker pick_result" where
  "pickWithBackup pick rr w =
     (if \<not> backupPhase rr
      then (case pickFromCurrentGroup pick (rr_primary rr) rr w of
              Panic \<Rightarrow> Panic
            | Val (Some p, rr1, w1) \<Rightarrow> Val (Some p, rr1, w1)
            | Val (None, rr1, w1) \<Rightarrow> pickFromBackup pick rr1 w1)
      else pickFromBackup pick rr w)"

definition RRPicker_Pick :: "RRPicker \<Rightarrow> world \<Rightarrow> RRPicker pick_result" where
  "RRPicker_Pick = pickWithBackup pickFromGroup"

text \<open>The group a peer is released to, and the report of a result.\<close>

definition done_group :: "RRPicker \<Rightarrow> Peer \<Rightarrow> PeerGroup" where
  "done_group rr q =
     (case rr_backup rr of
        None \<Rightarrow> rr_primary rr
      | Some b \<Rightarrow> if Backup q then b else rr_primary rr)"

definition done_failed :: "time \<Rightarrow> Peer \<Rightarrow> Peer" where
  "done_failed now q =
     (let q1 = setChecked now (q\<lparr>fails := i64 (fails q + 1), accessed := now\<rparr>);
          q2 = (if 0 < MaxFails q1
                then q1\<lparr>effectiveWeight :=
                       i64 (effectiveWeight q1 - go_quot (Weight q1) (MaxFails q1))\<rparr>
                else q1)
      in if effectiveWeight q2 < 0 then q2\<lparr>effectiveWeight := 0\<rparr> else q2)"

definition done_ok :: "Peer \<Rightarrow> Peer" where
  "done_ok q = (if accessed q < checked q then q\<lparr>fails := 0\<rparr> else q)"

definition release_conn :: "Peer \<Rightarrow> Peer" where
  "release_conn q = q\<lparr>conns := i64 (conns q - 1)\<rparr>"

definition done_neutral_probe :: "peer_id \<Rightarrow> RRPicker \<Rightarrow> world \<Rightarrow> RRPicker \<times> world" where
  "done_neutral_probe p rr w =
     (case probeChecked rr p of
        None \<Rightarrow> (rr, w)
      | Some probe \<Rightarrow>
          (rr\<lparr>probeChecked := (probeChecked rr)(p := None)\<rparr>,
           if checkedSeq (heap w p) = seq probe
           then upd_peer p (setChecked (prior probe)) w else w))"

definition rr_done ::
  "peer_id option \<Rightarrow> bool \<Rightarrow> bool \<Rightarrow> RRPicker \<Rightarrow> world \<Rightarrow> RRPicker \<times> world" where
  "rr_done peer failed neutral rr w =
     (case peer of
        None \<Rightarrow> (rr, w)
      | Some p \<Rightarrow>
          if single (done_group rr (heap w p))
          then (rr, upd_peer p (\<lambda>q. release_conn (q\<lparr>fails := 0\<rparr>)) w)
          else if neutral
          then (case done_neutral_probe p rr w of
                  (rr1, w1) \<Rightarrow> (rr1, upd_peer p release_conn w1))
          else (case time_Now w of
                  (now, w1) \<Rightarrow>
                    (rr, upd_peer p release_conn
                           (upd_peer p (if failed then done_failed now else done_ok) w1))))"

definition RRPicker_Done :: "peer_id option \<Rightarrow> bool \<Rightarrow> RRPicker \<Rightarrow> world \<Rightarrow> RRPicker \<times> world" where
  "RRPicker_Done peer failed rr w = rr_done peer failed False rr w"

definition RRPicker_doneNeutral :: "peer_id option \<Rightarrow> RRPicker \<Rightarrow> world \<Rightarrow> RRPicker \<times> world" where
  "RRPicker_doneNeutral peer rr w = rr_done peer False True rr w"

section \<open>The eligibility test meets the interface of the core\<close>

interpretation rr_test: eligibility "rr_eligible rr now" for rr now
proof (unfold_locales, goal_cases)
  case (5 h w p)
  then have u: "unweighted (h p) = unweighted (heap w p)" by simp
  show ?case
    by (simp add: rr_eligible_def failed_out_cong [OF u] conns_full_cong [OF u] unweighted_eqD [OF u])
qed (simp_all add: rr_eligible_def)

definition rr_ok :: "RRPicker \<Rightarrow> time \<Rightarrow> Peer \<Rightarrow> peer_id \<Rightarrow> bool" where
  "rr_ok rr now q p \<longleftrightarrow> \<not> tried rr p \<and> \<not> Down q \<and> \<not> failed_out now q \<and> \<not> conns_full q"

lemma rr_eligible_iff: "rr_eligible rr now p w = (rr_ok rr now (heap w p) p, w)"
  by (simp add: rr_eligible_def rr_ok_def)

lemma accepted_rr:
  "accepted (rr_eligible rr now) ps w = filter (\<lambda>p. rr_ok rr now (heap w p) p) ps"
  "after_tests (rr_eligible rr now) ps w = w"
  by (induction ps) (simp_all add: rr_eligible_iff)

section \<open>Committing a peer\<close>

lemma commitPeer_picker:
  assumes "commitPeer p now rr w = (rr', w')"
  shows "rr_primary rr' = rr_primary rr" "rr_backup rr' = rr_backup rr"
    "backupPhase rr' = backupPhase rr" "tried rr' = (tried rr)(p := True)"
  using assms by (auto simp: commitPeer_def SetTried_def Let_def split: if_splits)

lemma commitPeer_world:
  assumes "commitPeer p now rr w = (rr', w')"
  shows "clock w' = clock w" "ticks w' = ticks w" "draws w' = draws w"
    "q \<noteq> p \<Longrightarrow> heap w' q = heap w q"
    "conns (heap w' p) = i64 (conns (heap w p) + 1)"
    "settings (heap w' q) = settings (heap w q)"
    "fails (heap w' q) = fails (heap w q)" "accessed (heap w' q) = accessed (heap w q)"
    "currentWeight (heap w' q) = currentWeight (heap w q)"
    "effectiveWeight (heap w' q) = effectiveWeight (heap w q)"
  using assms
  by (auto simp: commitPeer_def Let_def setChecked_def settings_def split: if_splits)

end
