(* ===== verification/Pick_Contract.thy ===== *)
theory Pick_Contract
  imports Round_Robin
begin

text \<open>
  What every picker promises. A critical section either leaves the picker and the store alone
  or commits one admissible peer; a whole \<open>Pick\<close> is a sequence of such sections. The
  contract is stated once, over the embedded round-robin picker, and the locale \<open>picker\<close>
  is the interface that the six picker types of the code implement.
\<close>

section \<open>Well-formed pickers\<close>

definition backup_peers :: "RRPicker \<Rightarrow> peer_id list" where
  "backup_peers rr = (case rr_backup rr of None \<Rightarrow> [] | Some b \<Rightarrow> Peers b)"

definition pool :: "RRPicker \<Rightarrow> peer_id set" where
  "pool rr = set (Peers (rr_primary rr)) \<union> set (backup_peers rr)"

definition groups_wf :: "PeerGroup \<Rightarrow> PeerGroup option \<Rightarrow> bool" where
  "groups_wf p b \<longleftrightarrow>
     distinct (Peers p) \<and>
     (single p \<longrightarrow> length (Peers p) = 1 \<and> b = None) \<and>
     (\<forall>g. b = Some g \<longrightarrow>
        distinct (Peers g) \<and> Peers g \<noteq> [] \<and> \<not> single g \<and> set (Peers p) \<inter> set (Peers g) = {})"

definition rr_wf :: "RRPicker \<Rightarrow> bool" where
  "rr_wf rr \<longleftrightarrow>
     groups_wf (rr_primary rr) (rr_backup rr) \<and>
     (backupPhase rr \<longrightarrow> rr_backup rr \<noteq> None) \<and>
     (\<not> backupPhase rr \<longrightarrow> (\<forall>p \<in> set (backup_peers rr). \<not> tried rr p))"

text \<open>The peers that a picker has not tried yet.\<close>

definition remaining :: "RRPicker \<Rightarrow> nat" where
  "remaining rr = card {p \<in> pool rr. \<not> tried rr p}"

section \<open>Sections and picks\<close>

definition weights_only :: "peer_id list \<Rightarrow> (peer_id \<Rightarrow> Peer) \<Rightarrow> (peer_id \<Rightarrow> Peer) \<Rightarrow> bool" where
  "weights_only ps h h' \<longleftrightarrow>
     h' = h \<or> (\<exists>E. distinct E \<and> set E \<subseteq> set ps \<and> h' = snd (swrr_round E h))"

definition time_passes :: "world \<Rightarrow> world \<Rightarrow> bool" where
  "time_passes w w' \<longleftrightarrow> clock w' = clock w \<and> ticks w \<le> ticks w' \<and> draws w \<le> draws w'"

definition alive_between :: "world \<Rightarrow> world \<Rightarrow> peer_id \<Rightarrow> bool" where
  "alive_between w w' p \<longleftrightarrow>
     (\<exists>k. ticks w \<le> k \<and> k < ticks w' \<and> \<not> failed_out (clock w k) (heap w p))"

definition dead_between :: "world \<Rightarrow> world \<Rightarrow> peer_id \<Rightarrow> bool" where
  "dead_between w w' p \<longleftrightarrow>
     (\<exists>k. ticks w \<le> k \<and> k < ticks w' \<and> failed_out (clock w k) (heap w p))"

definition section_spec ::
  "peer_id list \<Rightarrow> RRPicker \<Rightarrow> world \<Rightarrow> peer_id option \<Rightarrow> RRPicker \<Rightarrow> world \<Rightarrow> bool" where
  "section_spec ps rr w r rr' w' \<longleftrightarrow>
     time_passes w w' \<and>
     (case r of
        None \<Rightarrow> rr' = rr \<and> heap w' = heap w
      | Some p \<Rightarrow>
          p \<in> set ps \<and> \<not> tried rr p \<and> \<not> Down (heap w p) \<and> \<not> conns_full (heap w p) \<and>
          alive_between w w' p \<and>
          (\<exists>w1 now. weights_only ps (heap w) (heap w1) \<and> commitPeer p now rr w1 = (rr', w')))"

text \<open>At most one write of \<open>checked\<close>, which counts as a version.\<close>

definition versioned :: "Peer \<Rightarrow> Peer \<Rightarrow> bool" where
  "versioned q q' \<longleftrightarrow>
     checkedSeq q' = checkedSeq q \<and> checked q' = checked q \<or> checkedSeq q' = checkedSeq q + 1"

definition pick_frame :: "world \<Rightarrow> world \<Rightarrow> bool" where
  "pick_frame w w' \<longleftrightarrow>
     time_passes w w' \<and>
     (\<forall>q. settings (heap w' q) = settings (heap w q) \<and> fails (heap w' q) = fails (heap w q) \<and>
          accessed (heap w' q) = accessed (heap w q) \<and> versioned (heap w q) (heap w' q))"

text \<open>What a pick promises when it returns nil: no peer that it had to consider was available.\<close>

definition unavailable :: "RRPicker \<Rightarrow> world \<Rightarrow> world \<Rightarrow> peer_id \<Rightarrow> bool" where
  "unavailable rr w w' p \<longleftrightarrow>
     tried rr p \<or> Down (heap w p) \<or> conns_full (heap w p) \<or> dead_between w w' p"

definition considered :: "RRPicker \<Rightarrow> peer_id set" where
  "considered rr =
     (if backupPhase rr then set (backup_peers rr)
      else set (Peers (rr_primary rr)) \<union> set (backup_peers rr))"

definition pick_spec ::
  "RRPicker \<Rightarrow> world \<Rightarrow> peer_id option \<Rightarrow> RRPicker \<Rightarrow> world \<Rightarrow> bool" where
  "pick_spec rr w r rr' w' \<longleftrightarrow>
     rr_primary rr' = rr_primary rr \<and> rr_backup rr' = rr_backup rr \<and>
     (backupPhase rr \<longrightarrow> backupPhase rr') \<and> rr_wf rr' \<and> pick_frame w w' \<and>
     (\<not> backupPhase rr \<and> backupPhase rr' \<longrightarrow>
        (\<forall>q \<in> set (Peers (rr_primary rr)). unavailable rr w w' q)) \<and>
     (case r of
        None \<Rightarrow>
          heap w' = heap w \<and> tried rr' = tried rr \<and> (\<forall>p \<in> considered rr. unavailable rr w w' p)
      | Some p \<Rightarrow>
          p \<in> pool rr \<and> \<not> tried rr p \<and> \<not> Down (heap w p) \<and> \<not> conns_full (heap w p) \<and>
          (single (rr_primary rr) \<or> alive_between w w' p) \<and>
          (p \<in> set (backup_peers rr) \<longrightarrow> backupPhase rr') \<and>
          tried rr' = (tried rr)(p := True) \<and>
          (\<forall>q. conns (heap w' q) =
                 (if q = p then i64 (conns (heap w p) + 1) else conns (heap w q)))) \<and>
     (\<forall>ps. ps = Peers (rr_primary rr) \<or> ps = backup_peers rr \<longrightarrow>
        balanced ps (heap w) \<longrightarrow> weights_fit ps (heap w) \<longrightarrow> balanced ps (heap w'))"

section \<open>Time and weights\<close>

lemma time_passes_refl [simp]: "time_passes w w"
  by (simp add: time_passes_def)

lemma time_passes_trans: "time_passes w w1 \<Longrightarrow> time_passes w1 w2 \<Longrightarrow> time_passes w w2"
  by (auto simp: time_passes_def)

lemma time_passes_Now [simp]: "time_Now w = (now, w1) \<Longrightarrow> time_passes w w1"
  by (auto simp: time_Now_def time_passes_def)

lemma alive_between_mono:
  assumes "time_passes w w1" "heap w1 = heap w" "alive_between w1 w' p"
  shows "alive_between w w' p"
  using assms unfolding alive_between_def time_passes_def by (metis order_trans)

lemma dead_between_mono:
  assumes "time_passes w w1" "heap w1 = heap w" "dead_between w1 w' p"
  shows "dead_between w w' p"
  using assms unfolding dead_between_def time_passes_def by (metis order_trans)

lemma dead_between_later:
  assumes "dead_between w w1 p" "time_passes w1 w'"
  shows "dead_between w w' p"
  using assms by (fastforce simp: dead_between_def time_passes_def)

lemma versioned_refl [simp]: "versioned q q"
  by (simp add: versioned_def)

lemma commitPeer_versioned:
  "commitPeer p now rr w = (rr', w') \<Longrightarrow> versioned (heap w q) (heap w' q)"
  by (auto simp: commitPeer_def Let_def setChecked_def versioned_def split: if_splits)

lemma weights_only_refl [simp]: "weights_only ps h h"
  by (simp add: weights_only_def)

lemma weights_only_unweighted: "weights_only ps h h' \<Longrightarrow> unweighted (h' p) = unweighted (h p)"
  by (auto simp: weights_only_def swrr_round_unweighted)

lemma swrr_round_outside: "p \<notin> set E \<Longrightarrow> snd (swrr_round E h) p = h p"
  by (auto simp: swrr_round_def credit_def round_winner_def dest: first_max_mem split: option.split)

lemma weights_only_outside: "weights_only ps h h' \<Longrightarrow> p \<notin> set ps \<Longrightarrow> h' p = h p"
  unfolding weights_only_def by (metis subsetD swrr_round_outside)

lemma balanced_cong:
  assumes "\<forall>p \<in> set ps. currentWeight (h p) = currentWeight (h' p) \<and>
      effectiveWeight (h p) = effectiveWeight (h' p) \<and> Weight (h p) = Weight (h' p)"
  shows "balanced ps h = balanced ps h'"
proof -
  have "weight_sum ps h = weight_sum ps h'" using assms by (simp add: weight_sum_def)
  moreover have "ledger_ok (set ps) T (\<lambda>p. currentWeight (h p)) =
      ledger_ok (set ps) T (\<lambda>p. currentWeight (h' p))" for T
    using assms by (auto simp: ledger_ok_def subset_iff cong: sum.cong)
  ultimately show ?thesis using assms by (auto simp: balanced_def weight_ok_def)
qed

lemma weights_only_balanced:
  assumes "weights_only qs h h'" and "balanced ps h" and "weights_fit ps h"
    and "ps = qs \<or> set ps \<inter> set qs = {}"
  shows "balanced ps h'"
proof (cases "ps = qs")
  case True
  with assms show ?thesis by (auto simp: weights_only_def swrr_round_balanced)
next
  case False
  with assms(4) have "\<forall>p \<in> set ps. h' p = h p"
    using weights_only_outside [OF assms(1)] by blast
  then have "balanced ps h' = balanced ps h" by (intro balanced_cong) simp
  with assms(2) show ?thesis by simp
qed

lemma settings_Weight: "settings q = settings r \<Longrightarrow> Weight q = Weight r"
  by (simp add: settings_def)

lemma commitPeer_balanced:
  assumes "commitPeer p now rr w = (rr', w')" and "balanced ps (heap w)"
  shows "balanced ps (heap w')"
proof -
  have "balanced ps (heap w') = balanced ps (heap w)"
    using commitPeer_world(6,9,10) [OF assms(1)] settings_Weight by (intro balanced_cong) blast
  with assms(2) show ?thesis by simp
qed

section \<open>From sections to picks\<close>

lemma section_frame:
  assumes "section_spec ps rr w (Some p) rr' w'"
  shows "pick_frame w w'"
    and "conns (heap w' q) = (if q = p then i64 (conns (heap w p) + 1) else conns (heap w q))"
proof -
  from assms obtain w1 now where wo: "weights_only ps (heap w) (heap w1)"
    and c: "commitPeer p now rr w1 = (rr', w')" and t: "time_passes w w'"
    by (auto simp: section_spec_def)
  have u: "unweighted (heap w1 q) = unweighted (heap w q)" for q
    by (rule weights_only_unweighted [OF wo])
  show "pick_frame w w'"
    using t commitPeer_world(6,7,8) [OF c] unweighted_settings [OF u] unweighted_eqD [OF u]
      commitPeer_versioned [OF c] by (simp add: pick_frame_def versioned_def)
  show "conns (heap w' q) = (if q = p then i64 (conns (heap w p) + 1) else conns (heap w q))"
    using commitPeer_world(4,5) [OF c] unweighted_eqD(9) [OF u] by simp
qed

lemma section_balanced:
  assumes "section_spec qs rr w r rr' w'" and "balanced ps (heap w)" and "weights_fit ps (heap w)"
    and "ps = qs \<or> set ps \<inter> set qs = {}"
  shows "balanced ps (heap w')"
proof (cases r)
  case None
  with assms(1,2) show ?thesis by (simp add: section_spec_def)
next
  case (Some p)
  with assms(1) obtain w1 now where wo: "weights_only qs (heap w) (heap w1)"
    and c: "commitPeer p now rr w1 = (rr', w')" by (auto simp: section_spec_def)
  show ?thesis
    by (rule commitPeer_balanced [OF c weights_only_balanced [OF wo assms(2,3,4)]])
qed

lemma rr_wf_disjoint: "rr_wf rr \<Longrightarrow> set (Peers (rr_primary rr)) \<inter> set (backup_peers rr) = {}"
  by (cases "rr_backup rr") (auto simp: rr_wf_def groups_wf_def backup_peers_def)

lemma section_pick:
  assumes wf: "rr_wf rr" and sec: "section_spec ps rr w (Some p) rr' w'"
    and ps: "ps = Peers (rr_primary rr) \<or> ps = backup_peers rr \<and> backupPhase rr"
  shows "pick_spec rr w (Some p) rr' w'"
proof -
  from sec obtain w1 now where wo: "weights_only ps (heap w) (heap w1)"
    and c: "commitPeer p now rr w1 = (rr', w')" and p: "p \<in> set ps" "\<not> tried rr p"
    "\<not> Down (heap w p)" "\<not> conns_full (heap w p)" "alive_between w w' p"
    by (auto simp: section_spec_def)
  note k = commitPeer_picker [OF c]
  have bp: "backup_peers rr' = backup_peers rr" by (simp add: backup_peers_def k)
  have wf': "rr_wf rr'"
    using wf ps p(1) rr_wf_disjoint [OF wf] by (auto simp: rr_wf_def k bp)
  have disj: "qs = ps \<or> set qs \<inter> set ps = {}"
    if "qs = Peers (rr_primary rr) \<or> qs = backup_peers rr" for qs
    using that ps rr_wf_disjoint [OF wf] by auto
  show ?thesis
    unfolding pick_spec_def
    using k wf' section_frame [OF sec] p ps section_balanced [OF sec] disj rr_wf_disjoint [OF wf]
    by (auto simp: pool_def)
qed

text \<open>A section without a result only lets time pass.\<close>

lemma pick_frame_before:
  "time_passes w w1 \<Longrightarrow> heap w1 = heap w \<Longrightarrow> pick_frame w1 w' \<Longrightarrow> pick_frame w w'"
  by (auto simp: pick_frame_def intro: time_passes_trans)

lemma pick_spec_before:
  assumes "time_passes w w1" and "heap w1 = heap w" and "pick_spec rr w1 r rr' w'"
  shows "pick_spec rr w r rr' w'"
  using assms pick_frame_before [OF assms(1,2)]
  by (cases r)
    (auto simp: pick_spec_def unavailable_def intro: alive_between_mono dead_between_mono)

section \<open>Selection from one group\<close>

text \<open>
  The interface of \<open>pickWithBackup\<close>: the callback that selects from a group runs one
  section over the peers of that group, and finds a peer if one is available.
\<close>

locale group_picker =
  fixes gp :: group_pick
  assumes gp_section:
    "distinct (Peers grp) \<Longrightarrow> \<not> single grp \<Longrightarrow>
       \<exists>r rr' w'. gp grp rr w = Val (r, rr', w') \<and> section_spec (Peers grp) rr w r rr' w' \<and>
         (r = None \<longrightarrow> (\<forall>p \<in> set (Peers grp). unavailable rr w w' p))"

text \<open>The single-peer fast path.\<close>

lemma single_group:
  assumes "groups_wf p b" and "single p"
  obtains q where "Peers p = [q]" "b = None"
  using assms by (auto simp: groups_wf_def length_Suc_conv)

lemma single_pick:
  assumes wf: "rr_wf rr" and s: "single (rr_primary rr)"
  shows "\<exists>r rr' w'. pickFromGroup (rr_primary rr) rr w = Val (r, rr', w') \<and>
    pick_spec rr w r rr' w' \<and> \<not> backupPhase rr \<and> rr_backup rr' = None"
proof -
  from wf s obtain q where q: "Peers (rr_primary rr) = [q]" and b: "rr_backup rr = None"
    by (auto simp: rr_wf_def elim: single_group)
  have nb: "\<not> backupPhase rr" using wf b by (auto simp: rr_wf_def)
  show ?thesis
  proof (cases "tried rr q \<or> Down (heap w q) \<or> conns_full (heap w q)")
    case True
    then show ?thesis
      using wf s q b nb
      by (auto simp: pickFromGroup_def pick_spec_def pick_frame_def considered_def
          unavailable_def backup_peers_def)
  next
    case False
    let ?w = "upd_peer q (\<lambda>q. q\<lparr>conns := i64 (conns q + 1)\<rparr>) w"
    have "balanced ps (heap ?w) = balanced ps (heap w)" for ps
      by (rule balanced_cong) simp
    with False show ?thesis
      using wf s q b nb
      by (auto simp: pickFromGroup_def pick_spec_def pick_frame_def time_passes_def settings_def
          versioned_def pool_def rr_wf_def backup_peers_def)
  qed
qed

context group_picker
begin

lemma current_group_section:
  assumes "distinct (Peers grp)" and "\<not> single grp"
  obtains r rr' w' where "pickFromCurrentGroup gp grp rr w = Val (r, rr', w')"
    "section_spec (Peers grp) rr w r rr' w'"
    "r = None \<Longrightarrow> \<forall>p \<in> set (Peers grp). unavailable rr w w' p"
  using gp_section [OF assms, of rr w] assms(2) by (auto simp: pickFromCurrentGroup_def)

text \<open>The backup group, once the picker is in the backup phase.\<close>

lemma backup_section:
  assumes wf: "rr_wf rr" and ph: "backupPhase rr"
  shows "\<exists>r rr' w'. pickFromBackup gp rr w = Val (r, rr', w') \<and> pick_spec rr w r rr' w'"
proof -
  from wf ph obtain g where g: "rr_backup rr = Some g" "Peers g \<noteq> []" "\<not> single g"
    "distinct (Peers g)"
    by (auto simp: rr_wf_def groups_wf_def)
  have bg: "backup_peers rr = Peers g" by (simp add: backup_peers_def g)
  from current_group_section [OF g(4,3)] obtain r rr' w' where
    c: "pickFromCurrentGroup gp g rr w = Val (r, rr', w')"
    and sec: "section_spec (Peers g) rr w r rr' w'"
    and un: "r = None \<Longrightarrow> \<forall>p \<in> set (Peers g). unavailable rr w w' p" by blast
  have "pick_spec rr w r rr' w'"
  proof (cases r)
    case None
    with sec un wf ph bg show ?thesis
      by (auto simp: pick_spec_def section_spec_def pick_frame_def considered_def)
  next
    case (Some p)
    with section_pick [OF wf] sec bg ph show ?thesis by auto
  qed
  with c g ph show ?thesis
    by (simp add: pickFromBackup_def backupGroupForPick_def)
qed

text \<open>Entering the backup phase changes no entry of \<open>tried\<close> of a well-formed picker.\<close>

lemma enter_backup:
  assumes wf: "rr_wf rr" and ph: "\<not> backupPhase rr" and b: "rr_backup rr = Some g"
  shows "pickFromBackup gp rr w = pickFromBackup gp (rr\<lparr>backupPhase := True\<rparr>) w"
    and "rr_wf (rr\<lparr>backupPhase := True\<rparr>)"
proof -
  have "backup_peers rr = Peers g" by (simp add: backup_peers_def b)
  with wf ph have t: "(\<lambda>p. if p \<in> set (Peers g) then False else tried rr p) = tried rr"
    by (auto simp: rr_wf_def fun_eq_iff)
  have "Peers g \<noteq> []" using wf b by (auto simp: rr_wf_def groups_wf_def)
  then show "pickFromBackup gp rr w = pickFromBackup gp (rr\<lparr>backupPhase := True\<rparr>) w"
    using ph b by (simp add: pickFromBackup_def backupGroupForPick_def t)
  show "rr_wf (rr\<lparr>backupPhase := True\<rparr>)"
    using wf b by (simp add: rr_wf_def)
qed

lemma after_primary:
  assumes wf: "rr_wf rr" and ph: "\<not> backupPhase rr" and t: "time_passes w w1"
    and h: "heap w1 = heap w"
    and un: "\<forall>p \<in> set (Peers (rr_primary rr)). unavailable rr w w1 p"
  shows "\<exists>r rr' w'. pickFromBackup gp rr w1 = Val (r, rr', w') \<and> pick_spec rr w r rr' w'"
proof (cases "rr_backup rr")
  case None
  then have "pickFromBackup gp rr w1 = Val (None, rr, w1)"
    by (simp add: pickFromBackup_def backupGroupForPick_def)
  moreover have "pick_spec rr w None rr w1"
    using None wf ph t h un
    by (auto simp: pick_spec_def pick_frame_def considered_def backup_peers_def)
  ultimately show ?thesis by blast
next
  case (Some g)
  let ?rr = "rr\<lparr>backupPhase := True\<rparr>"
  note e = enter_backup [OF wf ph Some]
  from backup_section [OF e(2), of w1] obtain r rr' w' where
    pb: "pickFromBackup gp ?rr w1 = Val (r, rr', w')" and "pick_spec ?rr w1 r rr' w'" by auto
  from pick_spec_before [OF t h this(2)] have sp: "pick_spec ?rr w r rr' w'" .
  have t': "time_passes w1 w'"
    using \<open>pick_spec ?rr w1 r rr' w'\<close> by (simp add: pick_spec_def pick_frame_def)
  have "unavailable rr w w' p" if "p \<in> set (Peers (rr_primary rr))" for p
    using un that dead_between_later [OF _ t'] by (auto simp: unavailable_def)
  then have "pick_spec rr w r rr' w'"
    using sp ph
    by (cases r) (auto simp: pick_spec_def considered_def unavailable_def pool_def backup_peers_def)
  with pb e(1) show ?thesis by simp
qed

lemma pickWithBackup_spec:
  assumes wf: "rr_wf rr"
  shows "\<exists>r rr' w'. pickWithBackup gp rr w = Val (r, rr', w') \<and> pick_spec rr w r rr' w'"
proof (cases "backupPhase rr")
  case True
  with backup_section [OF wf] show ?thesis by (simp add: pickWithBackup_def)
next
  case ph: False
  show ?thesis
  proof (cases "single (rr_primary rr)")
    case True
    from single_pick [OF wf True, of w] obtain r rr' w' where
      g: "pickFromGroup (rr_primary rr) rr w = Val (r, rr', w')" and s: "pick_spec rr w r rr' w'"
      and b: "rr_backup rr' = None" by blast
    from b have "pickFromBackup gp rr' w' = Val (None, rr', w')"
      by (simp add: pickFromBackup_def backupGroupForPick_def)
    with g s ph True show ?thesis
      by (cases r) (auto simp: pickWithBackup_def pickFromCurrentGroup_def)
  next
    case False
    have "distinct (Peers (rr_primary rr))" using wf by (simp add: rr_wf_def groups_wf_def)
    from current_group_section [OF this False] obtain r rr' w' where
      c: "pickFromCurrentGroup gp (rr_primary rr) rr w = Val (r, rr', w')"
      and sec: "section_spec (Peers (rr_primary rr)) rr w r rr' w'"
      and un: "r = None \<Longrightarrow> \<forall>p \<in> set (Peers (rr_primary rr)). unavailable rr w w' p" by blast
    show ?thesis
    proof (cases r)
      case None
      with sec have "rr' = rr" "heap w' = heap w" "time_passes w w'"
        by (auto simp: section_spec_def)
      with after_primary [OF wf ph, of w w'] un None c ph show ?thesis
        by (simp add: pickWithBackup_def)
    next
      case (Some p)
      with section_pick [OF wf] sec c ph show ?thesis by (auto simp: pickWithBackup_def)
    qed
  qed
qed

end

section \<open>Round-robin meets the contract\<close>

text \<open>A commit of a peer of the group, after a round over some of its peers.\<close>

lemma commit_section:
  assumes "weights_only ps (heap w) (heap w1)" and "time_passes w w1"
    and "commitPeer p now rr w1 = (rr', w')" and "p \<in> set ps" and "\<not> tried rr p"
    and "\<not> Down (heap w p)" and "\<not> conns_full (heap w p)" and "alive_between w w1 p"
  shows "section_spec ps rr w (Some p) rr' w'"
proof -
  have "time_passes w w'" "alive_between w w' p"
    using assms(2,8) commitPeer_world(1-3) [OF assms(3)]
    by (auto simp: time_passes_def alive_between_def)
  with assms show ?thesis by (auto simp: section_spec_def)
qed

lemma round_weights_only:
  "distinct E \<Longrightarrow> set E \<subseteq> set ps \<Longrightarrow> weights_only ps h (snd (swrr_round E h))"
  by (auto simp: weights_only_def)

lemma rr_group_section:
  assumes d: "distinct (Peers grp)" and ns: "\<not> single grp"
  shows "\<exists>r rr' w'. pickFromGroup grp rr w = Val (r, rr', w') \<and>
    section_spec (Peers grp) rr w r rr' w' \<and>
    (r = None \<longrightarrow> (\<forall>p \<in> set (Peers grp). unavailable rr w w' p))"
proof -
  obtain now w1 where n: "time_Now w = (now, w1)" by fastforce
  then have w1: "heap w1 = heap w" "clock w1 = clock w" "now = clock w (ticks w)"
    "ticks w1 = Suc (ticks w)" "draws w1 = draws w" by (auto simp: time_Now_def)
  let ?E = "filter (\<lambda>p. rr_ok rr now (heap w p) p) (Peers grp)"
  let ?r = "swrr_round ?E (heap w)" and ?w2 = "w1\<lparr>heap := snd (swrr_round ?E (heap w))\<rparr>"
  have sw: "smoothWeightedPeer (Peers grp) (rr_eligible rr now) w1 = (fst ?r, ?w2)"
    by (simp add: rr_test.smoothWeightedPeer_round [OF d] accepted_rr w1)
  show ?thesis
  proof (cases "fst ?r")
    case None
    then have "\<forall>p \<in> set (Peers grp). unavailable rr w w1 p"
      by (auto simp: swrr_round_None_iff filter_empty_conv rr_ok_def unavailable_def
          dead_between_def w1)
    with None sw n ns show ?thesis
      using swrr_round_None [OF None] w1
      by (simp add: pickFromGroup_def section_spec_def time_passes_def unavailable_def
          dead_between_def)
  next
    case (Some p)
    obtain rr' w' where c: "commitPeer p now rr ?w2 = (rr', w')" by fastforce
    have pe: "p \<in> set (Peers grp)" "rr_ok rr now (heap w p) p"
      using swrr_round_mem [OF Some] by auto
    have "section_spec (Peers grp) rr w (Some p) rr' w'"
    proof (rule commit_section [OF _ _ c])
      show "weights_only (Peers grp) (heap w) (heap ?w2)"
        using d by (simp add: round_weights_only)
      show "time_passes w ?w2" "alive_between w ?w2 p"
        using w1 pe(2) by (auto simp: time_passes_def alive_between_def rr_ok_def)
    qed (use pe in \<open>auto simp: rr_ok_def\<close>)
    with Some sw n ns c show ?thesis by (simp add: pickFromGroup_def)
  qed
qed

interpretation rr_group: group_picker pickFromGroup
  by unfold_locales (rule rr_group_section)

section \<open>The interface of a picker\<close>

text \<open>
  A picker type embeds a round-robin picker (\<open>rr_of\<close>, \<open>with_rr\<close>); its \<open>Pick\<close> never panics
  on a well-formed picker and meets the contract. \<open>Done\<close> is inherited from the embedded
  picker by every type.
\<close>

locale picker =
  fixes pick :: "'pk \<Rightarrow> world \<Rightarrow> 'pk pick_result"
    and rr_of :: "'pk \<Rightarrow> RRPicker"
    and with_rr :: "'pk \<Rightarrow> RRPicker \<Rightarrow> 'pk"
    and wf :: "'pk \<Rightarrow> bool"
  assumes pick_ok:
      "wf pk \<Longrightarrow> rr_wf (rr_of pk) \<Longrightarrow>
         \<exists>r pk' w'. pick pk w = Val (r, pk', w') \<and> wf pk' \<and>
           pick_spec (rr_of pk) w r (rr_of pk') w'"
    and rr_of_with_rr: "rr_of (with_rr pk rr) = rr"
    and wf_with_rr:
      "wf pk \<Longrightarrow> rr_primary rr = rr_primary (rr_of pk) \<Longrightarrow> rr_backup rr = rr_backup (rr_of pk) \<Longrightarrow>
         wf (with_rr pk rr)"

interpretation rr_picker: picker RRPicker_Pick "\<lambda>rr. rr" "\<lambda>_ rr. rr" "\<lambda>_. True"
  by unfold_locales (simp_all add: RRPicker_Pick_def rr_group.pickWithBackup_spec)

section \<open>What a client of the interface may rely on\<close>

lemma finite_pool [simp]: "finite (pool rr)"
  by (simp add: pool_def)

lemma pick_spec_pool: "pick_spec rr w r rr' w' \<Longrightarrow> pool rr' = pool rr"
  by (simp add: pick_spec_def pool_def backup_peers_def)

lemma pick_spec_remaining:
  assumes "pick_spec rr w (Some p) rr' w'"
  shows "remaining rr' < remaining rr"
proof -
  have p: "p \<in> pool rr" "\<not> tried rr p" "tried rr' = (tried rr)(p := True)"
    using assms by (auto simp: pick_spec_def)
  have "{q \<in> pool rr'. \<not> tried rr' q} = {q \<in> pool rr. \<not> tried rr q} - {p}"
    using p pick_spec_pool [OF assms] by auto
  moreover have "card ({q \<in> pool rr. \<not> tried rr q} - {p}) < card {q \<in> pool rr. \<not> tried rr q}"
    using p by (intro card_Diff1_less) auto
  ultimately show ?thesis by (simp add: remaining_def)
qed

context picker
begin

lemma pick_cases:
  assumes "wf pk" and "rr_wf (rr_of pk)"
  obtains (none) pk' w' where "pick pk w = Val (None, pk', w')" "wf pk'" "rr_wf (rr_of pk')"
      "pick_spec (rr_of pk) w None (rr_of pk') w'"
  | (some) p pk' w' where "pick pk w = Val (Some p, pk', w')" "wf pk'" "rr_wf (rr_of pk')"
      "pick_spec (rr_of pk) w (Some p) (rr_of pk') w'" "remaining (rr_of pk') < remaining (rr_of pk)"
proof -
  from pick_ok [OF assms, of w] obtain r pk' w' where
    *: "pick pk w = Val (r, pk', w')" "wf pk'" "pick_spec (rr_of pk) w r (rr_of pk') w'" by blast
  have "rr_wf (rr_of pk')" using *(3) by (simp add: pick_spec_def)
  with * none some pick_spec_remaining show thesis by (cases r) blast+
qed

end

end
