(* ===== verification/Group_Build.thy ===== *)
theory Group_Build
  imports Pick_Contract
begin

text \<open>
  What \<open>BuildGroups\<close> of \<open>src/balancer.go\<close> establishes: the two groups hold the non-nil
  pointers of the list in order, every peer is initialised exactly once in effect, and the
  groups satisfy the well-formedness and balance invariants that the pickers rely on.
\<close>

section \<open>Initialisation of a peer\<close>

definition init_weight :: "Peer \<Rightarrow> int" where
  "init_weight q = (if Weight q \<le> 0 then 1 else Weight q)"

definition init_max_fails :: "Peer \<Rightarrow> int" where
  "init_max_fails q =
     (if MaxFails q = 0 \<and> \<not> has (explicit q) serverFieldMaxFails then 1 else MaxFails q)"

definition init_fail_timeout :: "Peer \<Rightarrow> duration" where
  "init_fail_timeout q =
     (if FailTimeout q = 0 \<and> \<not> has (explicit q) serverFieldFailTimeout then 10 * time_Second
      else FailTimeout q)"

lemma peer_init_eq:
  "peer_init q =
     q\<lparr>Weight := init_weight q, MaxFails := init_max_fails q, FailTimeout := init_fail_timeout q,
       effectiveWeight := init_weight q, currentWeight := 0\<rparr>"
  by (cases "Weight q \<le> 0"; cases "MaxFails q = 0 \<and> \<not> has (explicit q) serverFieldMaxFails";
      cases "FailTimeout q = 0 \<and> \<not> has (explicit q) serverFieldFailTimeout")
    (auto simp: peer_init_def Let_def init_weight_def init_max_fails_def init_fail_timeout_def)

lemma init_fields_idem:
  "Weight r = init_weight q \<Longrightarrow> init_weight r = init_weight q"
  "MaxFails r = init_max_fails q \<Longrightarrow> explicit r = explicit q \<Longrightarrow>
     init_max_fails r = init_max_fails q"
  "FailTimeout r = init_fail_timeout q \<Longrightarrow> explicit r = explicit q \<Longrightarrow>
     init_fail_timeout r = init_fail_timeout q"
  by (simp_all add: init_weight_def init_max_fails_def init_fail_timeout_def time_Second_def)

lemma peer_init_idem [simp]: "peer_init (peer_init q) = peer_init q"
  by (simp add: peer_init_eq init_fields_idem [where q = q])

lemma peer_init_Weight: "Weight (peer_init q) = (if Weight q \<le> 0 then 1 else Weight q)"
  by (simp add: peer_init_eq init_weight_def)

lemma peer_init_keeps [simp]:
  "Addr (peer_init q) = Addr q" "Down (peer_init q) = Down q" "MaxConns (peer_init q) = MaxConns q"
  "Backup (peer_init q) = Backup q" "explicit (peer_init q) = explicit q"
  "conns (peer_init q) = conns q" "fails (peer_init q) = fails q"
  "accessed (peer_init q) = accessed q" "checked (peer_init q) = checked q"
  "checkedSeq (peer_init q) = checkedSeq q"
  by (simp_all add: peer_init_eq)

lemma peer_init_ready [simp]:
  "weight_ok (peer_init q)" "currentWeight (peer_init q) = 0"
  "effectiveWeight (peer_init q) = Weight (peer_init q)" "0 < Weight (peer_init q)"
  by (simp_all add: peer_init_eq init_weight_def weight_ok_def)

section \<open>The loop\<close>

definition pointers :: "peer_id option list \<Rightarrow> peer_id list" where
  "pointers ps = List.map_filter (\<lambda>x. x) ps"

lemma pointers_simps [simp]:
  "pointers [] = []" "pointers (None # ps) = pointers ps" "pointers (Some p # ps) = p # pointers ps"
  by (simp_all add: pointers_def List.map_filter_def)

lemma pointers_map_Some [simp]: "pointers (map Some xs) = xs"
  by (induction xs) simp_all

definition init_all :: "peer_id list \<Rightarrow> (peer_id \<Rightarrow> Peer) \<Rightarrow> peer_id \<Rightarrow> Peer" where
  "init_all ps h p = (if p \<in> set ps then peer_init (h p) else h p)"

definition extend_group :: "peer_id list \<Rightarrow> (peer_id \<Rightarrow> Peer) \<Rightarrow> PeerGroup \<Rightarrow> PeerGroup" where
  "extend_group ps h g =
     g\<lparr>Peers := Peers g @ ps,
       TotalWeight := i64 (TotalWeight g + (\<Sum>p\<leftarrow>ps. Weight (peer_init (h p))))\<rparr>"

lemma extend_group_Nil: "i64 (TotalWeight g) = TotalWeight g \<Longrightarrow> extend_group [] h g = g"
  by (simp add: extend_group_def)

definition primaries :: "peer_id option list \<Rightarrow> world \<Rightarrow> peer_id list" where
  "primaries ps w = filter (\<lambda>p. \<not> Backup (heap w p)) (pointers ps)"

definition backups :: "peer_id option list \<Rightarrow> world \<Rightarrow> peer_id list" where
  "backups ps w = filter (\<lambda>p. Backup (heap w p)) (pointers ps)"

text \<open>One initialisation, seen from the rest of the list.\<close>

lemma after_init:
  "primaries ps (upd_peer p peer_init w) = primaries ps w"
  "backups ps (upd_peer p peer_init w) = backups ps w"
  "extend_group qs (heap (upd_peer p peer_init w)) g = extend_group qs (heap w) g"
  "(upd_peer p peer_init w)\<lparr>heap := init_all qs (heap (upd_peer p peer_init w))\<rparr> =
     w\<lparr>heap := init_all (p # qs) (heap w)\<rparr>"
proof -
  have B: "Backup (heap (upd_peer p peer_init w) q) = Backup (heap w q)" for q by simp
  show "primaries ps (upd_peer p peer_init w) = primaries ps w"
    "backups ps (upd_peer p peer_init w) = backups ps w"
    by (simp_all only: primaries_def backups_def B)
  have W: "peer_init (heap (upd_peer p peer_init w) q) = peer_init (heap w q)" for q by simp
  show "extend_group qs (heap (upd_peer p peer_init w)) g = extend_group qs (heap w) g"
    by (simp only: extend_group_def W)
  have "init_all qs (heap (upd_peer p peer_init w)) = init_all (p # qs) (heap w)"
    by (auto simp: init_all_def fun_eq_iff)
  then show "(upd_peer p peer_init w)\<lparr>heap := init_all qs (heap (upd_peer p peer_init w))\<rparr> =
      w\<lparr>heap := init_all (p # qs) (heap w)\<rparr>"
    by (simp add: upd_peer_def)
qed

lemma extend_group_append:
  "extend_group ps h (group_append p (Weight (peer_init (h p))) g) = extend_group (p # ps) h g"
  by (simp add: extend_group_def group_append_def add.assoc)

lemma group_append_range: "i64 (TotalWeight (group_append p t g)) = TotalWeight (group_append p t g)"
  by (simp add: group_append_def)

lemma BuildGroups_loop_eq:
  assumes "i64 (TotalWeight P) = TotalWeight P" and "i64 (TotalWeight B) = TotalWeight B"
  shows "BuildGroups_loop ps P B w =
    (extend_group (primaries ps w) (heap w) P, extend_group (backups ps w) (heap w) B,
     w\<lparr>heap := init_all (pointers ps) (heap w)\<rparr>)"
  using assms
proof (induction ps arbitrary: P B w)
  case Nil
  then show ?case
    by (simp add: primaries_def backups_def extend_group_Nil init_all_def)
next
  case (Cons x ps)
  show ?case
  proof (cases x)
    case None
    with Cons show ?thesis by (simp add: primaries_def backups_def)
  next
    case (Some p)
    let ?w = "upd_peer p peer_init w"
    let ?t = "Weight (peer_init (heap w p))"
    have h: "Backup (heap ?w p) = Backup (heap w p)" "Weight (heap ?w p) = ?t" by simp_all
    have pb: "primaries (x # ps) w = (if Backup (heap w p) then [] else [p]) @ primaries ps w"
      "backups (x # ps) w = (if Backup (heap w p) then [p] else []) @ backups ps w"
      by (simp_all add: primaries_def backups_def Some)
    show ?thesis
      using Cons.IH [of P "group_append p ?t B" ?w] Cons.IH [of "group_append p ?t P" B ?w]
        Cons.prems
      by (simp add: Some h Let_def group_append_range pb [unfolded Some] after_init
          extend_group_append del: heap_upd_peer)
  qed
qed

section \<open>What BuildGroups establishes\<close>

lemma BuildGroups_eq:
  "BuildGroups ps w =
     (let P = extend_group (primaries ps w) (heap w) empty_group;
          B = extend_group (backups ps w) (heap w) empty_group;
          w1 = w\<lparr>heap := init_all (pointers ps) (heap w)\<rparr>
      in if backups ps w = []
         then (P\<lparr>single := (length (primaries ps w) = 1)\<rparr>, None, w1)
         else (P, Some B, w1))"
  by (simp add: BuildGroups_def BuildGroups_loop_eq empty_group_def Let_def)
    (simp add: extend_group_def)

lemma balanced_init:
  assumes "set qs \<subseteq> set ps"
  shows "balanced qs (init_all ps h)"
proof -
  have i: "init_all ps h p = peer_init (h p)" if "p \<in> set qs" for p
    using that assms by (auto simp: init_all_def)
  have "0 \<le> weight_sum qs (init_all ps h)"
    unfolding weight_sum_def by (intro sum_nonneg) (simp add: i less_imp_le)
  then show ?thesis by (simp add: balanced_def i ledger_zero)
qed

lemma extend_empty [simp]:
  "Peers (extend_group qs h empty_group) = qs" "\<not> single (extend_group qs h empty_group)"
  by (simp_all add: extend_group_def empty_group_def)

lemma BuildGroups_groups_wf:
  assumes "BuildGroups ps w = (p, b, w')" and "distinct (pointers ps)"
  shows "groups_wf p b"
  using assms
  by (auto simp: BuildGroups_eq groups_wf_def Let_def primaries_def backups_def split: if_splits)

lemma BuildGroups_balanced:
  assumes "BuildGroups ps w = (p, b, w')"
  shows "balanced (Peers p) (heap w')" and "b = Some g \<Longrightarrow> balanced (Peers g) (heap w')"
proof -
  have "set (primaries ps w) \<subseteq> set (pointers ps)" "set (backups ps w) \<subseteq> set (pointers ps)"
    by (auto simp: primaries_def backups_def)
  with assms show "balanced (Peers p) (heap w')" "b = Some g \<Longrightarrow> balanced (Peers g) (heap w')"
    by (auto simp: BuildGroups_eq Let_def balanced_init split: if_splits)
qed

lemma BuildGroups_heap:
  "BuildGroups ps w = (p, b, w') \<Longrightarrow> w' = w\<lparr>heap := init_all (pointers ps) (heap w)\<rparr>"
  by (auto simp: BuildGroups_eq Let_def split: if_splits)

lemma extend_group_weight:
  assumes "distinct qs" and "set qs \<subseteq> set ps"
  shows "TotalWeight (extend_group qs h empty_group) = i64 (weight_sum qs (init_all ps h))"
proof -
  have "(\<Sum>p\<leftarrow>qs. Weight (peer_init (h p))) = weight_sum qs (init_all ps h)"
    unfolding weight_sum_def
    using assms by (auto simp: sum_list_distinct_conv_sum_set init_all_def intro!: sum.cong)
  then show ?thesis by (simp add: extend_group_def empty_group_def)
qed

text \<open>The total weight of a group is the sum of its weights after initialisation, in 64 bits.\<close>

lemma BuildGroups_weights:
  assumes "BuildGroups ps w = (p, b, w')" and "distinct (pointers ps)"
  shows "TotalWeight p = i64 (weight_sum (Peers p) (heap w'))"
    and "b = Some g \<Longrightarrow> TotalWeight g = i64 (weight_sum (Peers g) (heap w'))"
  using assms
  by (auto simp: BuildGroups_eq Let_def primaries_def backups_def
      extend_group_weight [where ps = "pointers ps"] split: if_splits)

lemma BuildGroups_TotalWeight:
  assumes "BuildGroups ps w = (p, b, w')" and "distinct (pointers ps)"
    and "in_i64 (weight_sum (Peers p) (heap w'))"
  shows "TotalWeight p = weight_sum (Peers p) (heap w')"
  using BuildGroups_weights(1) [OF assms(1,2)] assms(3) by (simp add: i64_id)

end
