(* ===== verification/Done_Contract.thy ===== *)
theory Done_Contract
  imports Group_Build
begin

text \<open>
  What the report of a result (\<open>done\<close> of \<open>src/roundrobin.go\<close>) does to the picker and to the
  store: it releases one connection of the reported peer, touches no other peer, keeps the
  weights within their bounds, and hands a recovery probe back when the report is neutral.
\<close>

section \<open>The picker\<close>

lemma rr_done_picker:
  assumes "rr_done peer failed neutral rr w = (rr', w')"
  shows "rr_primary rr' = rr_primary rr" "rr_backup rr' = rr_backup rr"
    "backupPhase rr' = backupPhase rr" "tried rr' = tried rr"
  using assms
  by (auto simp: rr_done_def done_neutral_probe_def split: option.splits if_splits prod.splits)

lemma rr_done_wf:
  assumes "rr_done peer failed neutral rr w = (rr', w')" and "rr_wf rr"
  shows "rr_wf rr'"
  using assms(2) by (simp add: rr_wf_def backup_peers_def rr_done_picker [OF assms(1)])

lemma rr_done_remaining:
  assumes "rr_done peer failed neutral rr w = (rr', w')"
  shows "remaining rr' = remaining rr"
  by (simp add: remaining_def pool_def backup_peers_def rr_done_picker [OF assms])

section \<open>The reported peer\<close>

lemma done_failed_sel [simp]:
  "settings (done_failed now q) = settings q" "conns (done_failed now q) = conns q"
  "currentWeight (done_failed now q) = currentWeight q" "Weight (done_failed now q) = Weight q"
  "fails (done_failed now q) = i64 (fails q + 1)" "checked (done_failed now q) = now"
  "accessed (done_failed now q) = now" "MaxFails (done_failed now q) = MaxFails q"
  "FailTimeout (done_failed now q) = FailTimeout q" "checkedSeq (done_failed now q) = checkedSeq q + 1"
  by (simp_all add: done_failed_def setChecked_def settings_def Let_def)

lemma done_ok_sel [simp]:
  "settings (done_ok q) = settings q" "conns (done_ok q) = conns q"
  "currentWeight (done_ok q) = currentWeight q" "Weight (done_ok q) = Weight q"
  "effectiveWeight (done_ok q) = effectiveWeight q"
  "checked (done_ok q) = checked q" "accessed (done_ok q) = accessed q"
  "checkedSeq (done_ok q) = checkedSeq q"
  by (simp_all add: done_ok_def settings_def)

lemma release_conn_sel [simp]:
  "settings (release_conn q) = settings q" "conns (release_conn q) = i64 (conns q - 1)"
  "currentWeight (release_conn q) = currentWeight q" "Weight (release_conn q) = Weight q"
  "effectiveWeight (release_conn q) = effectiveWeight q" "fails (release_conn q) = fails q"
  "checked (release_conn q) = checked q" "accessed (release_conn q) = accessed q"
  "checkedSeq (release_conn q) = checkedSeq q"
  by (simp_all add: release_conn_def settings_def)

lemma setChecked_sel [simp]:
  "settings (setChecked t q) = settings q" "conns (setChecked t q) = conns q"
  "currentWeight (setChecked t q) = currentWeight q" "Weight (setChecked t q) = Weight q"
  "effectiveWeight (setChecked t q) = effectiveWeight q" "fails (setChecked t q) = fails q"
  "checked (setChecked t q) = t" "checkedSeq (setChecked t q) = checkedSeq q + 1"
  "accessed (setChecked t q) = accessed q"
  by (simp_all add: setChecked_def settings_def)

text \<open>A failure lowers the effective weight by a share of the weight, never below zero.\<close>

lemma done_failed_weight:
  assumes "weight_ok q" and "Weight q < 2 ^ 63"
  shows "effectiveWeight (done_failed now q) =
    (if 0 < MaxFails q then max 0 (effectiveWeight q - Weight q div MaxFails q)
     else effectiveWeight q)"
proof (cases "0 < MaxFails q")
  case True
  have W: "0 < Weight q" "0 \<le> effectiveWeight q" "effectiveWeight q \<le> Weight q"
    using assms(1) by (auto simp: weight_ok_def)
  have "go_quot (Weight q) (MaxFails q) = Weight q div MaxFails q"
    using True W by (simp add: go_quot_def)
  moreover have "0 \<le> Weight q div MaxFails q" "Weight q div MaxFails q \<le> Weight q"
    using True W zdiv_mono2 [of "Weight q" 1 "MaxFails q"]
    by (simp_all add: pos_imp_zdiv_nonneg_iff)
  ultimately have "i64 (effectiveWeight q - go_quot (Weight q) (MaxFails q)) =
      effectiveWeight q - Weight q div MaxFails q"
    using W assms(2) by (simp add: i64_id in_i64_def)
  with True show ?thesis by (simp add: done_failed_def setChecked_def Let_def)
next
  case False
  with assms(1) show ?thesis by (auto simp: done_failed_def setChecked_def weight_ok_def)
qed

lemma done_failed_weight_ok:
  assumes "weight_ok q" and "Weight q < 2 ^ 63"
  shows "weight_ok (done_failed now q)"
proof -
  have "0 \<le> Weight q div MaxFails q" if "0 < MaxFails q"
    using that assms(1) by (simp add: weight_ok_def pos_imp_zdiv_nonneg_iff)
  then show ?thesis
    using assms(1) by (auto simp: weight_ok_def done_failed_weight [OF assms])
qed

section \<open>The store\<close>

text \<open>Every branch of the report as one update of the reported peer.\<close>

definition done_peer :: "bool \<Rightarrow> bool \<Rightarrow> RRPicker \<Rightarrow> peer_id \<Rightarrow> time \<Rightarrow> Peer \<Rightarrow> Peer" where
  "done_peer failed neutral rr p now q =
     release_conn
       (if single (done_group rr q) then q\<lparr>fails := 0\<rparr>
        else if neutral
        then (case probeChecked rr p of
                None \<Rightarrow> q
              | Some probe \<Rightarrow> if checkedSeq q = seq probe then setChecked (prior probe) q else q)
        else if failed then done_failed now q else done_ok q)"

lemma rr_done_world:
  assumes "rr_done (Some p) failed neutral rr w = (rr', w')"
  shows "heap w' =
    (heap w)(p := done_peer failed neutral rr p (clock w (ticks w)) (heap w p))"
    and "time_passes w w'" and "draws w' = draws w"
  using assms
  by (auto simp: rr_done_def done_peer_def done_neutral_probe_def time_Now_def time_passes_def
      split: option.splits if_splits prod.splits)

lemma done_peer_sel:
  "settings (done_peer failed neutral rr p now q) = settings q"
  "conns (done_peer failed neutral rr p now q) = i64 (conns q - 1)"
  "currentWeight (done_peer failed neutral rr p now q) = currentWeight q"
  "Weight (done_peer failed neutral rr p now q) = Weight q"
  by (auto simp: done_peer_def settings_def [of "q\<lparr>fails := 0\<rparr>"] settings_def [of q]
      split: option.split)

lemma done_peer_versioned: "versioned q (done_peer failed neutral rr p now q)"
  by (auto simp: done_peer_def versioned_def split: option.split)

lemma done_peer_weight_ok:
  assumes "weight_ok q" and "Weight q < 2 ^ 63"
  shows "weight_ok (done_peer failed neutral rr p now q)"
  using assms done_failed_weight_ok [OF assms]
  by (auto simp: done_peer_def weight_ok_def split: option.split)

definition done_spec :: "peer_id \<Rightarrow> RRPicker \<Rightarrow> world \<Rightarrow> RRPicker \<Rightarrow> world \<Rightarrow> bool" where
  "done_spec p rr w rr' w' \<longleftrightarrow>
     rr_primary rr' = rr_primary rr \<and> rr_backup rr' = rr_backup rr \<and>
     backupPhase rr' = backupPhase rr \<and> tried rr' = tried rr \<and> time_passes w w' \<and>
     (\<forall>q. q \<noteq> p \<longrightarrow> heap w' q = heap w q) \<and>
     settings (heap w' p) = settings (heap w p) \<and>
     conns (heap w' p) = i64 (conns (heap w p) - 1) \<and>
     (\<forall>ps. balanced ps (heap w) \<longrightarrow> weights_fit ps (heap w) \<longrightarrow> balanced ps (heap w'))"

lemma weights_fit_Weight:
  assumes "balanced ps h" and "weights_fit ps h" and "p \<in> set ps"
  shows "Weight (h p) < 2 ^ 63"
proof -
  have "set ps \<noteq> {}" using assms(3) by auto
  then have "0 < card (set ps)" by (simp add: card_gt_0_iff)
  then have "1 \<le> int (card (set ps))" by linarith
  then have "1 * weight_sum ps h \<le> int (card (set ps)) * weight_sum ps h"
    by (rule mult_right_mono) (rule weight_sum_nonneg [OF assms(1)])
  with assms(2) weight_sum_pos [OF assms(3,1)] show ?thesis by (simp add: weights_fit_def)
qed

lemma rr_done_balanced:
  assumes d: "rr_done (Some p) failed neutral rr w = (rr', w')"
    and b: "balanced ps (heap w)" and f: "weights_fit ps (heap w)"
  shows "balanced ps (heap w')"
proof -
  let ?d = "done_peer failed neutral rr p (clock w (ticks w)) (heap w p)"
  note h = rr_done_world(1) [OF d]
  have cw: "(\<lambda>q. currentWeight (heap w' q)) = (\<lambda>q. currentWeight (heap w q))"
    by (auto simp: h done_peer_sel fun_eq_iff)
  have "weight_sum ps (heap w') = weight_sum ps (heap w)"
    unfolding weight_sum_def by (rule sum.cong) (auto simp: h done_peer_sel)
  moreover have "weight_ok (heap w' q)" if q: "q \<in> set ps" for q
  proof -
    have "weight_ok (heap w q)" using b q by (simp add: balanced_def)
    with weights_fit_Weight [OF b f q] show ?thesis by (auto simp: h done_peer_weight_ok)
  qed
  ultimately show ?thesis using b cw by (simp add: balanced_def)
qed

lemma rr_done_spec:
  assumes "rr_done (Some p) failed neutral rr w = (rr', w')"
  shows "done_spec p rr w rr' w'"
  using rr_done_picker [OF assms] rr_done_world [OF assms] rr_done_balanced [OF assms]
  by (simp add: done_spec_def done_peer_sel)

section \<open>Quarantine and recovery\<close>

text \<open>A failure that reaches the limit makes the peer unavailable for the fail timeout.\<close>

lemma rr_done_quarantine:
  assumes d: "rr_done (Some p) True False rr w = (rr', w')"
    and ns: "\<not> single (done_group rr (heap w p))"
    and m: "0 < MaxFails (heap w p)" "MaxFails (heap w p) \<le> fails (heap w p) + 1"
    and r: "fails (heap w p) + 1 < 2 ^ 63"
  shows "fails (heap w' p) = fails (heap w p) + 1"
    and "time_Sub now (clock w (ticks w)) \<le> FailTimeout (heap w p) \<Longrightarrow> failed_out now (heap w' p)"
proof -
  have h: "heap w' p = release_conn (done_failed (clock w (ticks w)) (heap w p))"
    using rr_done_world(1) [OF d] ns by (simp add: done_peer_def)
  have i: "i64 (fails (heap w p) + 1) = fails (heap w p) + 1"
    using m r by (intro i64_id) (simp add: in_i64_def)
  show "fails (heap w' p) = fails (heap w p) + 1" by (simp add: h i)
  have s: "MaxFails (release_conn q) = MaxFails q" "FailTimeout (release_conn q) = FailTimeout q" for q
    by (simp_all add: release_conn_def)
  show "failed_out now (heap w' p)"
    if "time_Sub now (clock w (ticks w)) \<le> FailTimeout (heap w p)"
    using that m i by (simp add: failed_out_def h s)
qed

text \<open>A successful recovery probe clears the failure counter.\<close>

lemma probe_success_clears:
  assumes c: "commitPeer p now rr w = (rr1, w1)"
    and probe: "FailTimeout (heap w p) < time_Sub now (checked (heap w p))"
    and acc: "accessed (heap w p) \<le> checked (heap w p)" and t: "0 \<le> FailTimeout (heap w p)"
    and d: "rr_done (Some p) False False rr1 w1 = (rr2, w2)"
  shows "fails (heap w2 p) = 0"
proof -
  have ch: "checked (heap w1 p) = now" "accessed (heap w1 p) = accessed (heap w p)"
    using c probe by (auto simp: commitPeer_def Let_def)
  have "checked (heap w p) < now" using probe t by (simp add: time_Sub_def)
  with acc ch have "accessed (heap w1 p) < checked (heap w1 p)" by simp
  then show ?thesis
    using rr_done_world(1) [OF d] by (auto simp: done_peer_def done_ok_def)
qed

text \<open>A neutral report undoes a selection: health and connections are as before.\<close>

definition health :: "Peer \<Rightarrow> int \<times> int \<times> time \<times> time" where
  "health q = (conns q, fails q, accessed q, checked q)"

lemma commit_neutral_health:
  assumes c: "commitPeer p now rr w = (rr1, w1)" and fresh: "probeChecked rr p = None"
    and ns: "\<not> single (done_group rr1 (heap w1 p))"
    and d: "rr_done (Some p) f True rr1 w1 = (rr2, w2)" and r: "in_i64 (conns (heap w p))"
  shows "health (heap w2 q) = health (heap w q)" and "settings (heap w2 q) = settings (heap w q)"
    and "probeChecked rr2 p = None"
proof -
  note h = rr_done_world(1) [OF d]
  have x: "i64 (i64 (conns (heap w p) + 1) - 1) = conns (heap w p)" using r by (simp add: i64_id)
  show "health (heap w2 q) = health (heap w q)"
    using c fresh ns x
    by (auto simp: h health_def done_peer_def commitPeer_def SetTried_def Let_def split: if_splits)
  show "settings (heap w2 q) = settings (heap w q)"
    using commitPeer_world(6) [OF c] by (auto simp: h done_peer_sel)
  show "probeChecked rr2 p = None"
    using c fresh ns d
    by (auto simp: rr_done_def done_neutral_probe_def commitPeer_def SetTried_def Let_def
        split: if_splits prod.splits option.splits)
qed

text \<open>
  A neutral report leaves the timestamp of a concurrent writer alone: it rolls \<open>checked\<close> back
  only if the version counter is still the one this picker wrote.
\<close>

lemma neutral_keeps_newer:
  assumes d: "rr_done (Some p) f True rr w = (rr', w')"
    and n: "\<forall>probe. probeChecked rr p = Some probe \<longrightarrow> seq probe \<noteq> checkedSeq (heap w p)"
  shows "checked (heap w' p) = checked (heap w p)" and "checkedSeq (heap w' p) = checkedSeq (heap w p)"
  using rr_done_world(1) [OF d] n by (auto simp: done_peer_def split: option.splits)

end
