(* ===== verification/Least_Conn.thy ===== *)
theory Least_Conn
  imports Pick_Contract
begin

text \<open>
  Least-connections selection (\<open>src/leastconn.go\<close>): a scan for the smallest number of active
  connections per unit of weight, and a smooth weighted round-robin pass among the ties.
\<close>

section \<open>The code\<close>

record LeastConn =
  lc_rr :: RoundRobin

definition NewLeastConn :: "peer_id option list \<Rightarrow> world \<Rightarrow> LeastConn \<times> world" where
  "NewLeastConn ps w = (case NewRoundRobin ps w of (rr, w1) \<Rightarrow> (\<lparr>lc_rr = rr\<rparr>, w1))"

text \<open>The picker embeds the round-robin picker and adds no field.\<close>

definition LeastConn_NewPicker :: "LeastConn \<Rightarrow> RRPicker" where
  "LeastConn_NewPicker lc = NewRRPicker (primary (lc_rr lc)) (backup (lc_rr lc))"

text \<open>The cross products that the scan compares: \<open>conns * weight\<close> of the other peer.\<close>

definition lc_load :: "Peer \<Rightarrow> Peer \<Rightarrow> int" where
  "lc_load p q = i64 (conns p * Weight q)"

fun lc_scan ::
  "RRPicker \<Rightarrow> time \<Rightarrow> world \<Rightarrow> peer_id list \<Rightarrow> peer_id option \<Rightarrow> bool \<Rightarrow> peer_id option \<times> bool" where
  "lc_scan rr now w [] best many = (best, many)"
| "lc_scan rr now w (p # ps) best many =
     (if tried rr p then lc_scan rr now w ps best many
      else if Down (heap w p) then lc_scan rr now w ps best many
      else if failed_out now (heap w p) then lc_scan rr now w ps best many
      else if conns_full (heap w p) then lc_scan rr now w ps best many
      else (case best of
              None \<Rightarrow> lc_scan rr now w ps (Some p) False
            | Some b \<Rightarrow>
                if lc_load (heap w p) (heap w b) < lc_load (heap w b) (heap w p)
                then lc_scan rr now w ps (Some p) False
                else if lc_load (heap w p) (heap w b) = lc_load (heap w b) (heap w p)
                then lc_scan rr now w ps best True
                else lc_scan rr now w ps best many))"

definition lc_tied :: "RRPicker \<Rightarrow> time \<Rightarrow> peer_id \<Rightarrow> peer_id \<Rightarrow> world \<Rightarrow> bool \<times> world" where
  "lc_tied rr now least p w =
     ((if tried rr p \<or> Down (heap w p) then False
       else if lc_load (heap w p) (heap w least) \<noteq> lc_load (heap w least) (heap w p) then False
       else if failed_out now (heap w p) then False
       else if conns_full (heap w p) then False
       else True), w)"

text \<open>
  Selection from a group. The second pass would dereference nil if it found no peer; that
  is the panic branch.
\<close>

definition leastConn_pickFromGroup :: group_pick where
  "leastConn_pickFromGroup grp rr w =
     (case time_Now w of
        (now, w1) \<Rightarrow>
          (case lc_scan rr now w1 (Peers grp) None False of
             (None, _) \<Rightarrow> Val (None, rr, w1)
           | (Some best, False) \<Rightarrow>
               (case commitPeer best now rr w1 of (rr', w2) \<Rightarrow> Val (Some best, rr', w2))
           | (Some least, True) \<Rightarrow>
               (case smoothWeightedPeer (Peers grp) (lc_tied rr now least) w1 of
                  (None, w2) \<Rightarrow> Panic
                | (Some best, w2) \<Rightarrow>
                    (case commitPeer best now rr w2 of (rr', w3) \<Rightarrow> Val (Some best, rr', w3)))))"

definition leastConnPicker_Pick :: "RRPicker \<Rightarrow> world \<Rightarrow> RRPicker pick_result" where
  "leastConnPicker_Pick = pickWithBackup leastConn_pickFromGroup"

definition leastConnPicker_Done :: "peer_id option \<Rightarrow> bool \<Rightarrow> RRPicker \<Rightarrow> world \<Rightarrow> RRPicker \<times> world" where
  "leastConnPicker_Done peer failed rr w = RRPicker_Done peer failed rr w"

section \<open>Least-conn meets the contract\<close>

interpretation lc_test: eligibility "lc_tied rr now least" for rr now least
proof (unfold_locales, goal_cases)
  case (5 h w p)
  then have u: "unweighted (h x) = unweighted (heap w x)" for x by simp
  show ?case
    by (simp add: lc_tied_def lc_load_def failed_out_cong [OF u] conns_full_cong [OF u]
        unweighted_eqD [OF u])
qed (simp_all add: lc_tied_def)

lemma lc_tied_iff:
  "lc_tied rr now least p w =
     (rr_ok rr now (heap w p) p \<and>
      lc_load (heap w p) (heap w least) = lc_load (heap w least) (heap w p), w)"
  by (auto simp: lc_tied_def rr_ok_def)

lemma accepted_lc:
  "accepted (lc_tied rr now least) ps w =
     filter (\<lambda>p. rr_ok rr now (heap w p) p \<and>
       lc_load (heap w p) (heap w least) = lc_load (heap w least) (heap w p)) ps"
  "after_tests (lc_tied rr now least) ps w = w"
  by (induction ps) (simp_all add: lc_tied_iff)

text \<open>The scan only looks at eligible peers.\<close>

lemma lc_scan_skip:
  "\<not> rr_ok rr now (heap w p) p \<Longrightarrow> lc_scan rr now w (p # ps) b m = lc_scan rr now w ps b m"
  by (auto simp: rr_ok_def)

lemma lc_scan_take:
  "rr_ok rr now (heap w p) p \<Longrightarrow>
   lc_scan rr now w (p # ps) b m =
     (case b of
        None \<Rightarrow> lc_scan rr now w ps (Some p) False
      | Some q \<Rightarrow>
          if lc_load (heap w p) (heap w q) < lc_load (heap w q) (heap w p)
          then lc_scan rr now w ps (Some p) False
          else if lc_load (heap w p) (heap w q) = lc_load (heap w q) (heap w p)
          then lc_scan rr now w ps b True
          else lc_scan rr now w ps b m)"
  by (simp add: rr_ok_def)

declare lc_scan.simps(2) [simp del]

lemma lc_scan_result:
  "lc_scan rr now w ps b m = (r, m') \<Longrightarrow>
     (r = None \<longrightarrow> b = None \<and> (\<forall>p \<in> set ps. \<not> rr_ok rr now (heap w p) p)) \<and>
     (\<forall>q. r = Some q \<longrightarrow> b = Some q \<or> q \<in> set ps \<and> rr_ok rr now (heap w q) q)"
proof (induction ps arbitrary: b m)
  case (Cons p ps)
  show ?case
  proof (cases "rr_ok rr now (heap w p) p")
    case True
    with Cons.prems Cons.IH show ?thesis
      by (auto simp: lc_scan_take split: option.splits if_splits)
  next
    case False
    with Cons.prems Cons.IH show ?thesis by (auto simp: lc_scan_skip)
  qed
qed simp

lemma lc_group_section:
  assumes d: "distinct (Peers grp)" and ns: "\<not> single grp"
  shows "\<exists>r rr' w'. leastConn_pickFromGroup grp rr w = Val (r, rr', w') \<and>
    section_spec (Peers grp) rr w r rr' w' \<and>
    (r = None \<longrightarrow> (\<forall>p \<in> set (Peers grp). unavailable rr w w' p))"
proof -
  obtain now w1 where n: "time_Now w = (now, w1)" by fastforce
  then have w1: "heap w1 = heap w" "clock w1 = clock w" "now = clock w (ticks w)"
    "ticks w1 = Suc (ticks w)" "draws w1 = draws w" by (auto simp: time_Now_def)
  obtain r m where sc: "lc_scan rr now w1 (Peers grp) None False = (r, m)" by fastforce
  note res = lc_scan_result [OF sc]
  show ?thesis
  proof (cases r)
    case None
    with res have "\<forall>p \<in> set (Peers grp). unavailable rr w w1 p"
      by (auto simp: rr_ok_def unavailable_def dead_between_def w1)
    with None sc n w1 show ?thesis
      by (auto simp: leastConn_pickFromGroup_def section_spec_def time_passes_def)
  next
    case (Some least)
    with res have l: "least \<in> set (Peers grp)" "rr_ok rr now (heap w least) least"
      by (auto simp: w1)
    let ?E = "filter (\<lambda>p. rr_ok rr now (heap w p) p \<and>
        lc_load (heap w p) (heap w least) = lc_load (heap w least) (heap w p)) (Peers grp)"
    let ?r = "swrr_round ?E (heap w)"
    define w2 where "w2 = (if m then w1\<lparr>heap := snd ?r\<rparr> else w1)"
    have "fst ?r \<noteq> None" using l by (auto simp: swrr_round_None_iff filter_empty_conv)
    then obtain b where b: "fst ?r = Some b" by auto
    define p where "p = (if m then b else least)"
    have sw: "smoothWeightedPeer (Peers grp) (lc_tied rr now least) w1 =
        (Some b, w1\<lparr>heap := snd ?r\<rparr>)"
      using b by (simp add: lc_test.smoothWeightedPeer_round [OF d] accepted_lc w1)
    have pe: "p \<in> set (Peers grp)" "rr_ok rr now (heap w p) p"
      using swrr_round_mem [OF b] l by (auto simp: p_def)
    obtain rr' w' where c: "commitPeer p now rr w2 = (rr', w')" by fastforce
    have "section_spec (Peers grp) rr w (Some p) rr' w'"
    proof (rule commit_section [OF _ _ c])
      show "weights_only (Peers grp) (heap w) (heap w2)"
        using d by (simp add: w2_def w1 round_weights_only)
      show "time_passes w w2" "alive_between w w2 p"
        using w1 pe(2) by (auto simp: w2_def time_passes_def alive_between_def rr_ok_def)
    qed (use pe in \<open>auto simp: rr_ok_def\<close>)
    with Some sc n sw c show ?thesis
      by (cases m) (auto simp: leastConn_pickFromGroup_def p_def w2_def)
  qed
qed

interpretation lc_group: group_picker leastConn_pickFromGroup
  by unfold_locales (rule lc_group_section)

interpretation lc_picker: picker leastConnPicker_Pick "\<lambda>rr. rr" "\<lambda>_ rr. rr" "\<lambda>_. True"
  by unfold_locales (simp_all add: leastConnPicker_Pick_def lc_group.pickWithBackup_spec)

section \<open>The choice is a peer of least load\<close>

text \<open>Load per unit of weight, compared without division.\<close>

definition load_le :: "Peer \<Rightarrow> Peer \<Rightarrow> bool" where
  "load_le p q \<longleftrightarrow> conns p * Weight q \<le> conns q * Weight p"

definition loads_fit :: "peer_id set \<Rightarrow> (peer_id \<Rightarrow> Peer) \<Rightarrow> bool" where
  "loads_fit S h \<longleftrightarrow>
     (\<forall>p \<in> S. 0 < Weight (h p)) \<and> (\<forall>p \<in> S. \<forall>q \<in> S. in_i64 (conns (h p) * Weight (h q)))"

lemma load_le_refl [simp]: "load_le p p"
  by (simp add: load_le_def)

lemma load_le_trans:
  assumes "load_le p q" "load_le q r" "0 < Weight p" "0 < Weight q" "0 < Weight r"
  shows "load_le p r"
proof -
  have "(conns p * Weight r) * Weight q = (conns p * Weight q) * Weight r" by simp
  also have "\<dots> \<le> (conns q * Weight p) * Weight r"
    using assms by (intro mult_right_mono) (auto simp: load_le_def)
  also have "\<dots> = (conns q * Weight r) * Weight p" by simp
  also have "\<dots> \<le> (conns r * Weight q) * Weight p"
    using assms by (intro mult_right_mono) (auto simp: load_le_def)
  finally have "(conns p * Weight r) * Weight q \<le> (conns r * Weight p) * Weight q"
    by (simp add: ac_simps)
  then show ?thesis using assms(4) by (simp add: load_le_def)
qed

lemma lc_load_exact:
  "loads_fit S h \<Longrightarrow> p \<in> S \<Longrightarrow> q \<in> S \<Longrightarrow> lc_load (h p) (h q) = conns (h p) * Weight (h q)"
  by (simp add: lc_load_def loads_fit_def i64_id)

lemma lc_scan_least:
  assumes "lc_scan rr now w ps b m = (Some q, m')" and "loads_fit S (heap w)"
    and "set ps \<subseteq> S" and "\<forall>x. b = Some x \<longrightarrow> x \<in> S"
  shows "q \<in> S \<and> (\<forall>x. b = Some x \<longrightarrow> load_le (heap w q) (heap w x)) \<and>
    (\<forall>x \<in> set ps. rr_ok rr now (heap w x) x \<longrightarrow> load_le (heap w q) (heap w x))"
  using assms(1,3,4)
proof (induction ps arbitrary: b m)
  case Nil
  then show ?case by simp
next
  case (Cons p ps)
  have pS: "p \<in> S" using Cons.prems(2) by simp
  show ?case
  proof (cases "rr_ok rr now (heap w p) p")
    case False
    with Cons show ?thesis by (auto simp: lc_scan_skip)
  next
    case ok: True
    show ?thesis
    proof (cases b)
      case None
      with Cons.prems ok pS Cons.IH [of "Some p" False] show ?thesis
        by (auto simp: lc_scan_take)
    next
      case (Some y)
      with Cons.prems have yS: "y \<in> S" by simp
      note ex = lc_load_exact [OF assms(2)]
      show ?thesis
      proof (cases "lc_load (heap w p) (heap w y) < lc_load (heap w y) (heap w p)")
        case True
        then have py: "load_le (heap w p) (heap w y)" using ex pS yS by (simp add: load_le_def)
        have IH: "q \<in> S" "load_le (heap w q) (heap w p)"
          "\<forall>x \<in> set ps. rr_ok rr now (heap w x) x \<longrightarrow> load_le (heap w q) (heap w x)"
          using Cons.prems ok Some True pS Cons.IH [of "Some p" False] by (auto simp: lc_scan_take)
        have "load_le (heap w q) (heap w y)"
          using load_le_trans [OF IH(2) py] IH(1) pS yS assms(2) by (simp add: loads_fit_def)
        with IH Some show ?thesis by simp
      next
        case False
        then have yp: "load_le (heap w y) (heap w p)" using ex pS yS by (simp add: load_le_def)
        obtain m1 where "lc_scan rr now w ps b m1 = (Some q, m')"
          using Cons.prems(1) ok Some False by (auto simp: lc_scan_take split: if_splits)
        then have IH: "q \<in> S" "load_le (heap w q) (heap w y)"
          "\<forall>x \<in> set ps. rr_ok rr now (heap w x) x \<longrightarrow> load_le (heap w q) (heap w x)"
          using Cons.prems Some yS Cons.IH [of b m1] by auto
        have "load_le (heap w q) (heap w p)"
          using load_le_trans [OF IH(2) yp] IH(1) pS yS assms(2) by (simp add: loads_fit_def)
        with IH Some show ?thesis by simp
      qed
    qed
  qed
qed

lemma lc_group_least:
  assumes d: "distinct (Peers grp)" and f: "loads_fit (set (Peers grp)) (heap w)"
    and pick: "leastConn_pickFromGroup grp rr w = Val (Some p, rr', w')"
    and q: "q \<in> set (Peers grp)" "rr_ok rr (clock w (ticks w)) (heap w q) q"
  shows "load_le (heap w p) (heap w q)"
proof -
  let ?now = "clock w (ticks w)" and ?w1 = "w\<lparr>ticks := Suc (ticks w)\<rparr>" and ?S = "set (Peers grp)"
  obtain r m where sc: "lc_scan rr ?now ?w1 (Peers grp) None False = (r, m)" by fastforce
  with pick obtain least where r: "r = Some least"
    by (cases r) (auto simp: leastConn_pickFromGroup_def time_Now_def)
  have l: "least \<in> ?S"
    "\<forall>x \<in> ?S. rr_ok rr ?now (heap w x) x \<longrightarrow> load_le (heap w least) (heap w x)"
    using lc_scan_least [OF sc [unfolded r], of ?S] f by auto
  show ?thesis
  proof (cases m)
    case False
    with pick sc r have "p = least"
      by (auto simp: leastConn_pickFromGroup_def time_Now_def split: prod.splits)
    with l(2) q show ?thesis by simp
  next
    case True
    have "p \<in> set (accepted (lc_tied rr ?now least) (Peers grp) ?w1)"
      using pick sc r True swrr_round_mem
      by (fastforce simp: leastConn_pickFromGroup_def time_Now_def lc_test.smoothWeightedPeer_round [OF d]
          split: prod.splits option.splits)
    then have p: "p \<in> ?S" "lc_load (heap w p) (heap w least) = lc_load (heap w least) (heap w p)"
      by (auto simp: accepted_lc)
    then have "load_le (heap w p) (heap w least)"
      using lc_load_exact [OF f] l(1) by (simp add: load_le_def)
    from load_le_trans [OF this] l q p(1) f show ?thesis by (simp add: loads_fit_def)
  qed
qed

end
