(* ===== verification/Hash_Candidates.thy ===== *)
theory Hash_Candidates
  imports Pick_Contract
begin

text \<open>
  What IP-hash and key-hash selection share: the walk along the weights of a group from a
  hash value to a peer, the conversion of the total weight to an unsigned 32-bit divisor, and
  the test of a candidate.
\<close>

section \<open>The code\<close>

text \<open>The walk along the weights: the first peer that makes the counter negative.\<close>

fun weight_slot :: "(peer_id \<Rightarrow> Peer) \<Rightarrow> peer_id list \<Rightarrow> int \<Rightarrow> peer_id option" where
  "weight_slot h [] x = None"
| "weight_slot h (p # ps) x =
     (let x' = i64 (x - Weight (h p)) in if x' < 0 then Some p else weight_slot h ps x')"

text \<open>The conversion \<open>uint32(group.TotalWeight)\<close> keeps the low 32 bits.\<close>

definition total_u32 :: "PeerGroup \<Rightarrow> u32" where
  "total_u32 g = word_of_int (TotalWeight g)"

text \<open>
  The test of a hash candidate, evaluated from left to right: \<open>peerAvailable\<close> reads the
  clock only when the first two tests pass.
\<close>

definition candidate_ok :: "RRPicker \<Rightarrow> peer_id \<Rightarrow> world \<Rightarrow> bool \<times> world" where
  "candidate_ok rr p w =
     (if Down (heap w p) then (False, w)
      else if tried rr p then (False, w)
      else peerAvailable p w)"

section \<open>Candidates and sections\<close>

lemma weight_slot_mem: "weight_slot h ps x = Some p \<Longrightarrow> p \<in> set ps"
  by (induction ps arbitrary: x) (auto simp: Let_def split: if_splits)

lemma section_before:
  assumes "time_passes w w1" and "heap w1 = heap w" and "section_spec ps rr w1 r rr' w'"
  shows "section_spec ps rr w r rr' w'"
  using assms
  by (cases r) (auto simp: section_spec_def intro: time_passes_trans alive_between_mono)

lemma section_after_now:
  "time_Now w = (now, w1) \<Longrightarrow> section_spec ps rr w1 r rr' w' \<Longrightarrow> section_spec ps rr w r rr' w'"
  by (rule section_before [of w w1]) (auto simp: time_Now_def time_passes_def)

lemma section_none [simp]: "section_spec ps rr w None rr w"
  by (simp add: section_spec_def)

lemma candidate_time:
  assumes "candidate_ok rr p w = (ok, w1)"
  shows "heap w1 = heap w" "time_passes w w1"
  using assms
  by (auto simp: candidate_ok_def peerAvailable_def time_Now_def time_passes_def split: if_splits)

lemma candidate_commit:
  assumes ok: "candidate_ok rr p w = (True, w1)" and p: "p \<in> set ps"
    and c: "commitPeer p now rr w1 = (rr', w2)"
  shows "section_spec ps rr w (Some p) rr' w2"
proof (rule commit_section [OF _ _ c p])
  show "weights_only ps (heap w) (heap w1)" "time_passes w w1"
    using candidate_time [OF ok] by simp_all
  show "alive_between w w1 p"
    using ok by (auto simp: candidate_ok_def peerAvailable_def time_Now_def alive_between_def
        split: if_splits)
qed (use ok in \<open>auto simp: candidate_ok_def peerAvailable_def time_Now_def split: if_splits\<close>)

section \<open>A section, then round-robin\<close>

text \<open>
  The four hash and random pickers have one shape: a section of their own over a group, and
  the embedded round-robin \<open>Pick\<close> when it finds nothing.
\<close>

definition section_or_rr ::
  "('pk \<Rightarrow> world \<Rightarrow> 'pk pick_result) \<Rightarrow> ('pk \<Rightarrow> RRPicker) \<Rightarrow> ('pk \<Rightarrow> RRPicker \<Rightarrow> 'pk)
   \<Rightarrow> 'pk \<Rightarrow> world \<Rightarrow> 'pk pick_result" where
  "section_or_rr sect rr_of with_rr pk w =
     (case sect pk w of
        Panic \<Rightarrow> Panic
      | Val (Some p, pk1, w1) \<Rightarrow> Val (Some p, pk1, w1)
      | Val (None, pk1, w1) \<Rightarrow>
          (case RRPicker_Pick (rr_of pk1) w1 of
             Panic \<Rightarrow> Panic
           | Val (r, rr', w2) \<Rightarrow> Val (r, with_rr pk1 rr', w2)))"

locale section_picker =
  fixes sect :: "'pk \<Rightarrow> world \<Rightarrow> 'pk pick_result"
    and rr_of :: "'pk \<Rightarrow> RRPicker"
    and with_rr :: "'pk \<Rightarrow> RRPicker \<Rightarrow> 'pk"
    and wf :: "'pk \<Rightarrow> bool"
  assumes sect_ok:
      "wf pk \<Longrightarrow> rr_wf (rr_of pk) \<Longrightarrow>
         \<exists>r pk' w' ps. sect pk w = Val (r, pk', w') \<and> wf pk' \<and>
           section_spec ps (rr_of pk) w r (rr_of pk') w' \<and>
           (ps = Peers (rr_primary (rr_of pk)) \<or>
            ps = backup_peers (rr_of pk) \<and> backupPhase (rr_of pk))"
    and sect_rr_of_with_rr: "rr_of (with_rr pk rr) = rr"
    and sect_wf_with_rr:
      "wf pk \<Longrightarrow> rr_primary rr = rr_primary (rr_of pk) \<Longrightarrow> rr_backup rr = rr_backup (rr_of pk) \<Longrightarrow>
         wf (with_rr pk rr)"
begin

lemma section_or_rr_ok:
  assumes wf: "wf pk" and rr: "rr_wf (rr_of pk)"
  shows "\<exists>r pk' w'. section_or_rr sect rr_of with_rr pk w = Val (r, pk', w') \<and> wf pk' \<and>
    pick_spec (rr_of pk) w r (rr_of pk') w'"
proof -
  from sect_ok [OF wf rr, of w] obtain r pk1 w1 ps where
    s: "sect pk w = Val (r, pk1, w1)" "wf pk1" "section_spec ps (rr_of pk) w r (rr_of pk1) w1"
    and ps: "ps = Peers (rr_primary (rr_of pk)) \<or> ps = backup_peers (rr_of pk) \<and> backupPhase (rr_of pk)"
    by blast
  show ?thesis
  proof (cases r)
    case (Some p)
    with section_pick [OF rr _ ps] s show ?thesis by (auto simp: section_or_rr_def)
  next
    case None
    with s(3) have n: "rr_of pk1 = rr_of pk" "heap w1 = heap w" "time_passes w w1"
      by (auto simp: section_spec_def)
    obtain r' rr' w' where p: "RRPicker_Pick (rr_of pk) w1 = Val (r', rr', w')"
      "pick_spec (rr_of pk) w1 r' rr' w'"
      using rr_picker.pick_ok [of "rr_of pk" w1] rr by auto
    have sp: "pick_spec (rr_of pk) w r' rr' w'" by (rule pick_spec_before [OF n(3,2) p(2)])
    then have "wf (with_rr pk1 rr')"
      using s(2) n(1) by (intro sect_wf_with_rr) (auto simp: pick_spec_def)
    with sp None s(1) n(1) p(1) show ?thesis
      by (simp add: section_or_rr_def sect_rr_of_with_rr)
  qed
qed

end

sublocale section_picker \<subseteq> fb: picker "section_or_rr sect rr_of with_rr" rr_of with_rr wf
  by unfold_locales (simp_all add: section_or_rr_ok sect_rr_of_with_rr sect_wf_with_rr)

text \<open>The divisor of a group that hashing may use is not zero.\<close>

definition divisor_ok :: "PeerGroup \<Rightarrow> bool" where
  "divisor_ok g \<longleftrightarrow> (2 \<le> length (Peers g) \<longrightarrow> total_u32 g \<noteq> 0)"

definition divisors_ok :: "RRPicker \<Rightarrow> bool" where
  "divisors_ok rr \<longleftrightarrow>
     divisor_ok (rr_primary rr) \<and> (\<forall>b. rr_backup rr = Some b \<longrightarrow> divisor_ok b)"

lemma divisors_ok_cong:
  "rr_primary rr' = rr_primary rr \<Longrightarrow> rr_backup rr' = rr_backup rr \<Longrightarrow> divisors_ok rr' = divisors_ok rr"
  by (simp add: divisors_ok_def)

lemma section_groups:
  "section_spec ps rr w r rr' w' \<Longrightarrow> rr_primary rr' = rr_primary rr \<and> rr_backup rr' = rr_backup rr"
  by (cases r) (auto simp: section_spec_def dest: commitPeer_picker)

end
