(* ===== verification/Ip_Hash.thy ===== *)
theory Ip_Hash
  imports Hash_Candidates
begin

text \<open>
  IP-hash selection (\<open>src/iphash.go\<close>): a rolling hash over the first three bytes of an IPv4
  address or all bytes of an IPv6 address picks a weighted slot; rejected candidates are
  rehashed at most twenty times before selection falls back to round-robin.
\<close>

section \<open>The code\<close>

definition maxIPHashTries :: int where
  "maxIPHashTries = 20"

record IPHash =
  ip_rr :: RoundRobin

definition NewIPHash :: "peer_id option list \<Rightarrow> world \<Rightarrow> IPHash \<times> world" where
  "NewIPHash ps w = (case NewRoundRobin ps w of (rr, w1) \<Rightarrow> (\<lparr>ip_rr = rr\<rparr>, w1))"

record ipHashPicker =
  iph_rr :: RRPicker
  clientIP_of :: "byte list"
  iph_hash :: u32
  iph_tries :: int

definition IPHash_NewPicker :: "IPHash \<Rightarrow> ipHashPicker" where
  "IPHash_NewPicker h =
     \<lparr>iph_rr = NewRRPicker (primary (ip_rr h)) (backup (ip_rr h)), clientIP_of = [],
      iph_hash = 89, iph_tries = 0\<rparr>"

definition NewPickerForIP :: "byte list \<Rightarrow> IPHash \<Rightarrow> ipHashPicker" where
  "NewPickerForIP ip h =
     \<lparr>iph_rr = NewRRPicker (primary (ip_rr h)) (backup (ip_rr h)), clientIP_of = ip,
      iph_hash = 89, iph_tries = 0\<rparr>"

text \<open>
  \<open>net.IP\<close> is a byte slice; \<open>To4\<close> and \<open>To16\<close> convert between the 4-byte form, the
  16-byte form and the IPv4-in-IPv6 form with its fixed 12-byte prefix, and return nil
  for any other length.
\<close>

definition v4InV6Prefix :: "byte list" where
  "v4InV6Prefix = replicate 10 0 @ [255, 255]"

definition To4 :: "byte list \<Rightarrow> byte list option" where
  "To4 ip =
     (if length ip = 4 then Some ip
      else if length ip = 16 \<and> take 12 ip = v4InV6Prefix then Some (drop 12 ip)
      else None)"

definition To16 :: "byte list \<Rightarrow> byte list option" where
  "To16 ip =
     (if length ip = 4 then Some (v4InV6Prefix @ ip)
      else if length ip = 16 then Some ip
      else None)"

definition hash_addr :: "byte list \<Rightarrow> byte list option" where
  "hash_addr ip = (case To4 ip of Some a \<Rightarrow> Some a | None \<Rightarrow> To16 ip)"

definition addrLen :: "byte list \<Rightarrow> nat" where
  "addrLen addr = (if 4 < length addr then length addr else 3)"

fun fold_addr :: "byte list \<Rightarrow> u32 \<Rightarrow> u32" where
  "fold_addr [] h = h"
| "fold_addr (b # bs) h = fold_addr bs ((h * 113 + ucast b) mod 6271)"

text \<open>
  The candidate loop. A zero divisor panics. \<open>None\<close> in the value means that the loop ended
  without a choice.
\<close>

function ipHash_loop ::
  "byte list \<Rightarrow> PeerGroup \<Rightarrow> time \<Rightarrow> u32 \<Rightarrow> ipHashPicker \<Rightarrow> world \<Rightarrow> ipHashPicker pick_result" where
  "ipHash_loop addr grp now hash pk w =
     (if maxIPHashTries < iph_tries pk then Val (None, pk, w)
      else let hash1 = fold_addr (take (addrLen addr) addr) hash
           in if total_u32 grp = 0 then Panic
              else case weight_slot (heap w) (Peers grp) (uint (hash1 mod total_u32 grp)) of
                     None \<Rightarrow> Val (None, pk, w)
                   | Some p \<Rightarrow>
                       (case candidate_ok (iph_rr pk) p w of
                          (True, w1) \<Rightarrow>
                            (case commitPeer p now (iph_rr pk) w1 of
                               (rr', w2) \<Rightarrow>
                                 Val (Some p, pk\<lparr>iph_rr := rr', iph_hash := hash1\<rparr>, w2))
                        | (False, w1) \<Rightarrow>
                            ipHash_loop addr grp now hash1
                              (pk\<lparr>iph_tries := i64 (iph_tries pk + 1)\<rparr>) w1))"
  by pat_completeness auto
termination
  by (relation "measure (\<lambda>(addr, grp, now, hash, pk, w). nat (21 - iph_tries pk))")
    (auto simp: maxIPHashTries_def i64_retry_grows not_less)

declare ipHash_loop.simps [simp del]

definition ipHash_fallback :: "ipHashPicker \<Rightarrow> world \<Rightarrow> ipHashPicker pick_result" where
  "ipHash_fallback pk w =
     (case RRPicker_Pick (iph_rr pk) w of
        Panic \<Rightarrow> Panic
      | Val (r, rr', w1) \<Rightarrow> Val (r, pk\<lparr>iph_rr := rr'\<rparr>, w1))"

definition ipHash_group :: "RRPicker \<Rightarrow> PeerGroup" where
  "ipHash_group rr =
     (if backupPhase rr then (case rr_backup rr of Some b \<Rightarrow> b | None \<Rightarrow> rr_primary rr)
      else rr_primary rr)"

definition ipHashPicker_Pick :: "ipHashPicker \<Rightarrow> world \<Rightarrow> ipHashPicker pick_result" where
  "ipHashPicker_Pick pk w =
     (let grp = ipHash_group (iph_rr pk)
      in if length (Peers grp) < 2 then ipHash_fallback pk w
         else if clientIP_of pk = [] then ipHash_fallback pk w
         else case hash_addr (clientIP_of pk) of
                None \<Rightarrow> ipHash_fallback pk w
              | Some addr \<Rightarrow>
                  (case time_Now w of
                     (now, w1) \<Rightarrow>
                       (case ipHash_loop addr grp now (iph_hash pk) pk w1 of
                          Panic \<Rightarrow> Panic
                        | Val (Some p, pk', w2) \<Rightarrow> Val (Some p, pk', w2)
                        | Val (None, pk', w2) \<Rightarrow> ipHash_fallback pk' w2)))"

definition ipHashPicker_Done ::
  "peer_id option \<Rightarrow> bool \<Rightarrow> ipHashPicker \<Rightarrow> world \<Rightarrow> ipHashPicker \<times> world" where
  "ipHashPicker_Done peer failed pk w =
     (case RRPicker_Done peer failed (iph_rr pk) w of (rr, w') \<Rightarrow> (pk\<lparr>iph_rr := rr\<rparr>, w'))"

section \<open>IP-hash meets the contract\<close>

lemma ipHash_loop_section:
  "total_u32 grp \<noteq> 0 \<Longrightarrow>
   \<exists>r pk' w'. ipHash_loop addr grp now hash pk w = Val (r, pk', w') \<and>
     section_spec (Peers grp) (iph_rr pk) w r (iph_rr pk') w'"
proof (induction addr grp now hash pk w rule: ipHash_loop.induct)
  case (1 addr grp now hash pk w)
  note unfold = ipHash_loop.simps [of addr grp now hash pk w]
  let ?hash = "fold_addr (take (addrLen addr) addr) hash"
  let ?slot = "weight_slot (heap w) (Peers grp) (uint (?hash mod total_u32 grp))"
  show ?case
  proof (cases "maxIPHashTries < iph_tries pk \<or> ?slot = None")
    case True
    with "1.prems" show ?thesis by (auto simp: unfold Let_def section_spec_def)
  next
    case False
    then obtain p where p: "?slot = Some p" by auto
    obtain ok w1 where c: "candidate_ok (iph_rr pk) p w = (ok, w1)" by fastforce
    show ?thesis
    proof (cases ok)
      case True
      obtain rr' w2 where cm: "commitPeer p now (iph_rr pk) w1 = (rr', w2)" by fastforce
      have "candidate_ok (iph_rr pk) p w = (True, w1)" using c True by simp
      from candidate_commit [OF this weight_slot_mem [OF p] cm]
      show ?thesis using False "1.prems" p c True cm by (simp add: unfold)
    next
      case no: False
      let ?pk = "pk\<lparr>iph_tries := i64 (iph_tries pk + 1)\<rparr>"
      obtain r pk' w' where r: "ipHash_loop addr grp now ?hash ?pk w1 = Val (r, pk', w')"
        "section_spec (Peers grp) (iph_rr ?pk) w1 r (iph_rr pk') w'"
        using "1.IH" [OF _ refl "1.prems" p c [symmetric]] False no "1.prems" by auto
      from section_before [OF candidate_time(2,1) [OF c], of _ "iph_rr pk"] r
      show ?thesis using False "1.prems" p c no by (simp add: unfold)
    qed
  qed
qed

definition iph_wf :: "ipHashPicker \<Rightarrow> bool" where
  "iph_wf pk \<longleftrightarrow> divisors_ok (iph_rr pk)"

text \<open>The part of \<open>Pick\<close> before the fallback.\<close>

definition ipHash_section :: "ipHashPicker \<Rightarrow> world \<Rightarrow> ipHashPicker pick_result" where
  "ipHash_section pk w =
     (if length (Peers (ipHash_group (iph_rr pk))) < 2 \<or> clientIP_of pk = [] \<or>
         hash_addr (clientIP_of pk) = None
      then Val (None, pk, w)
      else (case time_Now w of
              (now, w1) \<Rightarrow>
                ipHash_loop (the (hash_addr (clientIP_of pk))) (ipHash_group (iph_rr pk)) now
                  (iph_hash pk) pk w1))"

lemma ipHashPicker_Pick_split:
  "ipHashPicker_Pick = section_or_rr ipHash_section iph_rr (\<lambda>pk rr. pk\<lparr>iph_rr := rr\<rparr>)"
  by (auto simp: fun_eq_iff ipHashPicker_Pick_def section_or_rr_def ipHash_section_def
      ipHash_fallback_def Let_def split: outcome.splits option.splits prod.splits)

interpretation iph_section:
  section_picker ipHash_section iph_rr "\<lambda>pk rr. pk\<lparr>iph_rr := rr\<rparr>" iph_wf
proof (unfold_locales, goal_cases)
  case (1 pk w)
  let ?g = "ipHash_group (iph_rr pk)"
  have grp: "Peers ?g = Peers (rr_primary (iph_rr pk)) \<or>
      Peers ?g = backup_peers (iph_rr pk) \<and> backupPhase (iph_rr pk)"
    by (auto simp: ipHash_group_def backup_peers_def split: option.splits)
  have ex: "\<exists>r pk' w'. ipHash_section pk w = Val (r, pk', w') \<and>
      section_spec (Peers ?g) (iph_rr pk) w r (iph_rr pk') w'"
  proof (cases "length (Peers ?g) < 2 \<or> clientIP_of pk = [] \<or> hash_addr (clientIP_of pk) = None")
    case True
    then show ?thesis by (auto simp: ipHash_section_def section_spec_def)
  next
    case False
    obtain now w1 where n: "time_Now w = (now, w1)" by fastforce
    have "total_u32 ?g \<noteq> 0"
      using 1(1) False by (auto simp: iph_wf_def divisors_ok_def divisor_ok_def ipHash_group_def
          split: if_splits option.splits)
    from ipHash_loop_section [OF this, of "the (hash_addr (clientIP_of pk))" now "iph_hash pk" pk w1]
    obtain r pk' w' where l: "ipHash_loop (the (hash_addr (clientIP_of pk))) ?g now (iph_hash pk) pk w1
        = Val (r, pk', w')" and "section_spec (Peers ?g) (iph_rr pk) w1 r (iph_rr pk') w'"
      by blast
    from section_after_now [OF n this(2)] l n False show ?thesis
      by (auto simp: ipHash_section_def)
  qed
  have "iph_wf pk'" if "section_spec (Peers ?g) (iph_rr pk) w r (iph_rr pk') w'" for r pk' w'
    using section_groups [OF that] 1(1) by (simp add: iph_wf_def divisors_ok_def)
  with ex grp show ?case by blast
qed (simp_all add: iph_wf_def divisors_ok_def)

interpretation iph_picker: picker ipHashPicker_Pick iph_rr "\<lambda>pk rr. pk\<lparr>iph_rr := rr\<rparr>" iph_wf
  unfolding ipHashPicker_Pick_split by (rule iph_section.fb.picker_axioms)

end
