(* ===== verification/Crc32.thy ===== *)
theory Crc32
  imports Cslb_Prelude
begin

unbundle bit_operations_syntax

text \<open>
  The parts of the standard library that the two hash balancers call on byte strings:
  \<open>crc32.ChecksumIEEE\<close> (the reflected polynomial \<open>0xEDB88320\<close>, bit by bit),
  \<open>strconv.Itoa\<close> and the little-endian encoding of a 32-bit value.
\<close>

definition bytes_of :: "string \<Rightarrow> byte list" where
  "bytes_of s = map of_char s"

definition crc_bit :: "u32 \<Rightarrow> u32" where
  "crc_bit c = (if bit c 0 then drop_bit 1 c XOR 0xEDB88320 else drop_bit 1 c)"

definition crc_byte :: "byte \<Rightarrow> u32 \<Rightarrow> u32" where
  "crc_byte b c = (crc_bit ^^ 8) (c XOR ucast b)"

definition ChecksumIEEE :: "byte list \<Rightarrow> u32" where
  "ChecksumIEEE bs = NOT (fold crc_byte bs (NOT 0))"

fun nat_digits :: "nat \<Rightarrow> string" where
  "nat_digits n =
     (if n < 10 then [char_of (48 + n)] else nat_digits (n div 10) @ [char_of (48 + n mod 10)])"

declare nat_digits.simps [simp del]

definition strconv_Itoa :: "int \<Rightarrow> string" where
  "strconv_Itoa i = (if i < 0 then ''-'' @ nat_digits (nat (- i)) else nat_digits (nat i))"

definition PutUint32_LE :: "u32 \<Rightarrow> byte list" where
  "PutUint32_LE v = [ucast v, ucast (drop_bit 8 v), ucast (drop_bit 16 v), ucast (drop_bit 24 v)]"

end
