(* ===== verification/Key_Hash.thy ===== *)
theory Key_Hash
  imports Hash_Candidates Crc32
begin

unbundle bit_operations_syntax

text \<open>
  Key-hash selection (\<open>src/hash.go\<close>): the CRC-32 of the key, and of the key with a decimal
  retry prefix, is accumulated and picks a weighted slot of the primary group.
\<close>

section \<open>The code\<close>

definition maxHashTries :: int where
  "maxHashTries = 20"

record Hash =
  h_rr :: RoundRobin

definition NewHash :: "peer_id option list \<Rightarrow> world \<Rightarrow> Hash \<times> world" where
  "NewHash ps w = (case NewRoundRobin ps w of (rr, w1) \<Rightarrow> (\<lparr>h_rr = rr\<rparr>, w1))"

record hashPicker =
  hp_rr :: RRPicker
  hp_key :: string
  hashTries :: int
  rehash :: int
  hp_hash :: u32

definition Hash_NewPickerForKey :: "string \<Rightarrow> Hash \<Rightarrow> hashPicker" where
  "Hash_NewPickerForKey key h =
     \<lparr>hp_rr = NewRRPicker (primary (h_rr h)) (backup (h_rr h)), hp_key = key,
      hashTries = 0, rehash = 0, hp_hash = 0\<rparr>"

definition Hash_NewPicker :: "Hash \<Rightarrow> hashPicker" where
  "Hash_NewPicker h = Hash_NewPickerForKey '''' h"

text \<open>One rehash: \<open>((crc32([REHASH] KEY) >> 16) & 0x7fff) + PREV_HASH\<close>.\<close>

definition hash_input :: "hashPicker \<Rightarrow> string" where
  "hash_input pk = (if 0 < rehash pk then strconv_Itoa (rehash pk) @ hp_key pk else hp_key pk)"

definition hash_step :: "hashPicker \<Rightarrow> hashPicker" where
  "hash_step pk =
     (let hash = ChecksumIEEE (bytes_of (hash_input pk))
      in pk\<lparr>hp_hash := hp_hash pk + (drop_bit 16 hash AND 0x7fff), rehash := i64 (rehash pk + 1)\<rparr>)"

function hash_loop :: "PeerGroup \<Rightarrow> time \<Rightarrow> hashPicker \<Rightarrow> world \<Rightarrow> hashPicker pick_result" where
  "hash_loop grp now pk w =
     (if maxHashTries < hashTries pk then Val (None, pk, w)
      else let pk1 = hash_step pk
           in if total_u32 grp = 0 then Panic
              else case weight_slot (heap w) (Peers grp) (uint (hp_hash pk1 mod total_u32 grp)) of
                     None \<Rightarrow> Val (None, pk1, w)
                   | Some p \<Rightarrow>
                       (case candidate_ok (hp_rr pk1) p w of
                          (True, w1) \<Rightarrow>
                            (case commitPeer p now (hp_rr pk1) w1 of
                               (rr', w2) \<Rightarrow> Val (Some p, pk1\<lparr>hp_rr := rr'\<rparr>, w2))
                        | (False, w1) \<Rightarrow>
                            hash_loop grp now (pk1\<lparr>hashTries := i64 (hashTries pk1 + 1)\<rparr>) w1))"
  by pat_completeness auto
termination
  by (relation "measure (\<lambda>(grp, now, pk, w). nat (21 - hashTries pk))")
    (auto simp: maxHashTries_def hash_step_def Let_def i64_retry_grows not_less)

declare hash_loop.simps [simp del]

definition hash_fallback :: "hashPicker \<Rightarrow> world \<Rightarrow> hashPicker pick_result" where
  "hash_fallback pk w =
     (case RRPicker_Pick (hp_rr pk) w of
        Panic \<Rightarrow> Panic
      | Val (r, rr', w1) \<Rightarrow> Val (r, pk\<lparr>hp_rr := rr'\<rparr>, w1))"

definition hashPicker_Pick :: "hashPicker \<Rightarrow> world \<Rightarrow> hashPicker pick_result" where
  "hashPicker_Pick pk w =
     (let grp = rr_primary (hp_rr pk)
      in if hp_key pk = '''' \<or> length (Peers grp) < 2 then hash_fallback pk w
         else (case time_Now w of
                 (now, w1) \<Rightarrow>
                   (case hash_loop grp now pk w1 of
                      Panic \<Rightarrow> Panic
                    | Val (Some p, pk', w2) \<Rightarrow> Val (Some p, pk', w2)
                    | Val (None, pk', w2) \<Rightarrow> hash_fallback pk' w2)))"

definition hashPicker_Done ::
  "peer_id option \<Rightarrow> bool \<Rightarrow> hashPicker \<Rightarrow> world \<Rightarrow> hashPicker \<times> world" where
  "hashPicker_Done peer failed pk w =
     (case RRPicker_Done peer failed (hp_rr pk) w of (rr, w') \<Rightarrow> (pk\<lparr>hp_rr := rr\<rparr>, w'))"

section \<open>Key-hash meets the contract\<close>

lemma hash_step_rr [simp]:
  "hp_rr (hash_step pk) = hp_rr pk" "hashTries (hash_step pk) = hashTries pk"
  "hp_key (hash_step pk) = hp_key pk"
  by (simp_all add: hash_step_def Let_def)

lemma hash_loop_section:
  "total_u32 grp \<noteq> 0 \<Longrightarrow>
   \<exists>r pk' w'. hash_loop grp now pk w = Val (r, pk', w') \<and>
     section_spec (Peers grp) (hp_rr pk) w r (hp_rr pk') w'"
proof (induction grp now pk w rule: hash_loop.induct)
  case (1 grp now pk w)
  note unfold = hash_loop.simps [of grp now pk w]
  let ?pk = "hash_step pk"
  let ?slot = "weight_slot (heap w) (Peers grp) (uint (hp_hash ?pk mod total_u32 grp))"
  show ?case
  proof (cases "maxHashTries < hashTries pk \<or> ?slot = None")
    case True
    with "1.prems" show ?thesis by (auto simp: unfold Let_def)
  next
    case False
    then obtain p where p: "?slot = Some p" by auto
    obtain ok w1 where c: "candidate_ok (hp_rr ?pk) p w = (ok, w1)" by fastforce
    show ?thesis
    proof (cases ok)
      case True
      obtain rr' w2 where cm: "commitPeer p now (hp_rr pk) w1 = (rr', w2)" by fastforce
      have "candidate_ok (hp_rr pk) p w = (True, w1)" using c True by simp
      from candidate_commit [OF this weight_slot_mem [OF p] cm]
      show ?thesis using False "1.prems" p c True cm by (simp add: unfold)
    next
      case no: False
      let ?pk1 = "?pk\<lparr>hashTries := i64 (hashTries ?pk + 1)\<rparr>"
      obtain r pk' w' where r: "hash_loop grp now ?pk1 w1 = Val (r, pk', w')"
        "section_spec (Peers grp) (hp_rr ?pk1) w1 r (hp_rr pk') w'"
        using "1.IH" [OF _ refl "1.prems" p c [symmetric]] False no "1.prems" by auto
      from section_before [OF candidate_time(2,1) [OF c], of _ "hp_rr pk"] r
      show ?thesis using False "1.prems" p c no by (simp add: unfold)
    qed
  qed
qed

definition hp_wf :: "hashPicker \<Rightarrow> bool" where
  "hp_wf pk \<longleftrightarrow> divisors_ok (hp_rr pk)"

definition hash_section :: "hashPicker \<Rightarrow> world \<Rightarrow> hashPicker pick_result" where
  "hash_section pk w =
     (if hp_key pk = '''' \<or> length (Peers (rr_primary (hp_rr pk))) < 2 then Val (None, pk, w)
      else (case time_Now w of (now, w1) \<Rightarrow> hash_loop (rr_primary (hp_rr pk)) now pk w1))"

lemma hashPicker_Pick_split:
  "hashPicker_Pick = section_or_rr hash_section hp_rr (\<lambda>pk rr. pk\<lparr>hp_rr := rr\<rparr>)"
  by (auto simp: fun_eq_iff hashPicker_Pick_def section_or_rr_def hash_section_def
      hash_fallback_def Let_def split: outcome.splits option.splits prod.splits)

interpretation hp_section: section_picker hash_section hp_rr "\<lambda>pk rr. pk\<lparr>hp_rr := rr\<rparr>" hp_wf
proof (unfold_locales, goal_cases)
  case (1 pk w)
  let ?g = "rr_primary (hp_rr pk)"
  have ex: "\<exists>r pk' w'. hash_section pk w = Val (r, pk', w') \<and>
      section_spec (Peers ?g) (hp_rr pk) w r (hp_rr pk') w'"
  proof (cases "hp_key pk = '''' \<or> length (Peers ?g) < 2")
    case True
    then show ?thesis by (auto simp: hash_section_def)
  next
    case False
    obtain now w1 where n: "time_Now w = (now, w1)" by fastforce
    have "total_u32 ?g \<noteq> 0"
      using 1(1) False by (auto simp: hp_wf_def divisors_ok_def divisor_ok_def)
    from hash_loop_section [OF this, of now pk w1] obtain r pk' w' where
      l: "hash_loop ?g now pk w1 = Val (r, pk', w')"
      and "section_spec (Peers ?g) (hp_rr pk) w1 r (hp_rr pk') w'" by blast
    from section_after_now [OF n this(2)] l n False show ?thesis by (auto simp: hash_section_def)
  qed
  have "hp_wf pk'" if "section_spec (Peers ?g) (hp_rr pk) w r (hp_rr pk') w'" for r pk' w'
    using section_groups [OF that] 1(1) by (simp add: hp_wf_def divisors_ok_def)
  with ex show ?case by blast
qed (simp_all add: hp_wf_def divisors_ok_def)

interpretation hp_picker: picker hashPicker_Pick hp_rr "\<lambda>pk rr. pk\<lparr>hp_rr := rr\<rparr>" hp_wf
  unfolding hashPicker_Pick_split by (rule hp_section.fb.picker_axioms)

end
