(* ===== verification/Random_Pick.thy ===== *)
theory Random_Pick
  imports Hash_Candidates
begin

text \<open>
  Random selection (\<open>src/random.go\<close>): a weighted random draw by binary search over the
  cumulative weights, and the power-of-two-choices variant.
\<close>

section \<open>The code\<close>

definition maxRandomTries :: int where
  "maxRandomTries = 20"

record weightRange =
  wr_peer :: peer_id
  upper :: int

text \<open>
  The field \<open>intn\<close> holds the random source (\<open>rand.Intn\<close>): \<open>intn k n\<close> is what its \<open>k\<close>-th
  call returns for the bound \<open>n\<close>.
\<close>

record Random =
  rd_rr :: RoundRobin
  two :: bool
  ranges :: "weightRange list"
  intn :: "nat \<Rightarrow> int \<Rightarrow> int"

fun build_ranges :: "(peer_id \<Rightarrow> Peer) \<Rightarrow> peer_id list \<Rightarrow> int \<Rightarrow> weightRange list" where
  "build_ranges h [] cumulative = []"
| "build_ranges h (p # ps) cumulative =
     (let c = i64 (cumulative + Weight (h p))
      in \<lparr>wr_peer = p, upper = c\<rparr> # build_ranges h ps c)"

definition newRandom ::
  "(nat \<Rightarrow> int \<Rightarrow> int) \<Rightarrow> peer_id option list \<Rightarrow> bool \<Rightarrow> world \<Rightarrow> Random \<times> world" where
  "newRandom rand_Intn ps is_two w =
     (case NewRoundRobin ps w of
        (rr, w1) \<Rightarrow>
          (\<lparr>rd_rr = rr, two = is_two, ranges = build_ranges (heap w1) (Peers (primary rr)) 0,
            intn = rand_Intn\<rparr>, w1))"

definition NewRandom :: "(nat \<Rightarrow> int \<Rightarrow> int) \<Rightarrow> peer_id option list \<Rightarrow> world \<Rightarrow> Random \<times> world" where
  "NewRandom rand_Intn ps w = newRandom rand_Intn ps False w"

definition NewRandomTwo :: "(nat \<Rightarrow> int \<Rightarrow> int) \<Rightarrow> peer_id option list \<Rightarrow> world \<Rightarrow> Random \<times> world" where
  "NewRandomTwo rand_Intn ps w = newRandom rand_Intn ps True w"

record randomPicker =
  rp_rr :: RRPicker
  rp_balancer :: Random
  rp_tries :: int

definition Random_NewPicker :: "Random \<Rightarrow> randomPicker" where
  "Random_NewPicker r =
     \<lparr>rp_rr = NewRRPicker (primary (rd_rr r)) (backup (rd_rr r)), rp_balancer = r, rp_tries = 0\<rparr>"

text \<open>The binary search of \<open>randomSelect\<close> over the upper bounds.\<close>

function range_search :: "weightRange list \<Rightarrow> int \<Rightarrow> nat \<Rightarrow> nat \<Rightarrow> nat" where
  "range_search rs x lo hi =
     (if lo < hi
      then let mid = (lo + hi) div 2
           in if upper (rs ! mid) \<le> x then range_search rs x (mid + 1) hi
              else range_search rs x lo mid
      else lo)"
  by pat_completeness auto
termination
  by (relation "measure (\<lambda>(rs, x, lo, hi). hi - lo)") auto

declare range_search.simps [simp del]

definition randomSelect ::
  "PeerGroup \<Rightarrow> randomPicker \<Rightarrow> world \<Rightarrow> (peer_id option \<times> world) outcome" where
  "randomSelect grp pk w =
     (if TotalWeight grp \<le> 0 then Val (None, w)
      else let x = intn (rp_balancer pk) (draws w) (TotalWeight grp);
               w1 = w\<lparr>draws := Suc (draws w)\<rparr>;
               rs = ranges (rp_balancer pk)
           in if rs = [] then Panic
              else Val (Some (wr_peer (rs ! range_search rs x 0 (length rs - 1))), w1))"

definition random_fallback :: "randomPicker \<Rightarrow> world \<Rightarrow> randomPicker pick_result" where
  "random_fallback pk w =
     (case RRPicker_Pick (rp_rr pk) w of
        Panic \<Rightarrow> Panic
      | Val (r, rr', w1) \<Rightarrow> Val (r, pk\<lparr>rp_rr := rr'\<rparr>, w1))"

function pickOne_loop :: "PeerGroup \<Rightarrow> time \<Rightarrow> randomPicker \<Rightarrow> world \<Rightarrow> randomPicker pick_result" where
  "pickOne_loop grp now pk w =
     (if maxRandomTries < rp_tries pk then Val (None, pk, w)
      else case randomSelect grp pk w of
             Panic \<Rightarrow> Panic
           | Val (None, w1) \<Rightarrow> Val (None, pk, w1)
           | Val (Some p, w1) \<Rightarrow>
               (case candidate_ok (rp_rr pk) p w1 of
                  (True, w2) \<Rightarrow>
                    (case commitPeer p now (rp_rr pk) w2 of
                       (rr', w3) \<Rightarrow> Val (Some p, pk\<lparr>rp_rr := rr'\<rparr>, w3))
                | (False, w2) \<Rightarrow>
                    pickOne_loop grp now (pk\<lparr>rp_tries := i64 (rp_tries pk + 1)\<rparr>) w2))"
  by pat_completeness auto
termination
  by (relation "measure (\<lambda>(grp, now, pk, w). nat (21 - rp_tries pk))")
    (auto simp: maxRandomTries_def i64_retry_grows not_less)

declare pickOne_loop.simps [simp del]

definition pickOne :: "randomPicker \<Rightarrow> world \<Rightarrow> randomPicker pick_result" where
  "pickOne pk w =
     (let grp = rr_primary (rp_rr pk)
      in if length (Peers grp) < 2 then random_fallback pk w
         else (case time_Now w of
                 (now, w1) \<Rightarrow>
                   (case pickOne_loop grp now pk w1 of
                      Panic \<Rightarrow> Panic
                    | Val (Some p, pk', w2) \<Rightarrow> Val (Some p, pk', w2)
                    | Val (None, pk', w2) \<Rightarrow> random_fallback pk' w2)))"

text \<open>The rejection test of \<open>pickTwo\<close>, from left to right.\<close>

definition two_rejected :: "peer_id option \<Rightarrow> RRPicker \<Rightarrow> peer_id \<Rightarrow> world \<Rightarrow> bool \<times> world" where
  "two_rejected previous rr p w =
     (if Some p = previous then (True, w)
      else if tried rr p then (True, w)
      else if Down (heap w p) then (True, w)
      else (case peerAvailable p w of (ok, w1) \<Rightarrow> (\<not> ok, w1)))"

definition two_select :: "world \<Rightarrow> peer_id \<Rightarrow> peer_id \<Rightarrow> peer_id" where
  "two_select w p previous =
     (if i64 (conns (heap w previous) * Weight (heap w p))
           < i64 (conns (heap w p) * Weight (heap w previous))
      then previous else p)"

function pickTwo_loop ::
  "PeerGroup \<Rightarrow> time \<Rightarrow> peer_id option \<Rightarrow> randomPicker \<Rightarrow> world \<Rightarrow> randomPicker pick_result" where
  "pickTwo_loop grp now previous pk w =
     (if maxRandomTries < rp_tries pk then Val (None, pk, w)
      else case randomSelect grp pk w of
             Panic \<Rightarrow> Panic
           | Val (None, w1) \<Rightarrow> Val (None, pk, w1)
           | Val (Some p, w1) \<Rightarrow>
               (case two_rejected previous (rp_rr pk) p w1 of
                  (True, w2) \<Rightarrow>
                    pickTwo_loop grp now previous (pk\<lparr>rp_tries := i64 (rp_tries pk + 1)\<rparr>) w2
                | (False, w2) \<Rightarrow>
                    (case previous of
                       None \<Rightarrow>
                         pickTwo_loop grp now (Some p)
                           (pk\<lparr>rp_tries := i64 (rp_tries pk + 1)\<rparr>) w2
                     | Some prev \<Rightarrow>
                         let selected = two_select w2 p prev
                         in (case commitPeer selected now (rp_rr pk) w2 of
                               (rr', w3) \<Rightarrow> Val (Some selected, pk\<lparr>rp_rr := rr'\<rparr>, w3)))))"
  by pat_completeness auto
termination
  by (relation "measure (\<lambda>(grp, now, previous, pk, w). nat (21 - rp_tries pk))")
    (auto simp: maxRandomTries_def i64_retry_grows not_less)

declare pickTwo_loop.simps [simp del]

definition pickTwo :: "randomPicker \<Rightarrow> world \<Rightarrow> randomPicker pick_result" where
  "pickTwo pk w =
     (let grp = rr_primary (rp_rr pk)
      in if length (Peers grp) < 2 then random_fallback pk w
         else (case time_Now w of
                 (now, w1) \<Rightarrow>
                   (case pickTwo_loop grp now None pk w1 of
                      Panic \<Rightarrow> Panic
                    | Val (Some p, pk', w2) \<Rightarrow> Val (Some p, pk', w2)
                    | Val (None, pk', w2) \<Rightarrow> random_fallback pk' w2)))"

definition randomPicker_Pick :: "randomPicker \<Rightarrow> world \<Rightarrow> randomPicker pick_result" where
  "randomPicker_Pick pk w = (if two (rp_balancer pk) then pickTwo pk w else pickOne pk w)"

definition randomPicker_Done ::
  "peer_id option \<Rightarrow> bool \<Rightarrow> randomPicker \<Rightarrow> world \<Rightarrow> randomPicker \<times> world" where
  "randomPicker_Done peer failed pk w =
     (case RRPicker_Done peer failed (rp_rr pk) w of (rr, w') \<Rightarrow> (pk\<lparr>rp_rr := rr\<rparr>, w'))"

section \<open>Random selection meets the contract\<close>

text \<open>
  The ranges of the balancer belong to the primary group: one for each of its peers, in order.
\<close>

definition rp_wf :: "randomPicker \<Rightarrow> bool" where
  "rp_wf pk \<longleftrightarrow> map wr_peer (ranges (rp_balancer pk)) = Peers (rr_primary (rp_rr pk))"

lemma range_search_bound: "lo \<le> hi \<Longrightarrow> range_search rs x lo hi \<le> hi"
proof (induction rs x lo hi rule: range_search.induct)
  case (1 rs x lo hi)
  have m: "lo < hi \<Longrightarrow> lo \<le> (lo + hi) div 2" "lo < hi \<Longrightarrow> (lo + hi) div 2 + 1 \<le> hi" by simp_all
  show ?case
  proof (cases "lo < hi")
    case True
    with "1.IH"(1) "1.IH"(2) m show ?thesis
      by (cases "upper (rs ! ((lo + hi) div 2)) \<le> x")
        (fastforce simp: range_search.simps [of rs x lo hi] Let_def)+
  next
    case False
    with "1.prems" show ?thesis by (simp add: range_search.simps)
  qed
qed

lemma randomSelect_ok:
  assumes "rp_wf pk" and "Peers (rr_primary (rp_rr pk)) \<noteq> []" and "grp = rr_primary (rp_rr pk)"
  shows "\<exists>r w1. randomSelect grp pk w = Val (r, w1) \<and> heap w1 = heap w \<and> time_passes w w1 \<and>
    (\<forall>p. r = Some p \<longrightarrow> p \<in> set (Peers grp))"
proof -
  let ?rs = "ranges (rp_balancer pk)"
  have ne: "?rs \<noteq> []" using assms by (auto simp: rp_wf_def)
  have "wr_peer (?rs ! range_search ?rs x 0 (length ?rs - 1)) \<in> set (Peers grp)" for x
  proof -
    have "range_search ?rs x 0 (length ?rs - 1) < length ?rs"
      using range_search_bound [of 0 "length ?rs - 1" ?rs x] ne
      by (cases ?rs) auto
    then show ?thesis using assms(1,3) unfolding rp_wf_def by (metis imageI list.set_map nth_mem)
  qed
  with ne show ?thesis by (auto simp: randomSelect_def Let_def time_passes_def)
qed

lemma pickOne_loop_section:
  "rp_wf pk \<Longrightarrow> Peers grp \<noteq> [] \<Longrightarrow> grp = rr_primary (rp_rr pk) \<Longrightarrow>
   \<exists>r pk' w'. pickOne_loop grp now pk w = Val (r, pk', w') \<and> rp_balancer pk' = rp_balancer pk \<and>
     section_spec (Peers grp) (rp_rr pk) w r (rp_rr pk') w'"
proof (induction grp now pk w rule: pickOne_loop.induct)
  case (1 grp now pk w)
  note unfold = pickOne_loop.simps [of grp now pk w]
  obtain r0 w1 where s: "randomSelect grp pk w = Val (r0, w1)" "heap w1 = heap w" "time_passes w w1"
    "\<forall>p. r0 = Some p \<longrightarrow> p \<in> set (Peers grp)"
    using randomSelect_ok [of pk grp w] "1.prems" by auto
  show ?case
  proof (cases "maxRandomTries < rp_tries pk \<or> r0 = None")
    case True
    with s show ?thesis by (auto simp: unfold section_spec_def)
  next
    case False
    then obtain p where p: "r0 = Some p" by auto
    obtain ok w2 where c: "candidate_ok (rp_rr pk) p w1 = (ok, w2)" by fastforce
    show ?thesis
    proof (cases ok)
      case True
      obtain rr' w3 where cm: "commitPeer p now (rp_rr pk) w2 = (rr', w3)" by fastforce
      have "candidate_ok (rp_rr pk) p w1 = (True, w2)" using c True by simp
      from section_before [OF s(3,2) candidate_commit [OF this _ cm]] s(4) p
      show ?thesis using False s c True cm by (simp add: unfold)
    next
      case no: False
      let ?pk = "pk\<lparr>rp_tries := i64 (rp_tries pk + 1)\<rparr>"
      obtain r pk' w' where r: "pickOne_loop grp now ?pk w2 = Val (r, pk', w')"
        "rp_balancer pk' = rp_balancer pk" "section_spec (Peers grp) (rp_rr ?pk) w2 r (rp_rr pk') w'"
        using "1.IH" [OF _ s(1) refl p c [symmetric]] False no "1.prems" by (auto simp: rp_wf_def)
      from section_before [OF s(3,2) section_before [OF candidate_time(2,1) [OF c]], of _ "rp_rr pk"] r
      show ?thesis using False s p c no by (simp add: unfold)
    qed
  qed
qed

lemma two_rejected_time:
  assumes "two_rejected previous rr p w = (no, w1)"
  shows "heap w1 = heap w" "time_passes w w1"
  using assms
  by (auto simp: two_rejected_def peerAvailable_def time_Now_def time_passes_def split: if_splits)

text \<open>A candidate that \<open>pickTwo\<close> keeps: eligible, and seen alive at a reading of the clock.\<close>

definition kept_candidate :: "PeerGroup \<Rightarrow> RRPicker \<Rightarrow> world \<Rightarrow> world \<Rightarrow> peer_id \<Rightarrow> bool" where
  "kept_candidate grp rr w w1 p \<longleftrightarrow>
     p \<in> set (Peers grp) \<and> \<not> tried rr p \<and> \<not> Down (heap w p) \<and> \<not> conns_full (heap w p) \<and>
     alive_between w w1 p"

lemma two_kept:
  assumes "two_rejected previous rr p w = (False, w1)" and "p \<in> set (Peers grp)"
  shows "kept_candidate grp rr w w1 p"
  using assms
  by (auto simp: two_rejected_def peerAvailable_def time_Now_def kept_candidate_def
      alive_between_def split: if_splits)

lemma kept_candidate_mono:
  assumes "kept_candidate grp rr w1 w2 p" and "heap w1 = heap w" and "time_passes w w1"
    and "time_passes w2 w3"
  shows "kept_candidate grp rr w w3 p"
  using assms unfolding kept_candidate_def alive_between_def time_passes_def
  by (metis order_trans order_less_le_trans)

lemma pickTwo_loop_section:
  "rp_wf pk \<Longrightarrow> Peers grp \<noteq> [] \<Longrightarrow> grp = rr_primary (rp_rr pk) \<Longrightarrow>
   heap w0 = heap w \<Longrightarrow> time_passes w0 w \<Longrightarrow>
   (\<And>q. previous = Some q \<Longrightarrow> kept_candidate grp (rp_rr pk) w0 w q) \<Longrightarrow>
   \<exists>r pk' w'. pickTwo_loop grp now previous pk w = Val (r, pk', w') \<and>
     rp_balancer pk' = rp_balancer pk \<and> section_spec (Peers grp) (rp_rr pk) w0 r (rp_rr pk') w'"
proof (induction grp now previous pk w rule: pickTwo_loop.induct)
  case (1 grp now previous pk w)
  note unfold = pickTwo_loop.simps [of grp now previous pk w]
  note w0 = "1.prems"(4,5) and kept = "1.prems"(6)
  obtain r0 w1 where s: "randomSelect grp pk w = Val (r0, w1)" "heap w1 = heap w" "time_passes w w1"
    "\<forall>p. r0 = Some p \<longrightarrow> p \<in> set (Peers grp)"
    using randomSelect_ok [of pk grp w] "1.prems"(1-3) by auto
  show ?case
  proof (cases "maxRandomTries < rp_tries pk \<or> r0 = None")
    case True
    with s w0 show ?thesis
      by (auto simp: unfold section_spec_def intro: time_passes_trans)
  next
    case False
    then obtain p where p: "r0 = Some p" by auto
    obtain no w2 where c: "two_rejected previous (rp_rr pk) p w1 = (no, w2)" by fastforce
    note tw = two_rejected_time [OF c]
    have w02: "heap w0 = heap w2" "time_passes w0 w2" "time_passes w w2"
      using w0 s(2,3) tw by (auto intro: time_passes_trans)
    let ?pk = "pk\<lparr>rp_tries := i64 (rp_tries pk + 1)\<rparr>"
    have keep: "kept_candidate grp (rp_rr pk) w0 w2 q" if "previous = Some q" for q
      using kept_candidate_mono [OF kept [OF that] refl time_passes_refl w02(3)] .
    show ?thesis
    proof (cases no)
      case True
      have "\<exists>r pk' w'. pickTwo_loop grp now previous ?pk w2 = Val (r, pk', w') \<and>
          rp_balancer pk' = rp_balancer ?pk \<and>
          section_spec (Peers grp) (rp_rr ?pk) w0 r (rp_rr pk') w'"
        using "1.IH"(1) [OF _ s(1) refl p c [symmetric]] False True "1.prems"(1-3) w02 keep
        by (auto simp: rp_wf_def)
      with False s p c True show ?thesis by (simp add: unfold)
    next
      case ok: False
      have cp: "kept_candidate grp (rp_rr pk) w0 w2 p"
        using kept_candidate_mono [OF two_kept [of previous] _ time_passes_trans [OF w0(2) s(3)]
            time_passes_refl] c ok s(2,4) p w0(1) by auto
      show ?thesis
      proof (cases previous)
        case None
        have "\<exists>r pk' w'. pickTwo_loop grp now (Some p) ?pk w2 = Val (r, pk', w') \<and>
            rp_balancer pk' = rp_balancer ?pk \<and>
            section_spec (Peers grp) (rp_rr ?pk) w0 r (rp_rr pk') w'"
          using "1.IH"(2) [OF _ s(1) refl p c [symmetric]] False ok None "1.prems"(1-3) w02 cp
          by (auto simp: rp_wf_def)
        with False s p c ok None show ?thesis
          by (simp add: pickTwo_loop.simps [of grp now None pk w])
      next
        case (Some prev)
        let ?sel = "two_select w2 p prev"
        obtain rr' w3 where cm: "commitPeer ?sel now (rp_rr pk) w2 = (rr', w3)" by fastforce
        have "kept_candidate grp (rp_rr pk) w0 w2 ?sel"
          using cp keep [OF Some] by (simp add: two_select_def)
        then have "section_spec (Peers grp) (rp_rr pk) w0 (Some ?sel) rr' w3"
          using commit_section [OF _ w02(2) cm] w02(1) by (simp add: kept_candidate_def)
        with False s p c ok Some cm show ?thesis
          by (simp add: pickTwo_loop.simps [of grp now "Some prev" pk w])
      qed
    qed
  qed
qed

definition random_section :: "randomPicker \<Rightarrow> world \<Rightarrow> randomPicker pick_result" where
  "random_section pk w =
     (if length (Peers (rr_primary (rp_rr pk))) < 2 then Val (None, pk, w)
      else (case time_Now w of
              (now, w1) \<Rightarrow>
                if two (rp_balancer pk) then pickTwo_loop (rr_primary (rp_rr pk)) now None pk w1
                else pickOne_loop (rr_primary (rp_rr pk)) now pk w1))"

lemma randomPicker_Pick_split:
  "randomPicker_Pick = section_or_rr random_section rp_rr (\<lambda>pk rr. pk\<lparr>rp_rr := rr\<rparr>)"
  by (auto simp: fun_eq_iff randomPicker_Pick_def section_or_rr_def random_section_def
      pickOne_def pickTwo_def random_fallback_def Let_def
      split: outcome.splits option.splits prod.splits)

interpretation rp_section: section_picker random_section rp_rr "\<lambda>pk rr. pk\<lparr>rp_rr := rr\<rparr>" rp_wf
proof (unfold_locales, goal_cases)
  case (1 pk w)
  let ?g = "rr_primary (rp_rr pk)"
  have ex: "\<exists>r pk' w'. random_section pk w = Val (r, pk', w') \<and> rp_balancer pk' = rp_balancer pk \<and>
      section_spec (Peers ?g) (rp_rr pk) w r (rp_rr pk') w'"
  proof (cases "length (Peers ?g) < 2")
    case True
    then show ?thesis by (auto simp: random_section_def)
  next
    case False
    obtain now w1 where n: "time_Now w = (now, w1)" by fastforce
    have ne: "Peers ?g \<noteq> []" using False by auto
    from pickOne_loop_section [OF 1(1) ne refl, of now w1]
      pickTwo_loop_section [OF 1(1) ne refl refl time_passes_refl, of None w1 now]
      section_after_now [OF n, of "Peers ?g"] n False
    show ?thesis by (cases "two (rp_balancer pk)") (fastforce simp: random_section_def)+
  qed
  have "rp_wf pk'" if "section_spec (Peers ?g) (rp_rr pk) w r (rp_rr pk') w'"
    "rp_balancer pk' = rp_balancer pk" for r pk' w'
    using section_groups [OF that(1)] that(2) 1(1) by (simp add: rp_wf_def)
  with ex show ?case by blast
qed (simp_all add: rp_wf_def)

interpretation rp_picker: picker randomPicker_Pick rp_rr "\<lambda>pk rr. pk\<lparr>rp_rr := rr\<rparr>" rp_wf
  unfolding randomPicker_Pick_split by (rule rp_section.fb.picker_axioms)

end
