(* ===== verification/Consistent_Hash.thy ===== *)
theory Consistent_Hash
  imports Key_Hash
begin

text \<open>
  Consistent-hash selection (\<open>src/chash.go\<close>): the ketama ring of chained CRC-32 points,
  the search for the start of a key, and the walk along the ring.
\<close>

section \<open>The code\<close>

definition consistentReplicas :: int where
  "consistentReplicas = 160"

record chashPoint =
  pt_hash :: u32
  pt_peer :: peer_id

record HashConsistent =
  hc_rr :: RoundRobin
  points :: "chashPoint list"

subsection \<open>Host and port of an address\<close>

text \<open>\<open>strings.Index\<close>: the first position of a substring.\<close>

fun strings_Index :: "string \<Rightarrow> string \<Rightarrow> nat option" where
  "strings_Index [] sub = (if sub = [] then Some 0 else None)"
| "strings_Index (c # cs) sub =
     (if take (length sub) (c # cs) = sub then Some 0 else map_option Suc (strings_Index cs sub))"

definition strip_url :: "string \<Rightarrow> string" where
  "strip_url addr =
     (case strings_Index addr ''://'' of
        None \<Rightarrow> addr
      | Some i \<Rightarrow>
          (let rest = drop (i + 3) addr
           in case strings_Index rest ''/'' of None \<Rightarrow> rest | Some slash \<Rightarrow> take slash rest))"

definition is_digit :: "char \<Rightarrow> bool" where
  "is_digit c \<longleftrightarrow> 48 \<le> (of_char c :: nat) \<and> (of_char c :: nat) \<le> 57"

text \<open>The scan from right to left; \<open>Suc j\<close> stands for the index \<open>j\<close> still to be read.\<close>

fun scan_port :: "string \<Rightarrow> nat \<Rightarrow> string \<times> string" where
  "scan_port addr 0 = (addr, [])"
| "scan_port addr (Suc j) =
     (if addr ! j = CHR '':'' then (take j addr, drop (j + 1) addr)
      else if \<not> is_digit (addr ! j) then (addr, [])
      else scan_port addr j)"

definition splitKetamaHostPort :: "string \<Rightarrow> string \<times> string" where
  "splitKetamaHostPort addr = (let a = strip_url addr in scan_port a (length a))"

subsection \<open>The ring\<close>

definition ketama_seed :: "string \<Rightarrow> byte list" where
  "ketama_seed addr =
     (case splitKetamaHostPort addr of (host, port) \<Rightarrow> bytes_of host @ [0] @ bytes_of port)"

text \<open>The chain of hashes of one peer; \<open>prev\<close> is the value in the four trailing bytes.\<close>

fun ketama_chain :: "byte list \<Rightarrow> u32 \<Rightarrow> nat \<Rightarrow> u32 list" where
  "ketama_chain seed prev 0 = []"
| "ketama_chain seed prev (Suc n) =
     (let h = ChecksumIEEE (seed @ PutUint32_LE prev) in h # ketama_chain seed h n)"

definition peer_points :: "(peer_id \<Rightarrow> Peer) \<Rightarrow> peer_id \<Rightarrow> chashPoint list" where
  "peer_points h p =
     map (\<lambda>x. \<lparr>pt_hash = x, pt_peer = p\<rparr>)
       (ketama_chain (ketama_seed (Addr (h p))) 0
          (nat (i64 (Weight (h p) * consistentReplicas))))"

fun total_points :: "(peer_id \<Rightarrow> Peer) \<Rightarrow> peer_id option list \<Rightarrow> int \<Rightarrow> int" where
  "total_points h [] n = n"
| "total_points h (None # ps) n = total_points h ps n"
| "total_points h (Some p # ps) n =
     (if Weight (h p) \<le> 0 then total_points h ps n
      else total_points h ps (i64 (n + i64 (Weight (h p) * consistentReplicas))))"

fun ring_points :: "(peer_id \<Rightarrow> Peer) \<Rightarrow> peer_id option list \<Rightarrow> chashPoint list" where
  "ring_points h [] = []"
| "ring_points h (None # ps) = ring_points h ps"
| "ring_points h (Some p # ps) =
     (if Weight (h p) \<le> 0 then ring_points h ps else peer_points h p @ ring_points h ps)"

fun dedup_from :: "chashPoint \<Rightarrow> chashPoint list \<Rightarrow> chashPoint list" where
  "dedup_from last_pt [] = []"
| "dedup_from last_pt (pt # pts) =
     (if pt_hash pt \<noteq> pt_hash last_pt then pt # dedup_from pt pts else dedup_from last_pt pts)"

definition dedup_points :: "chashPoint list \<Rightarrow> chashPoint list" where
  "dedup_points pts = (case pts of [] \<Rightarrow> [] | pt # rest \<Rightarrow> pt # dedup_from pt rest)"

text \<open>
  \<open>make\<close> panics for a negative capacity. \<open>sort.SliceStable\<close> is the stable sort by hash.
\<close>

definition buildChashRing ::
  "(peer_id \<Rightarrow> Peer) \<Rightarrow> peer_id option list \<Rightarrow> chashPoint list outcome" where
  "buildChashRing h ps =
     (if total_points h ps 0 < 0 then Panic
      else Val (dedup_points (sort_key pt_hash (ring_points h ps))))"

definition NewHashConsistent ::
  "peer_id option list \<Rightarrow> world \<Rightarrow> (HashConsistent \<times> world) outcome" where
  "NewHashConsistent ps w =
     (case NewRoundRobin ps w of
        (rr, w1) \<Rightarrow>
          (case buildChashRing (heap w1) (map Some (Peers (primary rr))) of
             Panic \<Rightarrow> Panic
           | Val pts \<Rightarrow> Val (\<lparr>hc_rr = rr, points = pts\<rparr>, w1)))"

text \<open>\<open>sort.Search\<close>: binary search for the least index where a monotone test holds.\<close>

function sort_Search_loop :: "(nat \<Rightarrow> bool) \<Rightarrow> nat \<Rightarrow> nat \<Rightarrow> nat" where
  "sort_Search_loop f i j =
     (if i < j
      then let h = (i + j) div 2
           in if \<not> f h then sort_Search_loop f (h + 1) j else sort_Search_loop f i h
      else i)"
  by pat_completeness auto
termination
  by (relation "measure (\<lambda>(f, i, j). j - i)") auto

declare sort_Search_loop.simps [simp del]

definition sort_Search :: "nat \<Rightarrow> (nat \<Rightarrow> bool) \<Rightarrow> nat" where
  "sort_Search n f = sort_Search_loop f 0 n"

definition findChashStart :: "chashPoint list \<Rightarrow> u32 \<Rightarrow> nat" where
  "findChashStart pts keyHash =
     (let idx = sort_Search (length pts) (\<lambda>i. keyHash \<le> pt_hash (pts ! i))
      in if idx = length pts then 0 else idx)"

subsection \<open>The picker\<close>

record chashPicker =
  cp_rr :: RRPicker
  cp_balancer :: HashConsistent
  cp_key :: string
  started :: bool
  cursor :: int
  cp_tries :: int

definition HashConsistent_NewPickerForKey :: "string \<Rightarrow> HashConsistent \<Rightarrow> chashPicker" where
  "HashConsistent_NewPickerForKey key h =
     \<lparr>cp_rr = NewRRPicker (primary (hc_rr h)) (backup (hc_rr h)), cp_balancer = h,
      cp_key = key, started = False, cursor = 0, cp_tries = 0\<rparr>"

definition HashConsistent_NewPicker :: "HashConsistent \<Rightarrow> chashPicker" where
  "HashConsistent_NewPicker h = HashConsistent_NewPickerForKey '''' h"

definition HashConsistent_Primary :: "HashConsistent \<Rightarrow> PeerGroup" where
  "HashConsistent_Primary h = primary (hc_rr h)"

definition HashConsistent_Backup :: "HashConsistent \<Rightarrow> PeerGroup option" where
  "HashConsistent_Backup h = backup (hc_rr h)"

definition chashPicker_Done ::
  "peer_id option \<Rightarrow> bool \<Rightarrow> chashPicker \<Rightarrow> world \<Rightarrow> chashPicker \<times> world" where
  "chashPicker_Done peer failed pk w =
     (case RRPicker_Done peer failed (cp_rr pk) w of (rr, w') \<Rightarrow> (pk\<lparr>cp_rr := rr\<rparr>, w'))"

definition chash_eligible :: "string \<Rightarrow> RRPicker \<Rightarrow> peer_id \<Rightarrow> world \<Rightarrow> bool \<times> world" where
  "chash_eligible server rr p w =
     (if Addr (heap w p) \<noteq> server then (False, w)
      else if Down (heap w p) then (False, w)
      else if tried rr p then (False, w)
      else peerAvailable p w)"

text \<open>
  The walk along the ring. The remainder of a negative number would be a negative index,
  which panics, as does the division by the length of an empty ring.
\<close>

function chash_loop :: "PeerGroup \<Rightarrow> time \<Rightarrow> chashPicker \<Rightarrow> world \<Rightarrow> chashPicker pick_result" where
  "chash_loop grp now pk w =
     (if maxHashTries < cp_tries pk then Val (None, pk, w)
      else let pts = points (cp_balancer pk);
               ix = go_rem (i64 (cursor pk + cp_tries pk)) (int (length pts))
           in if pts = [] \<or> ix < 0 then Panic
              else (case smoothWeightedPeer (Peers grp)
                           (chash_eligible (Addr (heap w (pt_peer (pts ! nat ix)))) (cp_rr pk)) w of
                      (Some best, w1) \<Rightarrow>
                        (case commitPeer best now (cp_rr pk) w1 of
                           (rr', w2) \<Rightarrow> Val (Some best, pk\<lparr>cp_rr := rr'\<rparr>, w2))
                    | (None, w1) \<Rightarrow>
                        chash_loop grp now (pk\<lparr>cp_tries := i64 (cp_tries pk + 1)\<rparr>) w1))"
  by pat_completeness auto
termination
  by (relation "measure (\<lambda>(grp, now, pk, w). nat (21 - cp_tries pk))")
    (auto simp: maxHashTries_def i64_retry_grows not_less)

declare chash_loop.simps [simp del]

definition chash_fallback :: "chashPicker \<Rightarrow> world \<Rightarrow> chashPicker pick_result" where
  "chash_fallback pk w =
     (case RRPicker_Pick (cp_rr pk) w of
        Panic \<Rightarrow> Panic
      | Val (r, rr', w1) \<Rightarrow> Val (r, pk\<lparr>cp_rr := rr'\<rparr>, w1))"

definition chash_start :: "chashPicker \<Rightarrow> chashPicker" where
  "chash_start pk =
     (if started pk then pk
      else pk\<lparr>cursor := int (findChashStart (points (cp_balancer pk))
                                (ChecksumIEEE (bytes_of (cp_key pk)))),
              started := True\<rparr>)"

definition chashPicker_Pick :: "chashPicker \<Rightarrow> world \<Rightarrow> chashPicker pick_result" where
  "chashPicker_Pick pk w =
     (if single (rr_primary (cp_rr pk)) \<or> cp_key pk = '''' \<or> points (cp_balancer pk) = []
      then chash_fallback pk w
      else (case time_Now w of
              (now, w1) \<Rightarrow>
                (case chash_loop (rr_primary (cp_rr pk)) now (chash_start pk) w1 of
                   Panic \<Rightarrow> Panic
                 | Val (Some p, pk', w2) \<Rightarrow> Val (Some p, pk', w2)
                 | Val (None, pk', w2) \<Rightarrow> chash_fallback pk' w2)))"

section \<open>Consistent-hash meets the contract\<close>

interpretation ch_test: eligibility "chash_eligible server rr" for server rr
proof (unfold_locales, goal_cases)
  case (5 h w p)
  then have u: "unweighted (h p) = unweighted (heap w p)" by simp
  show ?case
    by (simp add: chash_eligible_def peerAvailable_def time_Now_def failed_out_cong [OF u]
        conns_full_cong [OF u] unweighted_eqD [OF u])
qed (auto simp: chash_eligible_def)

text \<open>The cursor and the counter are small and non-negative, so the index is in range.\<close>

definition cp_wf :: "chashPicker \<Rightarrow> bool" where
  "cp_wf pk \<longleftrightarrow> 0 \<le> cp_tries pk \<and> cp_tries pk \<le> 21 \<and> 0 \<le> cursor pk \<and>
     cursor pk + 21 < 2 ^ 63 \<and> int (length (points (cp_balancer pk))) + 21 < 2 ^ 63"

lemma chash_commit:
  assumes d: "distinct (Peers grp)"
    and sw: "smoothWeightedPeer (Peers grp) (chash_eligible server rr) w = (Some b, w1)"
    and c: "commitPeer b now rr w1 = (rr', w2)"
  shows "section_spec (Peers grp) rr w (Some b) rr' w2" and "Addr (heap w b) = server"
proof -
  let ?el = "chash_eligible server rr"
  let ?E = "accepted ?el (Peers grp) w"
  have b: "fst (swrr_round ?E (heap w)) = Some b"
    and w1: "w1 = (after_tests ?el (Peers grp) w)\<lparr>heap := snd (swrr_round ?E (heap w))\<rparr>"
    using sw by (simp_all add: ch_test.smoothWeightedPeer_round [OF d])
  have bE: "b \<in> set ?E" by (rule swrr_round_mem [OF b])
  from accepted_tested [OF bE] obtain us vs where
    us: "Peers grp = us @ b # vs" "fst (?el b (after_tests ?el us w))" by blast
  let ?w = "after_tests ?el us w"
  have fr: "heap ?w = heap w" "clock ?w = clock w" "ticks w \<le> ticks ?w"
    by (rule ch_test.after_tests_frame)+
  have ok: "Addr (heap w b) = server" "\<not> Down (heap w b)" "\<not> tried rr b" "fst (peerAvailable b ?w)"
    using us(2) by (auto simp: chash_eligible_def fr split: if_splits)
  then show "Addr (heap w b) = server" by simp
  have "after_tests ?el (Peers grp) w = after_tests ?el vs (snd (?el b ?w))"
    unfolding us(1) by (induction us arbitrary: w) simp_all
  then have tk: "ticks ?w < ticks (after_tests ?el (Peers grp) w)"
    using ch_test.after_tests_frame(3) [of "snd (?el b ?w)" server rr vs] ok
    by (auto simp: chash_eligible_def fr)
  show "section_spec (Peers grp) rr w (Some b) rr' w2"
  proof (rule commit_section [OF _ _ c])
    show "weights_only (Peers grp) (heap w) (heap w1)"
      using d accepted_subset by (simp add: w1 round_weights_only distinct_accepted)
    show "time_passes w w1"
      by (simp add: w1 time_passes_def ch_test.after_tests_frame)
    show "alive_between w w1 b"
      using ok(4) tk fr by (auto simp: alive_between_def w1 peerAvailable_iff)
  qed (use ok us(1) fr in \<open>auto simp: peerAvailable_iff\<close>)
qed

lemma chash_miss:
  assumes d: "distinct (Peers grp)"
    and sw: "smoothWeightedPeer (Peers grp) (chash_eligible server rr) w = (None, w1)"
  shows "heap w1 = heap w" "time_passes w w1"
  using sw swrr_round_None [of "accepted (chash_eligible server rr) (Peers grp) w" "heap w"]
  by (auto simp: ch_test.smoothWeightedPeer_round [OF d] time_passes_def ch_test.after_tests_frame)

lemma cp_wf_index:
  assumes "cp_wf pk" and "points (cp_balancer pk) \<noteq> []"
  shows "go_rem (i64 (cursor pk + cp_tries pk)) (int (length (points (cp_balancer pk)))) =
    (cursor pk + cp_tries pk) mod int (length (points (cp_balancer pk)))"
  using assms by (simp add: cp_wf_def i64_id in_i64_def go_rem_def sgn_if)

lemma cp_wf_next: "cp_wf pk \<Longrightarrow> cp_tries pk \<le> 20 \<Longrightarrow> cp_wf (pk\<lparr>cp_tries := i64 (cp_tries pk + 1)\<rparr>)"
  by (simp add: cp_wf_def i64_id in_i64_def)

lemma chash_loop_section:
  "cp_wf pk \<Longrightarrow> points (cp_balancer pk) \<noteq> [] \<Longrightarrow> distinct (Peers grp) \<Longrightarrow>
   \<exists>r pk' w'. chash_loop grp now pk w = Val (r, pk', w') \<and> cp_wf pk' \<and>
     section_spec (Peers grp) (cp_rr pk) w r (cp_rr pk') w'"
proof (induction grp now pk w rule: chash_loop.induct)
  case (1 grp now pk w)
  note unfold = chash_loop.simps [of grp now pk w]
  let ?pts = "points (cp_balancer pk)"
  let ?ix = "go_rem (i64 (cursor pk + cp_tries pk)) (int (length ?pts))"
  let ?server = "Addr (heap w (pt_peer (?pts ! nat ?ix)))"
  have ix: "\<not> (?pts = [] \<or> ?ix < 0)"
    using "1.prems" pos_mod_sign [of "int (length ?pts)"] by (simp add: cp_wf_index not_less)
  show ?case
  proof (cases "maxHashTries < cp_tries pk")
    case True
    with "1.prems"(1) show ?thesis by (auto simp: unfold)
  next
    case False
    obtain b w1 where sw: "smoothWeightedPeer (Peers grp) (chash_eligible ?server (cp_rr pk)) w =
        (b, w1)" by fastforce
    show ?thesis
    proof (cases b)
      case (Some p)
      obtain rr' w2 where cm: "commitPeer p now (cp_rr pk) w1 = (rr', w2)" by fastforce
      have "section_spec (Peers grp) (cp_rr pk) w (Some p) rr' w2"
        using chash_commit(1) [OF "1.prems"(3) _ cm] sw Some by simp
      then show ?thesis
        using False ix sw Some cm "1.prems"(1) by (auto simp: unfold Let_def cp_wf_def)
    next
      case None
      let ?pk = "pk\<lparr>cp_tries := i64 (cp_tries pk + 1)\<rparr>"
      have wf: "cp_wf ?pk"
        using cp_wf_next "1.prems"(1) False by (simp add: maxHashTries_def)
      obtain r pk' w' where r: "chash_loop grp now ?pk w1 = Val (r, pk', w')" "cp_wf pk'"
        "section_spec (Peers grp) (cp_rr ?pk) w1 r (cp_rr pk') w'"
        using "1.IH" [OF False refl refl ix sw [symmetric] None wf] "1.prems" by auto
      from section_before [of w w1 _ "cp_rr pk"] r chash_miss [OF "1.prems"(3)] sw None
      show ?thesis using False ix by (auto simp: unfold Let_def)
    qed
  qed
qed

definition chash_section :: "chashPicker \<Rightarrow> world \<Rightarrow> chashPicker pick_result" where
  "chash_section pk w =
     (if single (rr_primary (cp_rr pk)) \<or> cp_key pk = '''' \<or> points (cp_balancer pk) = []
      then Val (None, pk, w)
      else (case time_Now w of
              (now, w1) \<Rightarrow> chash_loop (rr_primary (cp_rr pk)) now (chash_start pk) w1))"

lemma chashPicker_Pick_split:
  "chashPicker_Pick = section_or_rr chash_section cp_rr (\<lambda>pk rr. pk\<lparr>cp_rr := rr\<rparr>)"
  by (auto simp: fun_eq_iff chashPicker_Pick_def section_or_rr_def chash_section_def
      chash_fallback_def Let_def split: outcome.splits option.splits prod.splits)

lemma sort_Search_bound: "i \<le> j \<Longrightarrow> sort_Search_loop f i j \<le> j"
proof (induction f i j rule: sort_Search_loop.induct)
  case (1 f i j)
  have m: "i < j \<Longrightarrow> i \<le> (i + j) div 2" "i < j \<Longrightarrow> (i + j) div 2 + 1 \<le> j" by simp_all
  show ?case
  proof (cases "i < j")
    case True
    with "1.IH"(1) "1.IH"(2) m show ?thesis
      by (cases "f ((i + j) div 2)") (fastforce simp: sort_Search_loop.simps [of f i j] Let_def)+
  next
    case False
    with "1.prems" show ?thesis by (simp add: sort_Search_loop.simps)
  qed
qed

lemma findChashStart_bound: "pts \<noteq> [] \<Longrightarrow> findChashStart pts k < length pts"
  using sort_Search_bound [of 0 "length pts" "\<lambda>i. k \<le> pt_hash (pts ! i)"]
  by (auto simp: findChashStart_def sort_Search_def Let_def)

lemma cp_wf_start:
  "cp_wf pk \<Longrightarrow> points (cp_balancer pk) \<noteq> [] \<Longrightarrow> cp_wf (chash_start pk)"
  using findChashStart_bound [of "points (cp_balancer pk)" "ChecksumIEEE (bytes_of (cp_key pk))"]
  by (auto simp: cp_wf_def chash_start_def)

lemma chash_start_frame [simp]:
  "cp_rr (chash_start pk) = cp_rr pk" "cp_balancer (chash_start pk) = cp_balancer pk"
  "cp_tries (chash_start pk) = cp_tries pk"
  by (simp_all add: chash_start_def)

interpretation cp_section: section_picker chash_section cp_rr "\<lambda>pk rr. pk\<lparr>cp_rr := rr\<rparr>" cp_wf
proof (unfold_locales, goal_cases)
  case (1 pk w)
  let ?g = "rr_primary (cp_rr pk)"
  have d: "distinct (Peers ?g)" using 1(2) by (simp add: rr_wf_def groups_wf_def)
  have "\<exists>r pk' w'. chash_section pk w = Val (r, pk', w') \<and> cp_wf pk' \<and>
      section_spec (Peers ?g) (cp_rr pk) w r (cp_rr pk') w'"
  proof (cases "single ?g \<or> cp_key pk = '''' \<or> points (cp_balancer pk) = []")
    case True
    with 1(1) show ?thesis by (auto simp: chash_section_def)
  next
    case False
    obtain now w1 where n: "time_Now w = (now, w1)" by fastforce
    from chash_loop_section [OF cp_wf_start [OF 1(1)], of ?g now w1] False d obtain r pk' w' where
      l: "chash_loop ?g now (chash_start pk) w1 = Val (r, pk', w')" "cp_wf pk'"
      and "section_spec (Peers ?g) (cp_rr pk) w1 r (cp_rr pk') w'" by auto
    from section_after_now [OF n this(3)] l n False show ?thesis
      by (auto simp: chash_section_def)
  qed
  then show ?case by blast
qed (simp_all add: cp_wf_def)

interpretation cp_picker: picker chashPicker_Pick cp_rr "\<lambda>pk rr. pk\<lparr>cp_rr := rr\<rparr>" cp_wf
  unfolding chashPicker_Pick_split by (rule cp_section.fb.picker_axioms)

end
