(* ===== verification/Balancer.thy ===== *)
theory Balancer
  imports Errors Done_Contract Least_Conn Ip_Hash Key_Hash Random_Pick Consistent_Hash
begin

text \<open>
  The interfaces \<open>Balancer\<close> and \<open>Picker\<close> with their implementations, and the two helpers
  \<open>PickOne\<close> and \<open>PickWithRetry\<close> of \<open>src/balancer.go\<close>. A value of an interface type is a
  value of one of the implementing types; dispatch is case distinction.
\<close>

section \<open>The code\<close>

datatype Balancer =
    balRoundRobin RoundRobin
  | balLeastConn LeastConn
  | balIPHash IPHash
  | balHash Hash
  | balHashConsistent HashConsistent
  | balRandom Random

datatype Picker =
    pkRR RRPicker
  | pkLeastConn RRPicker
  | pkIPHash ipHashPicker
  | pkHash hashPicker
  | pkChash chashPicker
  | pkRandom randomPicker

fun NewPicker :: "Balancer \<Rightarrow> Picker" where
  "NewPicker (balRoundRobin b) = pkRR (RoundRobin_NewPicker b)"
| "NewPicker (balLeastConn b) = pkLeastConn (LeastConn_NewPicker b)"
| "NewPicker (balIPHash b) = pkIPHash (IPHash_NewPicker b)"
| "NewPicker (balHash b) = pkHash (Hash_NewPicker b)"
| "NewPicker (balHashConsistent b) = pkChash (HashConsistent_NewPicker b)"
| "NewPicker (balRandom b) = pkRandom (Random_NewPicker b)"

text \<open>The round-robin picker that every picker type embeds.\<close>

fun embedded :: "Picker \<Rightarrow> RRPicker" where
  "embedded (pkRR rr) = rr"
| "embedded (pkLeastConn rr) = rr"
| "embedded (pkIPHash pk) = iph_rr pk"
| "embedded (pkHash pk) = hp_rr pk"
| "embedded (pkChash pk) = cp_rr pk"
| "embedded (pkRandom pk) = rp_rr pk"

fun with_embedded :: "Picker \<Rightarrow> RRPicker \<Rightarrow> Picker" where
  "with_embedded (pkRR _) rr = pkRR rr"
| "with_embedded (pkLeastConn _) rr = pkLeastConn rr"
| "with_embedded (pkIPHash pk) rr = pkIPHash (pk\<lparr>iph_rr := rr\<rparr>)"
| "with_embedded (pkHash pk) rr = pkHash (pk\<lparr>hp_rr := rr\<rparr>)"
| "with_embedded (pkChash pk) rr = pkChash (pk\<lparr>cp_rr := rr\<rparr>)"
| "with_embedded (pkRandom pk) rr = pkRandom (pk\<lparr>rp_rr := rr\<rparr>)"

definition wrap_pick :: "('a \<Rightarrow> 'b) \<Rightarrow> 'a pick_result \<Rightarrow> 'b pick_result" where
  "wrap_pick f res = (case res of Panic \<Rightarrow> Panic | Val (r, pk, w) \<Rightarrow> Val (r, f pk, w))"

fun Pick :: "Picker \<Rightarrow> world \<Rightarrow> Picker pick_result" where
  "Pick (pkRR rr) w = wrap_pick pkRR (RRPicker_Pick rr w)"
| "Pick (pkLeastConn rr) w = wrap_pick pkLeastConn (leastConnPicker_Pick rr w)"
| "Pick (pkIPHash pk) w = wrap_pick pkIPHash (ipHashPicker_Pick pk w)"
| "Pick (pkHash pk) w = wrap_pick pkHash (hashPicker_Pick pk w)"
| "Pick (pkChash pk) w = wrap_pick pkChash (chashPicker_Pick pk w)"
| "Pick (pkRandom pk) w = wrap_pick pkRandom (randomPicker_Pick pk w)"

text \<open>
  Every type delegates \<open>Done\<close> to the embedded picker by a method of its own, and \<open>doneNeutral\<close>
  is promoted from it.
\<close>

definition Done :: "peer_id option \<Rightarrow> bool \<Rightarrow> Picker \<Rightarrow> world \<Rightarrow> Picker \<times> world" where
  "Done peer failed pk w =
     (case pk of
        pkRR rr \<Rightarrow> map_prod pkRR id (RRPicker_Done peer failed rr w)
      | pkLeastConn rr \<Rightarrow> map_prod pkLeastConn id (leastConnPicker_Done peer failed rr w)
      | pkIPHash p \<Rightarrow> map_prod pkIPHash id (ipHashPicker_Done peer failed p w)
      | pkHash p \<Rightarrow> map_prod pkHash id (hashPicker_Done peer failed p w)
      | pkChash p \<Rightarrow> map_prod pkChash id (chashPicker_Done peer failed p w)
      | pkRandom p \<Rightarrow> map_prod pkRandom id (randomPicker_Done peer failed p w))"

lemma Done_embedded:
  "Done peer failed pk w =
     (case RRPicker_Done peer failed (embedded pk) w of (rr, w') \<Rightarrow> (with_embedded pk rr, w'))"
  by (cases pk) (simp_all add: Done_def leastConnPicker_Done_def ipHashPicker_Done_def hashPicker_Done_def
      chashPicker_Done_def randomPicker_Done_def map_prod_def split: prod.split)

definition doneNeutral :: "peer_id option \<Rightarrow> Picker \<Rightarrow> world \<Rightarrow> Picker \<times> world" where
  "doneNeutral peer pk w =
     (case RRPicker_doneNeutral peer (embedded pk) w of (rr, w') \<Rightarrow> (with_embedded pk rr, w'))"

record PickResult =
  res_Peer :: peer_id
  res_picker :: "Picker option"

text \<open>The receiver may be nil.\<close>

definition PickResult_Done ::
  "bool \<Rightarrow> PickResult option \<Rightarrow> world \<Rightarrow> PickResult option \<times> world" where
  "PickResult_Done failed r w =
     (case r of
        None \<Rightarrow> (r, w)
      | Some res \<Rightarrow>
          (case res_picker res of
             None \<Rightarrow> (r, w)
           | Some pk \<Rightarrow>
               (case Done (Some (res_Peer res)) failed pk w of
                  (pk', w') \<Rightarrow> (Some (res\<lparr>res_picker := Some pk'\<rparr>), w'))))"

text \<open>A nil \<open>Balancer\<close> is \<open>None\<close>; the implementations never return a nil picker.\<close>

definition PickOne :: "Balancer option \<Rightarrow> world \<Rightarrow> (PickResult option \<times> world) outcome" where
  "PickOne b w =
     (case b of
        None \<Rightarrow> Val (None, w)
      | Some bal \<Rightarrow>
          (case Pick (NewPicker bal) w of
             Panic \<Rightarrow> Panic
           | Val (None, _, w1) \<Rightarrow> Val (None, w1)
           | Val (Some p, pk, w1) \<Rightarrow> Val (Some \<lparr>res_Peer = p, res_picker = Some pk\<rparr>, w1)))"

text \<open>
  The callback \<open>tryFunc\<close> of \<open>PickWithRetry\<close> runs between two critical sections: it may
  change the state, and so may other requests meanwhile. The loop has no bound of its own;
  the model counts its iterations with fuel, and \<open>None\<close> means that the fuel ran out.
\<close>

type_synonym try_func = "string \<Rightarrow> world \<Rightarrow> error option \<times> world"

fun retry_loop ::
  "nat \<Rightarrow> try_func \<Rightarrow> Picker \<Rightarrow> world \<Rightarrow> (peer_id option \<times> error option \<times> world) outcome option" where
  "retry_loop 0 tryFunc pk w = None"
| "retry_loop (Suc fuel) tryFunc pk w =
     (case Pick pk w of
        Panic \<Rightarrow> Some Panic
      | Val (None, pk1, w1) \<Rightarrow> Some (Val (None, Some (sentinelError ErrNoPeerAvailable), w1))
      | Val (Some p, pk1, w1) \<Rightarrow>
          (case tryFunc (Addr (heap w1 p)) w1 of
             (None, w2) \<Rightarrow>
               (case Done (Some p) False pk1 w2 of (pk2, w3) \<Rightarrow> Some (Val (Some p, None, w3)))
           | (Some err, w2) \<Rightarrow>
               (case Done (Some p) True pk1 w2 of (pk2, w3) \<Rightarrow> retry_loop fuel tryFunc pk2 w3)))"

definition PickWithRetry ::
  "nat \<Rightarrow> Balancer option \<Rightarrow> try_func option \<Rightarrow> world
   \<Rightarrow> (peer_id option \<times> error option \<times> world) outcome option" where
  "PickWithRetry fuel b tryFunc w =
     (case b of
        None \<Rightarrow> Some (Val (None, Some (sentinelError ErrNilBalancer), w))
      | Some bal \<Rightarrow>
          (case tryFunc of
             None \<Rightarrow> Some (Val (None, Some (sentinelError ErrNilTryFunc), w))
           | Some f \<Rightarrow> retry_loop fuel f (NewPicker bal) w))"

section \<open>Every picker type meets the contract\<close>

fun picker_wf :: "Picker \<Rightarrow> bool" where
  "picker_wf (pkRR _) = True"
| "picker_wf (pkLeastConn _) = True"
| "picker_wf (pkIPHash pk) = iph_wf pk"
| "picker_wf (pkHash pk) = hp_wf pk"
| "picker_wf (pkChash pk) = cp_wf pk"
| "picker_wf (pkRandom pk) = rp_wf pk"

lemma wrap_pick_Val [simp]:
  "wrap_pick f (Val (r, pk, w)) = Val (r, f pk, w)" "wrap_pick f Panic = Panic"
  by (simp_all add: wrap_pick_def)

lemma Pick_ok:
  assumes "picker_wf pk" and "rr_wf (embedded pk)"
  shows "\<exists>r pk' w'. Pick pk w = Val (r, pk', w') \<and> picker_wf pk' \<and>
    pick_spec (embedded pk) w r (embedded pk') w'"
proof (cases pk)
  case (pkRR rr)
  with assms rr_picker.pick_ok [of rr w] show ?thesis by fastforce
next
  case (pkLeastConn rr)
  with assms lc_picker.pick_ok [of rr w] show ?thesis by fastforce
next
  case (pkIPHash x)
  with assms iph_picker.pick_ok [of x w] show ?thesis by fastforce
next
  case (pkHash x)
  with assms hp_picker.pick_ok [of x w] show ?thesis by fastforce
next
  case (pkChash x)
  with assms cp_picker.pick_ok [of x w] show ?thesis by fastforce
next
  case (pkRandom x)
  with assms rp_picker.pick_ok [of x w] show ?thesis by fastforce
qed

interpretation any_picker: picker Pick embedded with_embedded picker_wf
proof (unfold_locales, goal_cases)
  case (1 pk w)
  then show ?case by (rule Pick_ok)
next
  case (2 pk rr)
  then show ?case by (cases pk) simp_all
next
  case (3 pk rr)
  then show ?case
    by (cases pk)
      (simp_all add: iph_picker.wf_with_rr hp_picker.wf_with_rr cp_picker.wf_with_rr
        rp_picker.wf_with_rr)
qed

end
