(* ===== verification/Slots.thy ===== *)
theory Slots
  imports Group_Build Random_Pick
begin

text \<open>
  Weighted slots. The hash balancers walk along the weights (\<open>weight_slot\<close>), the random
  balancer searches the cumulative weights by bisection (\<open>range_search\<close>). Both find the same
  server, and every server owns as many of the slots \<open>0 .. T - 1\<close> as its weight says.
\<close>

section \<open>The walk\<close>

definition slots_ok :: "(peer_id \<Rightarrow> Peer) \<Rightarrow> peer_id list \<Rightarrow> bool" where
  "slots_ok h ps \<longleftrightarrow> (\<forall>p \<in> set ps. 0 < Weight (h p)) \<and> (\<Sum>p\<leftarrow>ps. Weight (h p)) < 2 ^ 63"

lemma slots_ok_sum_nonneg:
  "\<forall>p \<in> set ps. 0 < Weight (h p) \<Longrightarrow> 0 \<le> (\<Sum>p\<leftarrow>ps. Weight (h p))"
  by (induction ps) (auto simp: add_nonneg_nonneg less_imp_le)

lemma slots_ok_Cons:
  assumes "slots_ok h (p # ps)"
  shows "slots_ok h ps" "0 < Weight (h p)" "Weight (h p) < 2 ^ 63"
    "Weight (h p) + (\<Sum>p\<leftarrow>ps. Weight (h p)) < 2 ^ 63"
  using assms slots_ok_sum_nonneg [of ps h] by (auto simp: slots_ok_def)

lemma weight_slot_Cons:
  assumes "slots_ok h (p # ps)" and "0 \<le> x" and "x < 2 ^ 63"
  shows "weight_slot h (p # ps) x =
    (if x < Weight (h p) then Some p else weight_slot h ps (x - Weight (h p)))"
proof -
  have "in_i64 (x - Weight (h p))"
    using slots_ok_Cons(2,3) [OF assms(1)] assms(2,3) by (simp add: in_i64_def)
  then show ?thesis by (simp add: i64_id)
qed

lemma weight_slot_total:
  assumes "slots_ok h ps" and "0 \<le> x" and "x < (\<Sum>p\<leftarrow>ps. Weight (h p))"
  shows "\<exists>p \<in> set ps. weight_slot h ps x = Some p"
  using assms
proof (induction ps arbitrary: x)
  case (Cons p ps)
  note s = slots_ok_Cons [OF Cons.prems(1)]
  have x: "x < 2 ^ 63" using Cons.prems(3) s(4) by simp
  show ?case
  proof (cases "x < Weight (h p)")
    case True
    then show ?thesis using weight_slot_Cons [OF Cons.prems(1,2) x] by simp
  next
    case False
    with Cons.IH [OF s(1), of "x - Weight (h p)"] Cons.prems(3)
      weight_slot_Cons [OF Cons.prems(1,2) x] show ?thesis by auto
  qed
qed simp

text \<open>A server owns exactly its weight in slots.\<close>

lemma weight_slot_share:
  assumes "slots_ok h ps" and "distinct ps" and "p \<in> set ps"
  shows "int (card {x. 0 \<le> x \<and> x < (\<Sum>p\<leftarrow>ps. Weight (h p)) \<and> weight_slot h ps x = Some p}) =
    Weight (h p)"
  using assms
proof (induction ps)
  case (Cons q ps)
  note s = slots_ok_Cons [OF Cons.prems(1)]
  let ?W = "Weight (h q)" and ?T = "\<Sum>p\<leftarrow>ps. Weight (h p)"
  have T: "0 \<le> ?T" using s(1) by (intro slots_ok_sum_nonneg) (simp add: slots_ok_def)
  have step: "weight_slot h (q # ps) x =
      (if x < ?W then Some q else weight_slot h ps (x - ?W))" if "0 \<le> x" "x < ?W + ?T" for x
    using that s(4) by (intro weight_slot_Cons [OF Cons.prems(1)]) auto
  have mem: "weight_slot h ps y = Some p \<Longrightarrow> p \<in> set ps" for y by (rule weight_slot_mem)
  show ?case
  proof (cases "p = q")
    case True
    have "{x. 0 \<le> x \<and> x < ?W + ?T \<and> weight_slot h (q # ps) x = Some p} = {0..<?W}"
      using True step mem Cons.prems(2) T by (auto split: if_splits)
    then show ?thesis using True s(2) by simp
  next
    case False
    have "{x. 0 \<le> x \<and> x < ?W + ?T \<and> weight_slot h (q # ps) x = Some p} =
        (\<lambda>y. y + ?W) ` {y. 0 \<le> y \<and> y < ?T \<and> weight_slot h ps y = Some p}"
      (is "?A = ?f ` ?B")
    proof (intro set_eqI iffI)
      fix x
      assume "x \<in> ?A"
      then have "x - ?W \<in> ?B" using step [of x] False by (auto split: if_splits)
      then show "x \<in> ?f ` ?B" by (rule rev_image_eqI) simp
    next
      fix x
      assume "x \<in> ?f ` ?B"
      then obtain y where "y \<in> ?B" "x = y + ?W" by blast
      then show "x \<in> ?A" using step [of x] s(2) by auto
    qed
    then have "card ?A = card ?B" by (simp add: card_image)
    with False Cons.IH [OF s(1)] Cons.prems(2,3) show ?thesis by simp
  qed
qed simp

section \<open>The bisection\<close>

text \<open>The first range whose upper bound exceeds the draw, found by a scan.\<close>

definition first_range :: "weightRange list \<Rightarrow> int \<Rightarrow> peer_id option" where
  "first_range rs x = map_option wr_peer (find (\<lambda>r. x < upper r) rs)"

lemma range_search_first:
  assumes "\<And>i j. i \<le> j \<Longrightarrow> j \<le> hi \<Longrightarrow> upper (rs ! i) \<le> upper (rs ! j)"
    and "lo \<le> hi" and "x < upper (rs ! hi)" and "\<And>i. i < lo \<Longrightarrow> upper (rs ! i) \<le> x"
  shows "x < upper (rs ! range_search rs x lo hi) \<and>
    (\<forall>i < range_search rs x lo hi. upper (rs ! i) \<le> x)"
  using assms
proof (induction rs x lo hi rule: range_search.induct)
  case (1 rs x lo hi)
  let ?mid = "(lo + hi) div 2"
  show ?case
  proof (cases "lo < hi")
    case False
    then have "range_search rs x lo hi = lo" by (simp add: range_search.simps [of rs x lo hi])
    moreover have "lo = hi" using False "1.prems"(2) by simp
    ultimately show ?thesis using "1.prems"(3,4) by simp
  next
    case lt: True
    show ?thesis
    proof (cases "upper (rs ! ?mid) \<le> x")
      case True
      have "upper (rs ! i) \<le> x" if "i < ?mid + 1" for i
        using "1.prems"(1) [of i ?mid] that True lt by fastforce
      with "1.IH"(1) [OF lt refl True "1.prems"(1)] "1.prems"(3) lt
      have "x < upper (rs ! range_search rs x (?mid + 1) hi) \<and>
          (\<forall>i < range_search rs x (?mid + 1) hi. upper (rs ! i) \<le> x)" by auto
      with lt True show ?thesis by (simp add: range_search.simps [of rs x lo hi])
    next
      case False
      have "upper (rs ! i) \<le> upper (rs ! j)" if "i \<le> j" "j \<le> ?mid" for i j
        using "1.prems"(1) [of i j] that lt by simp
      with "1.IH"(2) [OF lt refl False] "1.prems"(4) lt False
      have "x < upper (rs ! range_search rs x lo ?mid) \<and>
          (\<forall>i < range_search rs x lo ?mid. upper (rs ! i) \<le> x)" by auto
      with lt False show ?thesis by (simp add: range_search.simps [of rs x lo hi])
    qed
  qed
qed

lemma find_nth:
  assumes "i < length rs" and "P (rs ! i)" and "\<forall>j < i. \<not> P (rs ! j)"
  shows "find P rs = Some (rs ! i)"
  using assms
proof (induction rs arbitrary: i)
  case (Cons r rs)
  show ?case
  proof (cases i)
    case 0
    with Cons.prems show ?thesis by simp
  next
    case (Suc k)
    with Cons.prems(3) have "\<not> P r" by auto
    moreover from Suc Cons.prems have "find P rs = Some (rs ! k)" by (intro Cons.IH) auto
    ultimately show ?thesis using Suc by simp
  qed
qed simp

text \<open>The ranges that the constructor builds.\<close>

lemma build_ranges_length [simp]: "length (build_ranges h ps c) = length ps"
  by (induction ps arbitrary: c) (simp_all add: Let_def)

lemma build_ranges_peer: "map wr_peer (build_ranges h ps c) = ps"
  by (induction ps arbitrary: c) (simp_all add: Let_def)

lemma build_ranges_upper:
  assumes "\<forall>p \<in> set ps. 0 < Weight (h p)" and "0 \<le> c" and "c + (\<Sum>p\<leftarrow>ps. Weight (h p)) < 2 ^ 63"
    and "i < length ps"
  shows "upper (build_ranges h ps c ! i) = c + (\<Sum>p\<leftarrow>take (Suc i) ps. Weight (h p))"
  using assms
proof (induction ps arbitrary: c i)
  case (Cons p ps)
  have T: "0 \<le> (\<Sum>p\<leftarrow>ps. Weight (h p))" using Cons.prems(1) by (intro slots_ok_sum_nonneg) simp
  have W: "0 < Weight (h p)" using Cons.prems(1) by simp
  have c: "i64 (c + Weight (h p)) = c + Weight (h p)"
    using Cons.prems(2,3) T W by (intro i64_id) (simp add: in_i64_def)
  show ?case
  proof (cases i)
    case 0
    then show ?thesis by (simp add: Let_def c)
  next
    case (Suc k)
    then show ?thesis
      using Cons.IH [of "c + Weight (h p)" k] Cons.prems W by (simp add: Let_def c)
  qed
qed simp

lemma sum_take_mono:
  assumes "\<forall>p \<in> set ps. 0 < Weight (h p)" and "i \<le> j"
  shows "(\<Sum>p\<leftarrow>take i ps. Weight (h p)) \<le> (\<Sum>p\<leftarrow>take j ps. Weight (h p))"
proof -
  have "take j ps = take i ps @ take (j - i) (drop i ps)"
    using assms(2) by (metis le_add_diff_inverse take_add)
  moreover have "0 \<le> (\<Sum>p\<leftarrow>take (j - i) (drop i ps). Weight (h p))"
    using assms(1) by (intro slots_ok_sum_nonneg) (auto dest: in_set_takeD in_set_dropD)
  ultimately show ?thesis by simp
qed

text \<open>The scan of the ranges is the walk along the weights.\<close>

lemma first_range_walk:
  assumes "slots_ok h ps" and "0 \<le> c" and "c \<le> x" and "x < c + (\<Sum>p\<leftarrow>ps. Weight (h p))"
    and "c + (\<Sum>p\<leftarrow>ps. Weight (h p)) < 2 ^ 63"
  shows "first_range (build_ranges h ps c) x = weight_slot h ps (x - c)"
  using assms
proof (induction ps arbitrary: c)
  case (Cons p ps)
  note s = slots_ok_Cons [OF Cons.prems(1)]
  have T: "0 \<le> (\<Sum>p\<leftarrow>ps. Weight (h p))" using s(1) by (intro slots_ok_sum_nonneg) (simp add: slots_ok_def)
  have c: "i64 (c + Weight (h p)) = c + Weight (h p)"
    using Cons.prems(2,5) T s(2) by (intro i64_id) (simp add: in_i64_def)
  have w: "weight_slot h (p # ps) (x - c) =
      (if x - c < Weight (h p) then Some p else weight_slot h ps (x - c - Weight (h p)))"
    using Cons.prems(2-5) by (intro weight_slot_Cons [OF Cons.prems(1)]) auto
  show ?case
  proof (cases "x - c < Weight (h p)")
    case True
    then have "weight_slot h (p # ps) (x - c) = Some p" using w by (simp del: weight_slot.simps)
    with True show ?thesis by (simp add: first_range_def Let_def c del: weight_slot.simps)
  next
    case False
    then have "first_range (build_ranges h ps (c + Weight (h p))) x =
        weight_slot h ps (x - (c + Weight (h p)))"
      using Cons.prems(2-5) s(1,2) by (intro Cons.IH) auto
    moreover from False have "weight_slot h (p # ps) (x - c) = weight_slot h ps (x - c - Weight (h p))"
      using w by (simp del: weight_slot.simps)
    ultimately show ?thesis
      using False by (simp add: first_range_def Let_def c diff_diff_eq del: weight_slot.simps)
  qed
qed simp

lemma range_search_walk:
  assumes s: "slots_ok h ps" and x: "0 \<le> x" "x < (\<Sum>p\<leftarrow>ps. Weight (h p))"
  shows "Some (wr_peer (build_ranges h ps 0 !
      range_search (build_ranges h ps 0) x 0 (length ps - 1))) = weight_slot h ps x"
proof -
  let ?rs = "build_ranges h ps 0" and ?i = "range_search (build_ranges h ps 0) x 0 (length ps - 1)"
  have ne: "ps \<noteq> []" using x by auto
  have up: "upper (?rs ! i) = (\<Sum>p\<leftarrow>take (Suc i) ps. Weight (h p))" if "i < length ps" for i
    using build_ranges_upper [of ps h 0 i] s that by (simp add: slots_ok_def)
  have mono: "upper (?rs ! i) \<le> upper (?rs ! j)" if "i \<le> j" "j \<le> length ps - 1" for i j
  proof -
    have "j < length ps" "i < length ps" using that ne by (cases ps; simp)+
    then show ?thesis
      using that(1) sum_take_mono [of ps h "Suc i" "Suc j"] s by (simp add: up slots_ok_def)
  qed
  have last: "x < upper (?rs ! (length ps - 1))" using ne x by (simp add: up)
  have "x < upper (?rs ! ?i) \<and> (\<forall>i < ?i. upper (?rs ! i) \<le> x)"
    using mono last by (intro range_search_first) auto
  moreover have "?i < length ?rs"
    using range_search_bound [of 0 "length ps - 1" ?rs x] ne by (simp add: le_less_trans)
  ultimately have "find (\<lambda>r. x < upper r) ?rs = Some (?rs ! ?i)"
    by (intro find_nth) (auto simp: not_less)
  then have "first_range ?rs x = Some (wr_peer (?rs ! ?i))" by (simp add: first_range_def)
  with first_range_walk [OF s order_refl] x s show ?thesis by (simp add: slots_ok_def)
qed

lemma randomSelect_walk:
  assumes s: "slots_ok h (Peers grp)" and r: "ranges (rp_balancer pk) = build_ranges h (Peers grp) 0"
    and t: "TotalWeight grp = (\<Sum>p\<leftarrow>Peers grp. Weight (h p))"
    and x: "0 \<le> intn (rp_balancer pk) (draws w) (TotalWeight grp)"
      "intn (rp_balancer pk) (draws w) (TotalWeight grp) < TotalWeight grp"
  shows "randomSelect grp pk w =
    Val (weight_slot h (Peers grp) (intn (rp_balancer pk) (draws w) (TotalWeight grp)),
         w\<lparr>draws := Suc (draws w)\<rparr>)"
proof -
  have "Peers grp \<noteq> []" using x t by auto
  then have "ranges (rp_balancer pk) \<noteq> []" using r by (metis build_ranges_length length_0_conv)
  with x r range_search_walk [OF s, of "intn (rp_balancer pk) (draws w) (TotalWeight grp)"] t
  show ?thesis by (simp add: randomSelect_def Let_def)
qed

end
