(* ===== verification/Affinity.thy ===== *)
theory Affinity
  imports Balancer Slots
begin

text \<open>
  Affinity of the hash balancers (\<open>src/iphash.go\<close>, \<open>src/hash.go\<close>): which inputs are sent to the
  same server, the divisor that makes hashing panic, and the conditions on the weights under
  which it cannot.
\<close>

section \<open>IPv4 networks\<close>

text \<open>
  The candidate loop reads the address only through its first \<open>addrLen\<close> bytes, and never the
  field \<open>clientIP\<close> of the picker.
\<close>

abbreviation set_ip :: "byte list \<Rightarrow> ipHashPicker \<Rightarrow> ipHashPicker" where
  "set_ip ip pk \<equiv> pk\<lparr>clientIP_of := ip\<rparr>"

lemma ipHash_loop_addr:
  assumes "take (addrLen a) a = take (addrLen b) b"
  shows "ipHash_loop b grp now hash (set_ip ip pk) w =
    wrap_pick (set_ip ip) (ipHash_loop a grp now hash pk w)"
  using assms
proof (induction a grp now hash pk w rule: ipHash_loop.induct)
  case (1 a grp now hash pk w)
  let ?h = "fold_addr (take (addrLen a) a) hash"
  show ?case
  proof (cases "maxIPHashTries < iph_tries pk \<or> total_u32 grp = 0")
    case True
    then show ?thesis
      by (auto simp: ipHash_loop.simps [of b] ipHash_loop.simps [of a] wrap_pick_def Let_def)
  next
    case go: False
    show ?thesis
    proof (cases "weight_slot (heap w) (Peers grp) (uint (?h mod total_u32 grp))")
      case None
      with go 1(2) show ?thesis
        by (simp add: ipHash_loop.simps [of b] ipHash_loop.simps [of a] Let_def)
    next
      case (Some p)
      obtain ok w1 where c: "candidate_ok (iph_rr pk) p w = (ok, w1)" by fastforce
      show ?thesis
      proof (cases ok)
        case True
        obtain rr' w2 where "commitPeer p now (iph_rr pk) w1 = (rr', w2)" by fastforce
        with True c Some go 1(2) show ?thesis
          by (simp add: ipHash_loop.simps [of b] ipHash_loop.simps [of a] Let_def)
      next
        case False
        let ?pk = "pk\<lparr>iph_tries := i64 (iph_tries pk + 1)\<rparr>"
        have "ipHash_loop b grp now ?h (set_ip ip ?pk) w1 =
            wrap_pick (set_ip ip) (ipHash_loop a grp now ?h ?pk w1)"
          using 1(1) [OF _ refl _ Some c [symmetric]] False go 1(2) c by simp
        moreover have "set_ip ip ?pk = (set_ip ip pk)\<lparr>iph_tries := i64 (iph_tries pk + 1)\<rparr>"
          by simp
        ultimately have "ipHash_loop b grp now ?h
            ((set_ip ip pk)\<lparr>iph_tries := i64 (iph_tries pk + 1)\<rparr>) w1 =
            wrap_pick (set_ip ip) (ipHash_loop a grp now ?h ?pk w1)" by (simp only:)
        then show ?thesis
          using False c Some go 1(2)
          by (simp add: ipHash_loop.simps [of b grp now hash] ipHash_loop.simps [of a grp now hash]
              Let_def)
      qed
    qed
  qed
qed

lemma ipHash_fallback_ip:
  "ipHash_fallback (set_ip ip pk) w = wrap_pick (set_ip ip) (ipHash_fallback pk w)"
  by (simp add: ipHash_fallback_def wrap_pick_def split: outcome.split prod.split)

text \<open>Two IPv4 addresses of one /24 network: the same choice, the same state.\<close>

definition same_net :: "byte list \<Rightarrow> byte list \<Rightarrow> bool" where
  "same_net a b \<longleftrightarrow>
     (case (To4 a, To4 b) of (Some x, Some y) \<Rightarrow> take 3 x = take 3 y | _ \<Rightarrow> False)"

lemma To4_length: "To4 a = Some x \<Longrightarrow> length x = 4"
  by (auto simp: To4_def split: if_splits)

lemma same_net_pick:
  assumes "same_net a b"
  shows "ipHashPicker_Pick (NewPickerForIP b h) w =
    wrap_pick (set_ip b) (ipHashPicker_Pick (NewPickerForIP a h) w)"
proof -
  from assms obtain x y where xy: "To4 a = Some x" "To4 b = Some y" "take 3 x = take 3 y"
    by (auto simp: same_net_def split: option.splits)
  have ha: "hash_addr a = Some x" "hash_addr b = Some y" by (simp_all add: hash_addr_def xy)
  have ne: "a \<noteq> []" "b \<noteq> []" using xy by (auto simp: To4_def)
  let ?pa = "NewPickerForIP a h"
  have pb: "NewPickerForIP b h = set_ip b ?pa" by (simp add: NewPickerForIP_def)
  have len: "take (addrLen x) x = take (addrLen y) y"
    using To4_length [OF xy(1)] To4_length [OF xy(2)] xy(3) by (simp add: addrLen_def)
  note loop = ipHash_loop_addr [OF len, where ip = b and pk = ?pa]
  have ip: "clientIP_of ?pa = a" by (simp add: NewPickerForIP_def)
  obtain now w1 where n: "time_Now w = (now, w1)" by fastforce
  let ?g = "ipHash_group (iph_rr ?pa)"
  show ?thesis
  proof (cases "ipHash_loop x ?g now (iph_hash ?pa) ?pa w1")
    case Panic
    with loop [of ?g now "iph_hash ?pa" w1] show ?thesis
      unfolding pb by (simp add: ipHashPicker_Pick_def Let_def ip ne ha n ipHash_fallback_ip)
  next
    case (Val res)
    obtain r pk' w2 where "res = (r, pk', w2)" by (cases res)
    with Val loop [of ?g now "iph_hash ?pa" w1] show ?thesis
      unfolding pb
      by (cases r) (simp_all add: ipHashPicker_Pick_def Let_def ip ne ha n ipHash_fallback_ip)
  qed
qed

section \<open>The divisor\<close>

text \<open>A total weight that is a multiple of \<open>2 ^ 32\<close> becomes zero as a \<open>uint32\<close>.\<close>

lemma total_u32_zero_iff: "total_u32 g = 0 \<longleftrightarrow> 2 ^ 32 dvd TotalWeight g"
  by (simp add: total_u32_def word_of_int_eq_0_iff)

lemma total_u32_small:
  assumes "0 < TotalWeight g" and "TotalWeight g < 2 ^ 32"
  shows "total_u32 g \<noteq> 0"
  using assms zdvd_not_zless unfolding total_u32_zero_iff by blast

lemma ipHash_panics:
  assumes "2 ^ 32 dvd TotalWeight (primary (ip_rr h))" and "2 \<le> length (Peers (primary (ip_rr h)))"
    and "hash_addr ip \<noteq> None"
  shows "ipHashPicker_Pick (NewPickerForIP ip h) w = Panic"
proof -
  obtain a where a: "hash_addr ip = Some a" using assms(3) by blast
  have "ip \<noteq> []" using assms(3) by (auto simp: hash_addr_def To4_def To16_def)
  moreover have "ipHash_loop a (primary (ip_rr h)) now 89 (NewPickerForIP ip h) w' = Panic" for now w'
    using assms(1)
    by (simp add: ipHash_loop.simps [of a] Let_def total_u32_zero_iff maxIPHashTries_def
        NewPickerForIP_def)
  ultimately show ?thesis
    using assms(2) a
    by (simp add: ipHashPicker_Pick_def Let_def ipHash_group_def NewPickerForIP_def NewRRPicker_def
        split: prod.split)
qed

lemma hash_panics:
  assumes "2 ^ 32 dvd TotalWeight (primary (h_rr h))" and "2 \<le> length (Peers (primary (h_rr h)))"
    and "key \<noteq> ''''"
  shows "hashPicker_Pick (Hash_NewPickerForKey key h) w = Panic"
proof -
  have "hash_loop (primary (h_rr h)) now (Hash_NewPickerForKey key h) w' = Panic" for now w'
    using assms(1)
    by (simp add: hash_loop.simps Let_def total_u32_zero_iff maxHashTries_def
        Hash_NewPickerForKey_def)
  with assms(2,3) show ?thesis
    by (simp add: hashPicker_Pick_def Let_def Hash_NewPickerForKey_def NewRRPicker_def
        split: prod.split)
qed

end
