(* ===== verification/Loops.thy ===== *)
theory Loops
  imports Cslb_Prelude
begin

text \<open>
  Loops without a bound of their own. The code repeats a step until it returns; the model
  counts the iterations with fuel, and \<open>None\<close> means that the fuel ran out. The locale states
  what such a model is and gives, once for all loops, the rule for total correctness and the
  fact that more fuel never changes a result.
\<close>

locale fuelled_loop =
  fixes step :: "'s \<Rightarrow> ('r + 's) outcome" and run :: "nat \<Rightarrow> 's \<Rightarrow> 'r outcome option"
  assumes run_0: "run 0 s = None"
    and run_Suc: "run (Suc fuel) s =
      (case step s of
         Panic \<Rightarrow> Some Panic
       | Val (Inl r) \<Rightarrow> Some (Val r)
       | Val (Inr s') \<Rightarrow> run fuel s')"
begin

lemma total_correctness:
  assumes step: "\<And>s. I s \<Longrightarrow> \<exists>r. step s = Val r \<and>
      (case r of Inl x \<Rightarrow> Q x | Inr s' \<Rightarrow> I s' \<and> m s' < (m s :: nat))"
    and "I s" and "m s < fuel"
  shows "\<exists>x. run fuel s = Some (Val x) \<and> Q x"
  using assms(2,3)
proof (induction fuel arbitrary: s)
  case (Suc fuel)
  obtain r where r: "step s = Val r" "case r of Inl x \<Rightarrow> Q x | Inr s' \<Rightarrow> I s' \<and> m s' < m s"
    using step [OF Suc.prems(1)] by blast
  show ?case
  proof (cases r)
    case (Inl x)
    with r show ?thesis by (simp add: run_Suc)
  next
    case (Inr s')
    with r Suc.prems(2) have "I s'" "m s' < fuel" by auto
    from Suc.IH [OF this] Inr r(1) show ?thesis by (simp add: run_Suc)
  qed
qed simp

lemma more_fuel: "run fuel s = Some x \<Longrightarrow> fuel \<le> fuel' \<Longrightarrow> run fuel' s = Some x"
proof (induction fuel arbitrary: s fuel')
  case 0
  then show ?case by (simp add: run_0)
next
  case (Suc fuel)
  obtain k where k: "fuel' = Suc k" "fuel \<le> k" using Suc.prems(2) by (cases fuel') auto
  show ?case
  proof (cases "step s")
    case (Val r)
    with Suc.prems(1) k Suc.IH show ?thesis by (cases r) (simp_all add: run_Suc)
  qed (use Suc.prems(1) k in \<open>simp add: run_Suc\<close>)
qed

end

end
