(* ===== verification/Retry.thy ===== *)
theory Retry
  imports Balancer Loops
begin

text \<open>
  \<open>PickWithRetry\<close> of \<open>src/balancer.go\<close>: it returns, it gives every connection back, and it
  finds a working server when there is one.
\<close>

section \<open>Done on any picker\<close>

lemma Done_eq:
  assumes "rr_done (Some p) failed False (embedded pk) w = (rr', w')"
  shows "Done (Some p) failed pk w = (with_embedded pk rr', w')"
  by (simp add: Done_embedded RRPicker_Done_def assms)

lemma Done_cases:
  assumes wf: "picker_wf pk" and rr: "rr_wf (embedded pk)"
  obtains pk' w' where "Done (Some p) failed pk w = (pk', w')" "picker_wf pk'"
    "rr_wf (embedded pk')" "done_spec p (embedded pk) w (embedded pk') w'"
    "remaining (embedded pk') = remaining (embedded pk)"
proof -
  obtain rr' w' where d: "rr_done (Some p) failed False (embedded pk) w = (rr', w')" by fastforce
  have e: "embedded (with_embedded pk rr') = rr'" by (rule any_picker.rr_of_with_rr)
  have "picker_wf (with_embedded pk rr')"
    by (rule any_picker.wf_with_rr [OF wf]) (rule rr_done_picker [OF d])+
  with Done_eq [OF d] e rr_done_wf [OF d rr] rr_done_spec [OF d] rr_done_remaining [OF d] that
  show thesis by metis
qed

section \<open>The loop\<close>

definition retry_step ::
  "try_func \<Rightarrow> Picker \<times> world \<Rightarrow> ((peer_id option \<times> error option \<times> world) + (Picker \<times> world)) outcome" where
  "retry_step tryFunc s =
     (case s of (pk, w) \<Rightarrow>
       (case Pick pk w of
          Panic \<Rightarrow> Panic
        | Val (None, pk1, w1) \<Rightarrow> Val (Inl (None, Some (sentinelError ErrNoPeerAvailable), w1))
        | Val (Some p, pk1, w1) \<Rightarrow>
            (case tryFunc (Addr (heap w1 p)) w1 of
               (None, w2) \<Rightarrow> Val (Inl (Some p, None, snd (Done (Some p) False pk1 w2)))
             | (Some err, w2) \<Rightarrow> Val (Inr (Done (Some p) True pk1 w2)))))"

interpretation retry: fuelled_loop "retry_step tryFunc" "\<lambda>fuel (pk, w). retry_loop fuel tryFunc pk w" for tryFunc
  by unfold_locales
    (auto simp: retry_step_def split: prod.split outcome.split option.split)

text \<open>
  The callback may do anything to the state: the picker alone bounds the loop, since every
  iteration picks a peer it had not tried.
\<close>

lemma retry_step_cases:
  assumes "picker_wf pk" and "rr_wf (embedded pk)"
  obtains (exhausted) rr1 w1 where
      "retry_step tryFunc (pk, w) = Val (Inl (None, Some (sentinelError ErrNoPeerAvailable), w1))"
      "pick_spec (embedded pk) w None rr1 w1"
  | (answered) p pk1 w1 e w2 pk2 w3 where "pick_spec (embedded pk) w (Some p) (embedded pk1) w1"
      "tryFunc (Addr (heap w1 p)) w1 = (e, w2)"
      "retry_step tryFunc (pk, w) = Val (if e = None then Inl (Some p, None, w3) else Inr (pk2, w3))"
      "picker_wf pk2" "rr_wf (embedded pk2)" "done_spec p (embedded pk1) w2 (embedded pk2) w3"
      "remaining (embedded pk2) < remaining (embedded pk)"
proof (cases rule: any_picker.pick_cases [OF assms, of w, case_names none some])
  case (none pk1 w1)
  then show thesis by (intro exhausted [of w1 "embedded pk1"]) (simp_all add: retry_step_def)
next
  case (some p pk1 w1)
  obtain e w2 where t: "tryFunc (Addr (heap w1 p)) w1 = (e, w2)" by fastforce
  obtain pk2 w3 where d: "Done (Some p) (e \<noteq> None) pk1 w2 = (pk2, w3)" "picker_wf pk2"
    "rr_wf (embedded pk2)" "done_spec p (embedded pk1) w2 (embedded pk2) w3"
    "remaining (embedded pk2) = remaining (embedded pk1)"
    using Done_cases [OF some(2,3)] by metis
  with some t show thesis
    by (intro answered [of p pk1 w1 e w2 w3 pk2]) (auto simp: retry_step_def split: option.splits)
qed

text \<open>An invariant that every iteration keeps gives a postcondition, and the loop returns.\<close>

lemma retry_loop_rule:
  assumes step: "\<And>pk w. picker_wf pk \<Longrightarrow> rr_wf (embedded pk) \<Longrightarrow> I pk w \<Longrightarrow>
      (case retry_step tryFunc (pk, w) of
         Val (Inl x) \<Rightarrow> Q x
       | Val (Inr (pk', w')) \<Rightarrow> I pk' w'
       | Panic \<Rightarrow> False)"
    and "picker_wf pk" and "rr_wf (embedded pk)" and "I pk w" and "remaining (embedded pk) < fuel"
  shows "\<exists>x. retry_loop fuel tryFunc pk w = Some (Val x) \<and> Q x"
proof -
  let ?I = "\<lambda>(pk, w). picker_wf pk \<and> rr_wf (embedded pk) \<and> I pk w"
  let ?m = "\<lambda>(pk :: Picker, _ :: world). remaining (embedded pk)"
  have "\<exists>r. retry_step tryFunc s = Val r \<and> (case r of Inl x \<Rightarrow> Q x | Inr s' \<Rightarrow> ?I s' \<and> ?m s' < ?m s)"
    if inv: "?I s" for s
  proof -
    obtain pk w where s: "s = (pk, w)" "picker_wf pk" "rr_wf (embedded pk)" "I pk w" using inv by (cases s) simp
    from s(2,3) show ?thesis
    proof (cases rule: retry_step_cases [where tryFunc = tryFunc and w = w])
      case (exhausted rr1 w1)
      with step [OF s(2-4)] s(1) show ?thesis by simp
    next
      case (answered p pk1 w1 e w2 pk2 w3)
      with step [OF s(2-4)] s(1) show ?thesis by (cases e) simp_all
    qed
  qed
  from retry.total_correctness [where I = ?I and m = ?m and s = "(pk, w)", OF this] assms(2-5)
  show ?thesis by simp
qed

lemma retry_loop_returns:
  assumes "picker_wf pk" and "rr_wf (embedded pk)" and "remaining (embedded pk) < fuel"
  shows "\<exists>res. retry_loop fuel tryFunc pk w = Some (Val res)"
proof -
  have "case retry_step tryFunc (pk, w) of Val (Inl x) \<Rightarrow> True | Val (Inr (pk', w')) \<Rightarrow> True | Panic \<Rightarrow> False"
    if "picker_wf pk" "rr_wf (embedded pk)" for pk w
    using that by (cases rule: retry_step_cases [where tryFunc = tryFunc and w = w]) auto
  from retry_loop_rule [where I = "\<lambda>_ _. True" and Q = "\<lambda>_. True", OF this assms(1,2) _ assms(3)]
  show ?thesis by blast
qed

section \<open>Connections\<close>

text \<open>What one attempt leaves behind when the callback keeps the store.\<close>

definition conns_in_range :: "world \<Rightarrow> bool" where
  "conns_in_range w \<longleftrightarrow> (\<forall>q. in_i64 (conns (heap w q)))"

lemma attempt_conns:
  assumes "pick_spec rr w (Some p) rr1 w1" and "heap w2 = heap w1" and "done_spec p rr2 w2 rr3 w3"
    and "conns_in_range w"
  shows "conns (heap w3 q) = conns (heap w q)" and "settings (heap w3 q) = settings (heap w q)"
proof -
  have "in_i64 (conns (heap w p))" using assms(4) by (simp add: conns_in_range_def)
  then have "i64 (i64 (conns (heap w p) + 1) - 1) = conns (heap w p)" by (simp add: i64_id)
  with assms(1-3) show "conns (heap w3 q) = conns (heap w q)"
    by (cases "q = p") (auto simp: pick_spec_def done_spec_def)
  show "settings (heap w3 q) = settings (heap w q)"
    using assms(1-3) by (cases "q = p") (auto simp: pick_spec_def pick_frame_def done_spec_def)
qed

text \<open>The result does not depend on the fuel, so enough fuel may be assumed.\<close>

lemma retry_loop_conns:
  assumes "picker_wf pk" and "rr_wf (embedded pk)"
    and "\<And>a u. heap (snd (tryFunc a u)) = heap u" and "conns_in_range w"
    and "retry_loop fuel tryFunc pk w = Some (Val (r, e, w'))"
  shows "(\<forall>q. conns (heap w' q) = conns (heap w q)) \<and> (\<forall>q. settings (heap w' q) = settings (heap w q))"
proof -
  let ?same = "\<lambda>u. \<forall>q. conns (heap u q) = conns (heap w q) \<and> settings (heap u q) = settings (heap w q)"
  let ?fuel = "fuel + Suc (remaining (embedded pk))"
  have step: "case retry_step tryFunc (pk, u) of
      Val (Inl (r, e, u')) \<Rightarrow> ?same u' | Val (Inr (pk', u')) \<Rightarrow> ?same u' | Panic \<Rightarrow> False"
    if "picker_wf pk" "rr_wf (embedded pk)" and same: "?same u" for pk u
    using that(1,2)
  proof (cases rule: retry_step_cases [where tryFunc = tryFunc and w = u])
    case (exhausted rr1 w1)
    with same show ?thesis by (simp add: pick_spec_def)
  next
    case (answered p pk1 w1 er w2 pk2 w3)
    have h: "heap w2 = heap w1" using assms(3) [of "Addr (heap w1 p)" w1] answered(2) by simp
    have "conns_in_range u" using assms(4) same by (simp add: conns_in_range_def)
    from attempt_conns [OF answered(1) h answered(6) this] same answered(3) show ?thesis
      by (cases er) simp_all
  qed
  have "\<exists>x. retry_loop ?fuel tryFunc pk w = Some (Val x) \<and> (case x of (r, e, u) \<Rightarrow> ?same u)"
    by (rule retry_loop_rule [where I = "\<lambda>_. ?same"]) (use step assms(1,2) in \<open>auto split: outcome.splits sum.splits\<close>)
  moreover have "retry_loop ?fuel tryFunc pk w = Some (Val (r, e, w'))"
    using retry.more_fuel [of fuel tryFunc "(pk, w)" _ ?fuel] assms(5) by simp
  ultimately show ?thesis by simp
qed

section \<open>A working server is found\<close>

text \<open>A server that no health or connection limit can ever rule out.\<close>

definition always_ready :: "Peer \<Rightarrow> bool" where
  "always_ready q \<longleftrightarrow> \<not> Down q \<and> MaxConns q \<le> 0 \<and> MaxFails q \<le> 0"

lemma always_ready_cong: "settings q = settings r \<Longrightarrow> always_ready q = always_ready r"
  by (simp add: always_ready_def settings_def)

lemma settings_Addr: "settings q = settings r \<Longrightarrow> Addr q = Addr r"
  by (simp add: settings_def)

lemma always_ready_available:
  "always_ready (heap w p) \<Longrightarrow> unavailable rr w w' p \<longleftrightarrow> tried rr p"
  by (auto simp: always_ready_def unavailable_def conns_full_def dead_between_def failed_out_def)

text \<open>A picker that has not tried such a server, and still considers it, keeps both.\<close>

lemma ready_pick_none:
  assumes "pick_spec rr w None rr' w'" and "always_ready (heap w p)" and "p \<in> considered rr"
  shows "tried rr p"
  using assms always_ready_available by (auto simp: pick_spec_def)

lemma ready_pick_some:
  assumes sp: "pick_spec rr w (Some q) rr' w'" and rdy: "always_ready (heap w p)"
    and c: "p \<in> considered rr" and t: "\<not> tried rr p" and n: "q \<noteq> p"
  shows "p \<in> considered rr' \<and> \<not> tried rr' p"
proof -
  have g: "rr_primary rr' = rr_primary rr" "backup_peers rr' = backup_peers rr"
    "tried rr' = (tried rr)(q := True)" "backupPhase rr \<longrightarrow> backupPhase rr'"
    using sp by (auto simp: pick_spec_def backup_peers_def)
  have "p \<notin> set (Peers (rr_primary rr))" if "\<not> backupPhase rr" "backupPhase rr'"
    using that sp t always_ready_available [OF rdy] by (auto simp: pick_spec_def)
  with c g t n show ?thesis by (auto simp: considered_def split: if_splits)
qed

lemma retry_loop_finds:
  assumes "picker_wf pk" and "rr_wf (embedded pk)" and "remaining (embedded pk) < fuel"
    and keep: "\<And>a u q. settings (heap (snd (tryFunc a u)) q) = settings (heap u q)"
    and works: "\<And>u. fst (tryFunc addr u) = None"
    and "always_ready (heap w p)" and "Addr (heap w p) = addr"
    and "p \<in> considered (embedded pk)" and "\<not> tried (embedded pk) p"
  shows "\<exists>q w'. retry_loop fuel tryFunc pk w = Some (Val (Some q, None, w'))"
proof -
  let ?I = "\<lambda>pk u. settings (heap u p) = settings (heap w p) \<and> p \<in> considered (embedded pk) \<and>
    \<not> tried (embedded pk) p"
  have "case retry_step tryFunc (pk, u) of
      Val (Inl (r, e, _)) \<Rightarrow> r \<noteq> None \<and> e = None | Val (Inr (pk', u')) \<Rightarrow> ?I pk' u' | Panic \<Rightarrow> False"
    if "picker_wf pk" "rr_wf (embedded pk)" and I: "?I pk u" for pk u
    using that(1,2)
  proof (cases rule: retry_step_cases [where tryFunc = tryFunc and w = u])
    case (exhausted rr1 w1)
    with ready_pick_none [OF exhausted(2)] I assms(6) always_ready_cong show ?thesis by blast
  next
    case (answered q pk1 w1 e w2 pk2 w3)
    have s1: "settings (heap w1 x) = settings (heap u x)" for x
      using answered(1) by (simp add: pick_spec_def pick_frame_def)
    show ?thesis
    proof (cases e)
      case (Some x)
      have "Addr (heap w1 p) = addr" using settings_Addr [OF s1 [of p]] I settings_Addr assms(7) by metis
      then have "q \<noteq> p" using works [of w1] Some answered(2) by auto
      have rdy: "always_ready (heap u p)" using I assms(6) always_ready_cong by blast
      from ready_pick_some [OF answered(1) rdy _ _ \<open>q \<noteq> p\<close>] I answered(6)
      have "p \<in> considered (embedded pk2)" "\<not> tried (embedded pk2) p"
        by (auto simp: done_spec_def considered_def backup_peers_def)
      moreover have "settings (heap w2 p) = settings (heap w1 p)"
        using keep [where q = p and u = w1 and a = "Addr (heap w1 q)"] answered(2) by simp
      ultimately show ?thesis
        using Some answered(3,6) s1 I \<open>q \<noteq> p\<close> by (auto simp: done_spec_def)
    qed (use answered(3) in simp)
  qed
  then have "\<exists>x. retry_loop fuel tryFunc pk w = Some (Val x) \<and> (case x of (r, e, _) \<Rightarrow> r \<noteq> None \<and> e = None)"
    by (intro retry_loop_rule [where I = ?I, OF _ assms(1,2) _ assms(3)])
      (use assms(8,9) in \<open>auto split: outcome.splits sum.splits\<close>)
  then show ?thesis by auto
qed

end
