(* ===== verification/Sections.thy ===== *)
theory Sections
  imports Balancer
begin

text \<open>
  The critical sections of \<open>Pick\<close>: what runs between \<open>group.mu.Lock()\<close> and the \<open>Unlock()\<close> that
  follows. Between two sections of one \<open>Pick\<close> no lock is held, and other requests may run. A
  picker of the hash or random type starts with a section of its own (\<open>iphash.go\<close>, \<open>hash.go\<close>,
  \<open>chash.go\<close> and \<open>random.go\<close> unlock before they call \<open>RRPicker.Pick\<close>); \<open>pickWithBackup\<close> then calls
  \<open>pickFromGroup\<close>, which locks and unlocks one group, for the primary and for the backup group.
  The mutexes themselves are not modelled: a section is one step.
\<close>

section \<open>The sections\<close>

datatype phase = OwnPhase | PrimaryPhase | BackupPhase

datatype section_end = Ends "peer_id option" | GoesOn phase

fun own_section :: "Picker \<Rightarrow> world \<Rightarrow> Picker pick_result" where
  "own_section (pkRR rr) w = Val (None, pkRR rr, w)"
| "own_section (pkLeastConn rr) w = Val (None, pkLeastConn rr, w)"
| "own_section (pkIPHash pk) w = wrap_pick pkIPHash (ipHash_section pk w)"
| "own_section (pkHash pk) w = wrap_pick pkHash (hash_section pk w)"
| "own_section (pkChash pk) w = wrap_pick pkChash (chash_section pk w)"
| "own_section (pkRandom pk) w = wrap_pick pkRandom (random_section pk w)"

fun group_pick_of :: "Picker \<Rightarrow> group_pick" where
  "group_pick_of (pkLeastConn _) = leastConn_pickFromGroup"
| "group_pick_of _ = pickFromGroup"

text \<open>What one section does with the result of a selection: stop at a peer, or go on.\<close>

definition stop_or :: "phase \<Rightarrow> Picker pick_result \<Rightarrow> (section_end \<times> Picker \<times> world) outcome" where
  "stop_or ph res =
     (case res of
        Panic \<Rightarrow> Panic
      | Val (Some p, pk, w) \<Rightarrow> Val (Ends (Some p), pk, w)
      | Val (None, pk, w) \<Rightarrow> Val (GoesOn ph, pk, w))"

fun Pick_section :: "phase \<Rightarrow> Picker \<Rightarrow> world \<Rightarrow> (section_end \<times> Picker \<times> world) outcome" where
  "Pick_section OwnPhase pk w = stop_or PrimaryPhase (own_section pk w)"
| "Pick_section PrimaryPhase pk w =
     (if backupPhase (embedded pk) then Val (GoesOn BackupPhase, pk, w)
      else stop_or BackupPhase
             (wrap_pick (with_embedded pk)
               (pickFromCurrentGroup (group_pick_of pk) (rr_primary (embedded pk)) (embedded pk) w)))"
| "Pick_section BackupPhase pk w =
     (case wrap_pick (with_embedded pk) (pickFromBackup (group_pick_of pk) (embedded pk) w) of
        Panic \<Rightarrow> Panic
      | Val (r, pk1, w1) \<Rightarrow> Val (Ends r, pk1, w1))"

fun phase_rank :: "phase \<Rightarrow> nat" where
  "phase_rank OwnPhase = 2"
| "phase_rank PrimaryPhase = 1"
| "phase_rank BackupPhase = 0"

lemma Pick_section_rank:
  "Pick_section ph pk w = Val (GoesOn ph', pk', w') \<Longrightarrow> phase_rank ph' < phase_rank ph"
  by (cases ph) (auto simp: stop_or_def split: outcome.splits option.splits prod.splits if_splits)

text \<open>The sections of one \<open>Pick\<close>, with nothing in between.\<close>

function run_sections :: "phase \<Rightarrow> Picker \<Rightarrow> world \<Rightarrow> Picker pick_result" where
  "run_sections ph pk w =
     (case Pick_section ph pk w of
        Panic \<Rightarrow> Panic
      | Val (Ends r, pk1, w1) \<Rightarrow> Val (r, pk1, w1)
      | Val (GoesOn ph1, pk1, w1) \<Rightarrow> run_sections ph1 pk1 w1)"
  by pat_completeness auto
termination
  by (relation "measure (\<lambda>(ph, _, _). phase_rank ph)") (auto dest: Pick_section_rank)

declare run_sections.simps [simp del]

section \<open>A whole pick is its sections\<close>

lemma embedded_with [simp]:
  "embedded (with_embedded pk rr) = rr" "with_embedded (with_embedded pk rr) rr' = with_embedded pk rr'"
  "with_embedded pk (embedded pk) = pk" "group_pick_of (with_embedded pk rr) = group_pick_of pk"
  by (cases pk; simp)+

lemma run_BackupPhase:
  "run_sections BackupPhase pk w = wrap_pick (with_embedded pk) (pickFromBackup (group_pick_of pk) (embedded pk) w)"
  by (subst run_sections.simps) (auto simp: wrap_pick_def split: outcome.split)

lemma run_PrimaryPhase:
  "run_sections PrimaryPhase pk w = wrap_pick (with_embedded pk) (pickWithBackup (group_pick_of pk) (embedded pk) w)"
  by (subst run_sections.simps)
    (auto simp: run_BackupPhase pickWithBackup_def stop_or_def wrap_pick_def
      split: outcome.split option.split prod.split)

lemma run_OwnPhase:
  "run_sections OwnPhase pk w =
     (case own_section pk w of
        Panic \<Rightarrow> Panic
      | Val (Some p, pk1, w1) \<Rightarrow> Val (Some p, pk1, w1)
      | Val (None, pk1, w1) \<Rightarrow> run_sections PrimaryPhase pk1 w1)"
  by (subst run_sections.simps) (auto simp: stop_or_def split: outcome.split option.split prod.split)

lemma run_sections_Pick: "run_sections OwnPhase pk w = Pick pk w"
proof (cases pk)
  case (pkRR rr)
  then show ?thesis by (simp add: run_OwnPhase run_PrimaryPhase RRPicker_Pick_def wrap_pick_def split: outcome.split)
next
  case (pkLeastConn rr)
  then show ?thesis by (simp add: run_OwnPhase run_PrimaryPhase leastConnPicker_Pick_def wrap_pick_def split: outcome.split)
qed (simp_all add: run_OwnPhase run_PrimaryPhase ipHashPicker_Pick_split hashPicker_Pick_split
    chashPicker_Pick_split randomPicker_Pick_split section_or_rr_def RRPicker_Pick_def wrap_pick_def
    split: outcome.split option.split prod.split)

section \<open>The contract of a section\<close>

text \<open>A section that takes a peer: an admissible one of the groups, and one connection of it.\<close>

definition commit_spec :: "RRPicker \<Rightarrow> world \<Rightarrow> peer_id \<Rightarrow> RRPicker \<Rightarrow> world \<Rightarrow> bool" where
  "commit_spec rr w p rr' w' \<longleftrightarrow>
     rr_primary rr' = rr_primary rr \<and> rr_backup rr' = rr_backup rr \<and> rr_wf rr' \<and> pick_frame w w' \<and>
     p \<in> pool rr \<and> \<not> tried rr p \<and> \<not> Down (heap w p) \<and> \<not> conns_full (heap w p) \<and>
     (p \<in> set (backup_peers rr) \<longrightarrow> backupPhase rr') \<and> tried rr' = (tried rr)(p := True) \<and>
     (\<forall>q. conns (heap w' q) = (if q = p then i64 (conns (heap w p) + 1) else conns (heap w q))) \<and>
     (\<forall>ps. ps = Peers (rr_primary rr) \<or> ps = backup_peers rr \<longrightarrow>
        balanced ps (heap w) \<longrightarrow> weights_fit ps (heap w) \<longrightarrow> balanced ps (heap w'))"

text \<open>A section that takes none leaves the store alone.\<close>

definition pass_spec :: "RRPicker \<Rightarrow> world \<Rightarrow> RRPicker \<Rightarrow> world \<Rightarrow> bool" where
  "pass_spec rr w rr' w' \<longleftrightarrow>
     rr_primary rr' = rr_primary rr \<and> rr_backup rr' = rr_backup rr \<and> rr_wf rr' \<and>
     tried rr' = tried rr \<and> time_passes w w' \<and> heap w' = heap w"

definition section_result :: "RRPicker \<Rightarrow> world \<Rightarrow> peer_id option \<Rightarrow> RRPicker \<Rightarrow> world \<Rightarrow> bool" where
  "section_result rr w r rr' w' =
     (case r of None \<Rightarrow> pass_spec rr w rr' w' | Some p \<Rightarrow> commit_spec rr w p rr' w')"

lemma pick_section_result: "pick_spec rr w r rr' w' \<Longrightarrow> section_result rr w r rr' w'"
  by (cases r) (auto simp: pick_spec_def pick_frame_def section_result_def pass_spec_def commit_spec_def)

lemma section_result_of:
  assumes "rr_wf rr" and "section_spec ps rr w r rr' w'"
    and "ps = Peers (rr_primary rr) \<or> ps = backup_peers rr \<and> backupPhase rr"
  shows "section_result rr w r rr' w'"
proof (cases r)
  case None
  with assms show ?thesis by (simp add: section_spec_def section_result_def pass_spec_def)
next
  case (Some p)
  with section_pick [OF assms(1) _ assms(3)] assms(2) pick_section_result show ?thesis by blast
qed

text \<open>The own section of every type is one of the four, or empty.\<close>

lemma own_section_ok:
  assumes "picker_wf pk" and "rr_wf (embedded pk)"
  shows "\<exists>r pk' w'. own_section pk w = Val (r, pk', w') \<and> picker_wf pk' \<and>
    section_result (embedded pk) w r (embedded pk') w'"
proof (cases pk)
  case (pkIPHash x)
  with assms iph_section.sect_ok [of x w] section_result_of show ?thesis by fastforce
next
  case (pkHash x)
  with assms hp_section.sect_ok [of x w] section_result_of show ?thesis by fastforce
next
  case (pkChash x)
  with assms cp_section.sect_ok [of x w] section_result_of show ?thesis by fastforce
next
  case (pkRandom x)
  with assms rp_section.sect_ok [of x w] section_result_of show ?thesis by fastforce
qed (use assms in \<open>simp_all add: section_result_def pass_spec_def\<close>)

lemma group_pick_of_ok: "group_picker (group_pick_of pk)"
  by (cases pk) (simp_all add: rr_group.group_picker_axioms lc_group.group_picker_axioms)

lemma primary_section_ok:
  assumes wf: "rr_wf rr" and ph: "\<not> backupPhase rr"
  shows "\<exists>r rr' w'. pickFromCurrentGroup (group_pick_of pk) (rr_primary rr) rr w = Val (r, rr', w') \<and>
    section_result rr w r rr' w'"
proof (cases "single (rr_primary rr)")
  case True
  from single_pick [OF wf True, of w] obtain r rr' w' where
    "pickFromGroup (rr_primary rr) rr w = Val (r, rr', w')" "pick_spec rr w r rr' w'" by blast
  with pick_section_result True show ?thesis by (simp add: pickFromCurrentGroup_def)
next
  case False
  have d: "distinct (Peers (rr_primary rr))" using wf by (simp add: rr_wf_def groups_wf_def)
  show ?thesis
  proof (rule group_picker.current_group_section [OF group_pick_of_ok [of pk] d False, of rr w])
    fix r rr' w'
    assume "pickFromCurrentGroup (group_pick_of pk) (rr_primary rr) rr w = Val (r, rr', w')"
      and "section_spec (Peers (rr_primary rr)) rr w r rr' w'"
    with section_result_of [OF wf] show ?thesis by blast
  qed
qed

lemma backup_section_ok:
  assumes wf: "rr_wf rr"
  shows "\<exists>r rr' w'. pickFromBackup (group_pick_of pk) rr w = Val (r, rr', w') \<and> section_result rr w r rr' w'"
proof (cases "backupPhase rr")
  case True
  from group_picker.backup_section [OF group_pick_of_ok wf True, of pk w] obtain r rr' w' where
    "pickFromBackup (group_pick_of pk) rr w = Val (r, rr', w')" "pick_spec rr w r rr' w'" by blast
  with pick_section_result show ?thesis by blast
next
  case ph: False
  show ?thesis
  proof (cases "rr_backup rr")
    case None
    with wf show ?thesis
      by (simp add: pickFromBackup_def backupGroupForPick_def section_result_def pass_spec_def)
  next
    case (Some g)
    let ?rr = "rr\<lparr>backupPhase := True\<rparr>"
    note e = group_picker.enter_backup [OF group_pick_of_ok [of pk] wf ph Some]
    from group_picker.backup_section [OF group_pick_of_ok e(2), of pk w] obtain r rr' w' where
      b: "pickFromBackup (group_pick_of pk) ?rr w = Val (r, rr', w')" "pick_spec ?rr w r rr' w'" by auto
    from pick_section_result [OF b(2)] have "section_result rr w r rr' w'"
      by (cases r) (simp_all add: section_result_def pass_spec_def commit_spec_def pool_def backup_peers_def)
    with b(1) e(1) show ?thesis by simp
  qed
qed

lemma picker_wf_with:
  assumes "picker_wf pk" and "section_result (embedded pk) w r rr' w'"
  shows "picker_wf (with_embedded pk rr')"
  using assms by (intro any_picker.wf_with_rr)
    (auto simp: section_result_def pass_spec_def commit_spec_def split: option.splits)

text \<open>Every section of a well-formed picker returns and meets its contract.\<close>

lemma Pick_section_ok:
  assumes "picker_wf pk" and "rr_wf (embedded pk)"
  obtains (ends) r pk' w' where "Pick_section ph pk w = Val (Ends r, pk', w')" "picker_wf pk'"
      "section_result (embedded pk) w r (embedded pk') w'"
  | (goes_on) ph' pk' w' where "Pick_section ph pk w = Val (GoesOn ph', pk', w')" "picker_wf pk'"
      "pass_spec (embedded pk) w (embedded pk') w'"
proof (cases ph)
  case OwnPhase
  from own_section_ok [OF assms, of w] obtain r pk' w' where
    "own_section pk w = Val (r, pk', w')" "picker_wf pk'" "section_result (embedded pk) w r (embedded pk') w'"
    by blast
  with OwnPhase ends goes_on show thesis by (cases r) (auto simp: stop_or_def section_result_def)
next
  case PrimaryPhase
  show thesis
  proof (cases "backupPhase (embedded pk)")
    case True
    with PrimaryPhase assms goes_on show thesis by (auto simp: pass_spec_def)
  next
    case False
    from primary_section_ok [OF assms(2) this, of pk w] obtain r rr' w' where
      "pickFromCurrentGroup (group_pick_of pk) (rr_primary (embedded pk)) (embedded pk) w = Val (r, rr', w')"
      and s: "section_result (embedded pk) w r rr' w'" by blast
    with picker_wf_with [OF assms(1) s] PrimaryPhase False ends goes_on show thesis
      by (cases r) (auto simp: stop_or_def section_result_def)
  qed
next
  case BackupPhase
  from backup_section_ok [OF assms(2), of pk w] obtain r rr' w' where
    "pickFromBackup (group_pick_of pk) (embedded pk) w = Val (r, rr', w')"
    and s: "section_result (embedded pk) w r rr' w'" by blast
  with picker_wf_with [OF assms(1) s] BackupPhase ends show thesis by auto
qed

end
