(* ===== verification/Interleaving.thy ===== *)
theory Interleaving
  imports Retry Sections "HOL-Library.Multiset"
begin

text \<open>
  Several requests share one balancer. Each request owns a picker; the critical sections of
  \<open>Pick\<close> and \<open>Done\<close> of different requests follow each other in any order, and other requests may
  run between two sections of one \<open>Pick\<close>. The step relation has one rule per way to create a
  picker, rules for the start of a pick and for its sections, and one each for \<open>Done\<close> and
  \<open>doneNeutral\<close>; a request reports a peer only after it picked it, and not in the middle of
  another pick.
\<close>

section \<open>States and steps\<close>

record lb_state =
  store :: world
  pickers :: "nat \<rightharpoonup> Picker"
  picked :: "(nat \<times> peer_id) multiset"
  phases :: "nat \<rightharpoonup> phase"

definition start_state :: "world \<Rightarrow> lb_state" where
  "start_state w = \<lparr>store = w, pickers = Map.empty, picked = {#}, phases = Map.empty\<rparr>"

inductive lb_step :: "Balancer \<Rightarrow> lb_state \<Rightarrow> lb_state \<Rightarrow> bool" for b where
  new: "pickers s r = None \<Longrightarrow> lb_step b s (s\<lparr>pickers := (pickers s)(r \<mapsto> NewPicker b)\<rparr>)"
| new_ip: "pickers s r = None \<Longrightarrow> b = balIPHash h \<Longrightarrow>
    lb_step b s (s\<lparr>pickers := (pickers s)(r \<mapsto> pkIPHash (NewPickerForIP ip h))\<rparr>)"
| new_key: "pickers s r = None \<Longrightarrow> b = balHash h \<Longrightarrow>
    lb_step b s (s\<lparr>pickers := (pickers s)(r \<mapsto> pkHash (Hash_NewPickerForKey key h))\<rparr>)"
| new_ring_key: "pickers s r = None \<Longrightarrow> b = balHashConsistent h \<Longrightarrow>
    lb_step b s (s\<lparr>pickers := (pickers s)(r \<mapsto> pkChash (HashConsistent_NewPickerForKey key h))\<rparr>)"
| pick_start: "pickers s r = Some pk \<Longrightarrow> phases s r = None \<Longrightarrow>
    lb_step b s (s\<lparr>phases := (phases s)(r \<mapsto> OwnPhase)\<rparr>)"
| pick_on: "pickers s r = Some pk \<Longrightarrow> phases s r = Some ph \<Longrightarrow>
    Pick_section ph pk (store s) = Val (GoesOn ph', pk', w') \<Longrightarrow>
    lb_step b s (s\<lparr>store := w', pickers := (pickers s)(r \<mapsto> pk'), phases := (phases s)(r \<mapsto> ph')\<rparr>)"
| pick_none: "pickers s r = Some pk \<Longrightarrow> phases s r = Some ph \<Longrightarrow>
    Pick_section ph pk (store s) = Val (Ends None, pk', w') \<Longrightarrow>
    lb_step b s (s\<lparr>store := w', pickers := (pickers s)(r \<mapsto> pk'), phases := (phases s)(r := None)\<rparr>)"
| pick_some: "pickers s r = Some pk \<Longrightarrow> phases s r = Some ph \<Longrightarrow>
    Pick_section ph pk (store s) = Val (Ends (Some p), pk', w') \<Longrightarrow>
    lb_step b s (s\<lparr>store := w', pickers := (pickers s)(r \<mapsto> pk'), phases := (phases s)(r := None),
                   picked := add_mset (r, p) (picked s)\<rparr>)"
| report: "pickers s r = Some pk \<Longrightarrow> phases s r = None \<Longrightarrow> (r, p) \<in># picked s \<Longrightarrow>
    Done (Some p) failed pk (store s) = (pk', w') \<Longrightarrow>
    lb_step b s (s\<lparr>store := w', pickers := (pickers s)(r \<mapsto> pk'),
                   picked := picked s - {#(r, p)#}\<rparr>)"
| report_neutral: "pickers s r = Some pk \<Longrightarrow> phases s r = None \<Longrightarrow> (r, p) \<in># picked s \<Longrightarrow>
    doneNeutral (Some p) pk (store s) = (pk', w') \<Longrightarrow>
    lb_step b s (s\<lparr>store := w', pickers := (pickers s)(r \<mapsto> pk'),
                   picked := picked s - {#(r, p)#}\<rparr>)"

inductive_cases lb_stepE: "lb_step b s s'"

definition outstanding :: "lb_state \<Rightarrow> peer_id \<Rightarrow> nat" where
  "outstanding s p = count (image_mset snd (picked s)) p"

section \<open>Balancers\<close>

fun base :: "Balancer \<Rightarrow> RoundRobin" where
  "base (balRoundRobin b) = b"
| "base (balLeastConn b) = lc_rr b"
| "base (balIPHash b) = ip_rr b"
| "base (balHash b) = h_rr b"
| "base (balHashConsistent b) = hc_rr b"
| "base (balRandom b) = rd_rr b"

text \<open>What the constructors establish, and what a picker of the balancer then is.\<close>

fun algorithm_wf :: "Balancer \<Rightarrow> bool" where
  "algorithm_wf (balRoundRobin b) = True"
| "algorithm_wf (balLeastConn b) = True"
| "algorithm_wf (balIPHash b) = divisors_ok (NewRRPicker (primary (ip_rr b)) (backup (ip_rr b)))"
| "algorithm_wf (balHash b) = divisors_ok (NewRRPicker (primary (h_rr b)) (backup (h_rr b)))"
| "algorithm_wf (balHashConsistent b) = (int (length (points b)) + 21 < 2 ^ 63)"
| "algorithm_wf (balRandom b) = (map wr_peer (ranges b) = Peers (primary (rd_rr b)))"

definition balancer_wf :: "Balancer \<Rightarrow> bool" where
  "balancer_wf b \<longleftrightarrow> groups_wf (primary (base b)) (backup (base b)) \<and> algorithm_wf b"

definition picker_of :: "Balancer \<Rightarrow> Picker \<Rightarrow> bool" where
  "picker_of b pk \<longleftrightarrow>
     picker_wf pk \<and> rr_wf (embedded pk) \<and>
     rr_primary (embedded pk) = primary (base b) \<and> rr_backup (embedded pk) = backup (base b)"

lemma NewRRPicker_wf: "groups_wf p b \<Longrightarrow> rr_wf (NewRRPicker p b)"
  by (simp add: rr_wf_def NewRRPicker_def)

lemma NewPicker_of:
  assumes "balancer_wf b"
  shows "picker_of b (NewPicker b)"
    and "b = balIPHash h \<Longrightarrow> picker_of b (pkIPHash (NewPickerForIP ip h))"
    and "b = balHash h1 \<Longrightarrow> picker_of b (pkHash (Hash_NewPickerForKey key h1))"
    and "b = balHashConsistent h2 \<Longrightarrow> picker_of b (pkChash (HashConsistent_NewPickerForKey key h2))"
  using assms
  by (cases b; simp add: balancer_wf_def picker_of_def NewRRPicker_wf RoundRobin_NewPicker_def
      LeastConn_NewPicker_def IPHash_NewPicker_def NewPickerForIP_def Hash_NewPicker_def
      Hash_NewPickerForKey_def HashConsistent_NewPicker_def HashConsistent_NewPickerForKey_def
      Random_NewPicker_def NewRRPicker_def iph_wf_def hp_wf_def cp_wf_def rp_wf_def rr_wf_def)+

section \<open>The invariant\<close>

definition group_lists :: "Balancer \<Rightarrow> peer_id list set" where
  "group_lists b =
     {Peers (primary (base b)),
      (case backup (base b) of None \<Rightarrow> [] | Some g \<Rightarrow> Peers g)}"

text \<open>A store that the configuration leaves behind.\<close>

definition fresh_store :: "Balancer \<Rightarrow> world \<Rightarrow> bool" where
  "fresh_store b w \<longleftrightarrow>
     (\<forall>p. conns (heap w p) = 0 \<and> MaxConns (heap w p) < 2 ^ 63) \<and>
     (\<forall>ps \<in> group_lists b. balanced ps (heap w) \<and> weights_fit ps (heap w))"

definition lb_inv :: "Balancer \<Rightarrow> world \<Rightarrow> lb_state \<Rightarrow> bool" where
  "lb_inv b w0 s \<longleftrightarrow>
     (\<forall>r pk. pickers s r = Some pk \<longrightarrow> picker_of b pk) \<and>
     dom (phases s) \<subseteq> dom (pickers s) \<and>
     (\<forall>q. settings (heap (store s) q) = settings (heap w0 q)) \<and>
     (\<forall>q. conns (heap (store s) q) = i64 (int (outstanding s q))) \<and>
     (\<forall>q. 0 < MaxConns (heap w0 q) \<longrightarrow> int (outstanding s q) \<le> MaxConns (heap w0 q)) \<and>
     (\<forall>ps \<in> group_lists b. balanced ps (heap (store s)))"

lemma lb_inv_start:
  "fresh_store b w \<Longrightarrow> lb_inv b w (start_state w)"
  by (auto simp: fresh_store_def lb_inv_def start_state_def outstanding_def)

lemma weights_fit_settings:
  assumes "\<And>q. settings (h q) = settings (h' q)"
  shows "weights_fit ps h = weights_fit ps h'"
  using settings_Weight [OF assms] by (simp add: weights_fit_def weight_sum_def)

text \<open>Shared by the steps that pick: what the contract says in terms of the balancer.\<close>

lemma picker_of_backup:
  "picker_of b pk \<Longrightarrow>
     group_lists b = {Peers (rr_primary (embedded pk)), backup_peers (embedded pk)}"
  by (simp add: picker_of_def group_lists_def backup_peers_def)

lemma picker_of_step:
  assumes "picker_of b pk" and "Pick_section ph pk w = Val (e, pk', w')"
  shows "picker_of b pk'"
    and "e = Ends (Some p) \<Longrightarrow> commit_spec (embedded pk) w p (embedded pk') w'"
    and "e = Ends None \<or> e = GoesOn ph' \<Longrightarrow> heap w' = heap w"
proof -
  have wf: "picker_wf pk" "rr_wf (embedded pk)" using assms(1) by (simp_all add: picker_of_def)
  note case_rule = Pick_section_ok [OF wf, of ph w, case_names ends goes_on]
  show "picker_of b pk'"
    by (cases rule: case_rule) (use assms in \<open>auto simp: picker_of_def section_result_def pass_spec_def
        commit_spec_def split: option.splits\<close>)
  show "commit_spec (embedded pk) w p (embedded pk') w'" if "e = Ends (Some p)"
    by (cases rule: case_rule) (use assms that in \<open>auto simp: section_result_def\<close>)
  show "heap w' = heap w" if "e = Ends None \<or> e = GoesOn ph'"
    by (cases rule: case_rule) (use assms that in \<open>auto simp: section_result_def pass_spec_def\<close>)
qed

lemma commit_keeps_balance:
  assumes "picker_of b pk" and "commit_spec (embedded pk) w p (embedded pk') w'"
    and "\<forall>ps \<in> group_lists b. balanced ps (heap w) \<and> weights_fit ps (heap w)"
  shows "\<forall>ps \<in> group_lists b. balanced ps (heap w')"
  using assms(2,3) unfolding picker_of_backup [OF assms(1)] commit_spec_def by blast

lemma outstanding_add:
  "outstanding (s\<lparr>store := w, pickers := k, phases := f, picked := add_mset (r, p) (picked s)\<rparr>) q =
     outstanding s q + (if q = p then 1 else 0)"
  by (simp add: outstanding_def)

lemma outstanding_remove:
  assumes "(r, p) \<in># picked s"
  shows "outstanding s q =
    outstanding (s\<lparr>store := w, pickers := k, picked := picked s - {#(r, p)#}\<rparr>) q +
      (if q = p then 1 else 0)"
proof -
  from assms obtain M where "picked s = add_mset (r, p) M" by (blast dest: multi_member_split)
  then show ?thesis by (simp add: outstanding_def)
qed

lemma outstanding_frame [simp]:
  "outstanding (s\<lparr>pickers := k\<rparr>) q = outstanding s q"
  "outstanding (s\<lparr>store := w\<rparr>) q = outstanding s q"
  "outstanding (s\<lparr>phases := f\<rparr>) q = outstanding s q"
  by (simp_all add: outstanding_def)

text \<open>A report, neutral or not, as one update of the embedded picker.\<close>

lemma picker_of_report:
  assumes "picker_of b pk" and "rr_done (Some p) failed neutral (embedded pk) w = (rr', w')"
  shows "picker_of b (with_embedded pk rr')" and "done_spec p (embedded pk) w rr' w'"
proof -
  have "picker_wf (with_embedded pk rr')"
    using assms(1) rr_done_picker [OF assms(2)]
    by (intro any_picker.wf_with_rr) (auto simp: picker_of_def)
  then show "picker_of b (with_embedded pk rr')"
    using assms(1) rr_done_picker [OF assms(2)] rr_done_wf [OF assms(2)]
    by (simp add: picker_of_def any_picker.rr_of_with_rr)
  show "done_spec p (embedded pk) w rr' w'" by (rule rr_done_spec [OF assms(2)])
qed

lemma lb_inv_new:
  assumes "lb_inv b w0 s" and "picker_of b pk"
  shows "lb_inv b w0 (s\<lparr>pickers := (pickers s)(r \<mapsto> pk)\<rparr>)"
  using assms by (auto simp: lb_inv_def)

lemma lb_inv_fits:
  assumes "lb_inv b w0 s" and "fresh_store b w0"
  shows "\<forall>ps \<in> group_lists b. balanced ps (heap (store s)) \<and> weights_fit ps (heap (store s))"
proof -
  have "weights_fit ps (heap (store s)) = weights_fit ps (heap w0)" for ps
    using assms(1) by (intro weights_fit_settings) (simp add: lb_inv_def)
  with assms show ?thesis by (simp add: lb_inv_def fresh_store_def)
qed

text \<open>A section that takes no peer.\<close>

lemma lb_inv_pass:
  assumes inv: "lb_inv b w0 s" and r: "pickers s r = Some pk"
    and p: "Pick_section ph pk (store s) = Val (e, pk', w')" and e: "e = Ends None \<or> e = GoesOn ph'"
  shows "lb_inv b w0 (s\<lparr>store := w', pickers := (pickers s)(r \<mapsto> pk'), phases := (phases s)(r := x)\<rparr>)"
proof -
  have pk: "picker_of b pk" using inv r by (simp add: lb_inv_def)
  from inv picker_of_step(1,3) [OF pk p] e show ?thesis by (auto simp: lb_inv_def)
qed

text \<open>The limit on connections: a pick needs room, and the counter is exact below the limit.\<close>

lemma room_for_one:
  assumes "lb_inv b w0 s" and "fresh_store b w0" and "\<not> conns_full (heap (store s) p)"
    and "0 < MaxConns (heap w0 p)"
  shows "int (outstanding s p) < MaxConns (heap w0 p)"
proof -
  have le: "int (outstanding s p) \<le> MaxConns (heap w0 p)" "MaxConns (heap w0 p) < 2 ^ 63"
    using assms by (auto simp: lb_inv_def fresh_store_def)
  then have "conns (heap (store s) p) = int (outstanding s p)"
    using assms(1) by (simp add: lb_inv_def i64_id in_i64_def)
  moreover have "MaxConns (heap (store s) p) = MaxConns (heap w0 p)"
    using assms(1) by (simp add: lb_inv_def settings_def)
  ultimately show ?thesis using assms(3,4) by (simp add: conns_full_def)
qed

lemma lb_inv_pick_some:
  assumes inv: "lb_inv b w0 s" and fs: "fresh_store b w0" and r: "pickers s r = Some pk"
    and p: "Pick_section ph pk (store s) = Val (Ends (Some p), pk', w')"
  shows "lb_inv b w0 (s\<lparr>store := w', pickers := (pickers s)(r \<mapsto> pk'), phases := (phases s)(r := None),
                        picked := add_mset (r, p) (picked s)\<rparr>)"
proof -
  have pk: "picker_of b pk" using inv r by (simp add: lb_inv_def)
  note k = picker_of_step(1,2) [OF pk p]
  from k(2) have sp: "settings (heap w' q) = settings (heap (store s) q)"
    "conns (heap w' q) = i64 (conns (heap (store s) q) + (if q = p then 1 else 0))
      \<or> q \<noteq> p \<and> conns (heap w' q) = conns (heap (store s) q)"
    "\<not> conns_full (heap (store s) p)" for q
    by (auto simp: commit_spec_def pick_frame_def)
  note bal = commit_keeps_balance [OF pk k(2) [OF refl] lb_inv_fits [OF inv fs]]
  have c: "conns (heap w' q) = i64 (int (outstanding s q + (if q = p then 1 else 0)))" for q
    using inv sp(2) [of q] by (auto simp: lb_inv_def add.commute)
  have "int (outstanding s q + (if q = p then 1 else 0)) \<le> MaxConns (heap w0 q)"
    if "0 < MaxConns (heap w0 q)" for q
    using room_for_one [OF inv fs sp(3)] that inv by (auto simp: lb_inv_def)
  with inv k(1) sp(1) c bal show ?thesis
    unfolding lb_inv_def outstanding_add by auto
qed

lemma lb_inv_report:
  assumes inv: "lb_inv b w0 s" and fs: "fresh_store b w0" and r: "pickers s r = Some pk"
    and m: "(r, p) \<in># picked s"
    and d: "rr_done (Some p) failed neutral (embedded pk) (store s) = (rr', w')"
  shows "lb_inv b w0 (s\<lparr>store := w', pickers := (pickers s)(r \<mapsto> with_embedded pk rr'),
                        picked := picked s - {#(r, p)#}\<rparr>)"
    (is "lb_inv b w0 ?s")
proof -
  have pk: "picker_of b pk" using inv r by (simp add: lb_inv_def)
  note k = picker_of_report [OF pk d]
  note o = outstanding_remove [OF m, where w = w' and k = "(pickers s)(r \<mapsto> with_embedded pk rr')"]
  have "conns (heap w' q) = i64 (int (outstanding ?s q))" for q
    using inv k(2) o [of q] by (cases "q = p") (auto simp: lb_inv_def done_spec_def)
  moreover have "settings (heap w' q) = settings (heap w0 q)" for q
    using inv k(2) by (cases "q = p") (auto simp: lb_inv_def done_spec_def)
  moreover have "int (outstanding ?s q) \<le> MaxConns (heap w0 q)" if "0 < MaxConns (heap w0 q)" for q
    using inv that o [of q] by (auto simp: lb_inv_def split: if_splits)
  moreover have "balanced ps (heap w')" if "ps \<in> group_lists b" for ps
    using that lb_inv_fits [OF inv fs] k(2) by (auto simp: done_spec_def)
  ultimately show ?thesis using inv k(1) by (auto simp: lb_inv_def)
qed

lemma lb_inv_step:
  assumes "lb_step b s s'" and inv: "lb_inv b w0 s" and fs: "fresh_store b w0" and b: "balancer_wf b"
  shows "lb_inv b w0 s'"
  using assms(1)
proof cases
  case (pick_start r pk)
  with inv show ?thesis by (auto simp: lb_inv_def)
next
  case (pick_on r pk ph ph' pk' w')
  with inv show ?thesis by (auto intro: lb_inv_pass)
next
  case (pick_none r pk ph pk' w')
  with inv show ?thesis by (auto intro: lb_inv_pass)
next
  case (pick_some r pk ph p pk' w')
  with inv fs show ?thesis by (auto intro: lb_inv_pick_some)
next
  case (report r pk p failed pk' w')
  then show ?thesis
    using lb_inv_report [OF inv fs report(2,4), of failed False]
    by (auto simp: Done_embedded RRPicker_Done_def split: prod.splits)
next
  case (report_neutral r pk p pk' w')
  then show ?thesis
    using lb_inv_report [OF inv fs report_neutral(2,4), of False True]
    by (auto simp: doneNeutral_def RRPicker_doneNeutral_def split: prod.splits)
qed (use inv NewPicker_of [OF b] in \<open>auto intro: lb_inv_new\<close>)

lemma lb_inv_reachable:
  assumes "(lb_step b)\<^sup>*\<^sup>* (start_state w0) s" and "fresh_store b w0" and "balancer_wf b"
  shows "lb_inv b w0 s"
  using assms(1)
proof induction
  case base
  show ?case by (rule lb_inv_start [OF assms(2)])
next
  case (step s s')
  show ?case by (rule lb_inv_step [OF step(2,3) assms(2,3)])
qed

section \<open>A pick without interruption\<close>

text \<open>The sections of a \<open>Pick\<close> may also follow each other at once: then they are the whole \<open>Pick\<close>.\<close>

definition after_pick :: "nat \<Rightarrow> peer_id option \<Rightarrow> Picker \<Rightarrow> world \<Rightarrow> lb_state \<Rightarrow> lb_state" where
  "after_pick r res pk w s =
     s\<lparr>store := w, pickers := (pickers s)(r \<mapsto> pk), phases := (phases s)(r := None),
       picked := (case res of None \<Rightarrow> picked s | Some p \<Rightarrow> add_mset (r, p) (picked s))\<rparr>"

lemma after_pick_frame:
  "after_pick r res pk' w' (s\<lparr>phases := (phases s)(r := x)\<rparr>) = after_pick r res pk' w' s"
  "after_pick r res pk' w' (s\<lparr>store := w, pickers := (pickers s)(r := y), phases := (phases s)(r := x)\<rparr>) =
     after_pick r res pk' w' s"
  by (cases res; simp add: after_pick_def)+

lemma run_sections_steps:
  assumes "pickers s r = Some pk" and "phases s r = Some ph"
    and "run_sections ph pk (store s) = Val (res, pk', w')"
  shows "(lb_step b)\<^sup>*\<^sup>* s (after_pick r res pk' w' s)"
  using assms
proof (induction ph pk "store s" arbitrary: s rule: run_sections.induct)
  case (1 ph pk)
  obtain e pk1 w1 where sec: "Pick_section ph pk (store s) = Val (e, pk1, w1)"
    using "1.prems"(3) by (subst (asm) run_sections.simps) (auto split: outcome.splits)
  note eq = "1.prems"(3) [unfolded run_sections.simps [of ph pk], unfolded sec, simplified]
  show ?case
  proof (cases e)
    case (Ends x)
    with eq have x: "x = res" "pk1 = pk'" "w1 = w'" by simp_all
    have "lb_step b s (after_pick r res pk' w' s)"
      using lb_step.pick_none [OF "1.prems"(1,2), of pk' w' b] lb_step.pick_some [OF "1.prems"(1,2), of _ pk' w' b]
        sec Ends x
      by (cases res) (simp_all add: after_pick_def)
    then show ?thesis by (rule r_into_rtranclp)
  next
    case (GoesOn ph1)
    let ?s = "s\<lparr>store := w1, pickers := (pickers s)(r \<mapsto> pk1), phases := (phases s)(r \<mapsto> ph1)\<rparr>"
    have "lb_step b s ?s" using lb_step.pick_on [OF "1.prems"(1,2)] sec GoesOn by simp
    moreover have "(lb_step b)\<^sup>*\<^sup>* ?s (after_pick r res pk' w' ?s)"
      by (rule "1.hyps" [OF sec _ GoesOn]) (use eq GoesOn in simp_all)
    ultimately show ?thesis by (simp add: after_pick_frame converse_rtranclp_into_rtranclp)
  qed
qed

lemma Pick_steps:
  assumes "pickers s r = Some pk" and "phases s r = None" and "Pick pk (store s) = Val (res, pk', w')"
  shows "(lb_step b)\<^sup>*\<^sup>* s (after_pick r res pk' w' s)"
proof -
  let ?s = "s\<lparr>phases := (phases s)(r \<mapsto> OwnPhase)\<rparr>"
  have "lb_step b s ?s" by (rule lb_step.pick_start [OF assms(1,2)])
  moreover have "(lb_step b)\<^sup>*\<^sup>* ?s (after_pick r res pk' w' ?s)"
    by (rule run_sections_steps [where pk = pk and ph = OwnPhase]) (use assms in \<open>simp_all add: run_sections_Pick\<close>)
  ultimately show ?thesis by (simp add: after_pick_frame converse_rtranclp_into_rtranclp)
qed

section \<open>Fresh pickers\<close>

definition peer_count :: "Balancer \<Rightarrow> nat" where
  "peer_count b =
     length (Peers (primary (base b))) +
     (case backup (base b) of None \<Rightarrow> 0 | Some g \<Rightarrow> length (Peers g))"

lemma embedded_NewPicker [simp]:
  "embedded (NewPicker b) = NewRRPicker (primary (base b)) (backup (base b))"
  by (cases b) (simp_all add: RoundRobin_NewPicker_def LeastConn_NewPicker_def
      IPHash_NewPicker_def Hash_NewPicker_def Hash_NewPickerForKey_def HashConsistent_NewPicker_def
      HashConsistent_NewPickerForKey_def Random_NewPicker_def)

lemma NewPicker_remaining: "remaining (embedded (NewPicker b)) \<le> peer_count b"
proof -
  let ?rr = "NewRRPicker (primary (base b)) (backup (base b))"
  have "remaining ?rr \<le> card (pool ?rr)" by (simp add: remaining_def card_mono)
  also have "\<dots> \<le> card (set (Peers (rr_primary ?rr))) + card (set (backup_peers ?rr))"
    unfolding pool_def by (rule card_Un_le)
  also have "\<dots> \<le> length (Peers (rr_primary ?rr)) + length (backup_peers ?rr)"
    by (intro add_mono card_length)
  also have "\<dots> = peer_count b"
    by (simp add: peer_count_def NewRRPicker_def backup_peers_def split: option.split)
  finally show ?thesis by simp
qed

lemma NewPicker_considers:
  "p \<in> considered (embedded (NewPicker b)) \<longleftrightarrow> p \<in> pool (embedded (NewPicker b))"
  "\<not> tried (embedded (NewPicker b)) p"
  by (simp_all add: considered_def pool_def NewRRPicker_def)

end
