(* ===== verification/Versions.thy ===== *)
theory Versions
  imports Interleaving
begin

text \<open>
  The version counter of \<open>checked\<close>. While one request holds a recovery probe of a server, other
  requests pick and report; each of their critical sections writes \<open>checked\<close> of a server at most
  once and counts the write. A failure that one of them reports therefore moves the counter
  away from the version that the probe remembers.
\<close>

section \<open>What other requests do to the store\<close>

inductive other_step :: "world \<Rightarrow> world \<Rightarrow> bool" where
  pick: "picker_wf pk \<Longrightarrow> rr_wf (embedded pk) \<Longrightarrow> Pick_section ph pk w = Val (e, pk', w') \<Longrightarrow>
    other_step w w'"
| report: "Done (Some q) failed pk w = (pk', w') \<Longrightarrow> other_step w w'"
| report_neutral: "doneNeutral (Some q) pk w = (pk', w') \<Longrightarrow> other_step w w'"

text \<open>The steps of the interleaved system are such steps, as far as the store is concerned.\<close>

lemma lb_step_store:
  assumes "lb_step b s s'" and "lb_inv b w0 s"
  shows "store s' = store s \<or> other_step (store s) (store s')"
proof -
  have wf: "picker_wf pk \<and> rr_wf (embedded pk)" if "pickers s r = Some pk" for r pk
    using assms(2) that by (auto simp: lb_inv_def picker_of_def)
  from assms(1) show ?thesis
    by cases (auto dest!: wf intro: other_step.intros)
qed

section \<open>Writes are counted\<close>

lemma rr_done_versioned:
  assumes "rr_done (Some q) failed neutral rr w = (rr', w')"
  shows "versioned (heap w p) (heap w' p)"
  using rr_done_world(1) [OF assms] by (simp add: done_peer_versioned)

lemma other_step_versioned:
  assumes "other_step w w'"
  shows "versioned (heap w p) (heap w' p)"
  using assms
proof cases
  case (pick pk ph e pk')
  show ?thesis
    by (cases rule: Pick_section_ok [OF pick(1,2), of ph w])
      (use pick(3) in \<open>auto simp: section_result_def commit_spec_def pass_spec_def pick_frame_def
        split: option.splits\<close>)
next
  case (report q failed pk pk')
  then show ?thesis
    using rr_done_versioned [of q failed False "embedded pk" w]
    by (auto simp: Done_embedded RRPicker_Done_def split: prod.splits)
next
  case (report_neutral q pk pk')
  then show ?thesis
    using rr_done_versioned [of q False True "embedded pk" w]
    by (auto simp: doneNeutral_def RRPicker_doneNeutral_def split: prod.splits)
qed

lemma versions_counted:
  assumes "(other_step ^^ n) w w'"
  shows "\<exists>k \<le> n. checkedSeq (heap w' p) = checkedSeq (heap w p) + of_nat k"
  using assms
proof (induction n arbitrary: w')
  case (Suc n)
  then obtain w1 where w1: "(other_step ^^ n) w w1" "other_step w1 w'" by auto
  from Suc.IH [OF w1(1)] obtain k where k: "k \<le> n"
    "checkedSeq (heap w1 p) = checkedSeq (heap w p) + of_nat k" by blast
  from other_step_versioned [OF w1(2), of p] consider
    "checkedSeq (heap w' p) = checkedSeq (heap w p) + of_nat k"
    | "checkedSeq (heap w' p) = checkedSeq (heap w p) + of_nat (Suc k)"
    using k(2) by (auto simp: versioned_def)
  then show ?case using k(1) by cases (meson le_SucI, meson Suc_le_mono)
qed simp

lemma failure_counted:
  assumes "Done (Some p) True pk w = (pk', w')" and "\<not> single (done_group (embedded pk) (heap w p))"
  shows "checkedSeq (heap w' p) = checkedSeq (heap w p) + 1" and "checked (heap w' p) = clock w (ticks w)"
proof -
  obtain rr' where d: "rr_done (Some p) True False (embedded pk) w = (rr', w')"
    using assms(1) by (auto simp: Done_embedded RRPicker_Done_def split: prod.splits)
  from rr_done_world(1) [OF d] assms(2)
  show "checkedSeq (heap w' p) = checkedSeq (heap w p) + 1" "checked (heap w' p) = clock w (ticks w)"
    by (simp_all add: done_peer_def)
qed

text \<open>Fewer than \<open>2 ^ 64\<close> writes, one of them a failure, lead to another version.\<close>

lemma failure_moves_version:
  assumes "(other_step ^^ i) w1 wa" and "Done (Some p) True pk wa = (pk', wb)"
    and "\<not> single (done_group (embedded pk) (heap wa p))" and "(other_step ^^ j) wb w2"
    and "i + j + 1 < 2 ^ 64"
  shows "checkedSeq (heap w2 p) \<noteq> checkedSeq (heap w1 p)"
proof -
  from versions_counted [OF assms(1), of p] obtain k where
    k: "k \<le> i" "checkedSeq (heap wa p) = checkedSeq (heap w1 p) + of_nat k" by blast
  from versions_counted [OF assms(4), of p] obtain l where
    l: "l \<le> j" "checkedSeq (heap w2 p) = checkedSeq (heap wb p) + of_nat l" by blast
  have "checkedSeq (heap w2 p) = checkedSeq (heap w1 p) + of_nat (Suc (k + l))"
    using k(2) l(2) failure_counted(1) [OF assms(2,3)] by (simp add: algebra_simps)
  moreover have "of_nat (Suc (k + l)) \<noteq> (0 :: 64 word)"
  proof
    assume "of_nat (Suc (k + l)) = (0 :: 64 word)"
    then have "2 ^ 64 dvd Suc (k + l)" using word_of_nat_eq_0_iff [of "Suc (k + l)", where 'a = 64] by simp
    then have "2 ^ 64 \<le> Suc (k + l)" by (rule dvd_imp_le) simp
    with k(1) l(1) assms(5) show False by simp
  qed
  ultimately show ?thesis by simp
qed

lemma commit_probe:
  assumes "commitPeer p now rr w = (rr1, w1)" and "probeChecked rr p = None"
    and "probeChecked rr1 p = Some probe"
  shows "seq probe = checkedSeq (heap w1 p)"
  using assms by (auto simp: commitPeer_def SetTried_def Let_def split: if_splits)

end
