(* ===== verification/Ring.thy ===== *)
theory Ring
  imports Consistent_Hash
begin

text \<open>
  The ring of consistent hashing (\<open>buildChashRing\<close>, \<open>findChashStart\<close> of \<open>src/chash.go\<close>):
  it is strictly increasing in the hash, a hash value belongs to the point that was generated
  first, the search finds the successor of a key, and removing a server moves only the keys
  that it owned.
\<close>

section \<open>Binary search\<close>

lemma sort_Search_loop_least:
  assumes "\<And>a b. a \<le> b \<Longrightarrow> b < n \<Longrightarrow> f a \<Longrightarrow> f b" and "i \<le> j" and "j \<le> n"
    and "\<forall>k < i. \<not> f k" and "j < n \<longrightarrow> f j"
  shows "sort_Search_loop f i j \<le> n \<and> (\<forall>k < sort_Search_loop f i j. \<not> f k) \<and>
    (sort_Search_loop f i j < n \<longrightarrow> f (sort_Search_loop f i j))"
  using assms
proof (induction f i j rule: sort_Search_loop.induct)
  case (1 f i j)
  let ?h = "(i + j) div 2"
  show ?case
  proof (cases "i < j")
    case False
    then have "sort_Search_loop f i j = i" by (simp add: sort_Search_loop.simps [of f i j])
    moreover have "i = j" using False "1.prems"(2) by simp
    ultimately show ?thesis using "1.prems"(3-5) by simp
  next
    case lt: True
    show ?thesis
    proof (cases "f ?h")
      case False
      have "\<not> f k" if "k < ?h + 1" for k
        using "1.prems"(1) [of k ?h] "1.prems"(3) that False lt by fastforce
      then have "sort_Search_loop f (?h + 1) j \<le> n \<and> (\<forall>k < sort_Search_loop f (?h + 1) j. \<not> f k) \<and>
          (sort_Search_loop f (?h + 1) j < n \<longrightarrow> f (sort_Search_loop f (?h + 1) j))"
        using "1.IH"(1) [OF lt refl False "1.prems"(1)] "1.prems"(3,5) lt by auto
      with lt False show ?thesis by (simp add: sort_Search_loop.simps [of f i j])
    next
      case True
      then have "sort_Search_loop f i ?h \<le> n \<and> (\<forall>k < sort_Search_loop f i ?h. \<not> f k) \<and>
          (sort_Search_loop f i ?h < n \<longrightarrow> f (sort_Search_loop f i ?h))"
        using "1.IH"(2) [OF lt refl _ "1.prems"(1)] "1.prems"(3,4) lt by auto
      with lt True show ?thesis by (simp add: sort_Search_loop.simps [of f i j])
    qed
  qed
qed

lemma sort_Search_least:
  assumes "\<And>a b. a \<le> b \<Longrightarrow> b < n \<Longrightarrow> f a \<Longrightarrow> f b"
  shows "sort_Search n f \<le> n" and "k < sort_Search n f \<Longrightarrow> \<not> f k"
    and "sort_Search n f < n \<Longrightarrow> f (sort_Search n f)"
  using sort_Search_loop_least [of n f 0 n, OF assms] by (auto simp: sort_Search_def)

section \<open>The ring is strictly increasing\<close>

definition strict_ring :: "chashPoint list \<Rightarrow> bool" where
  "strict_ring pts \<longleftrightarrow> sorted_wrt (\<lambda>a b. pt_hash a < pt_hash b) pts"

lemma dedup_from_strict:
  assumes "sorted (map pt_hash (pt # pts))"
  shows "strict_ring (pt # dedup_from pt pts)"
  using assms
proof (induction pt pts rule: dedup_from.induct)
  case (2 last_pt pt pts)
  show ?case
  proof (cases "pt_hash pt = pt_hash last_pt")
    case True
    with 2 show ?thesis by simp
  next
    case False
    with 2 have s: "strict_ring (pt # dedup_from pt pts)" by simp
    have "pt_hash last_pt < pt_hash pt" using False "2.prems" by (simp add: order_less_le)
    with s False show ?thesis by (auto simp: strict_ring_def)
  qed
qed (simp add: strict_ring_def)

lemma dedup_points_strict: "sorted (map pt_hash pts) \<Longrightarrow> strict_ring (dedup_points pts)"
  by (cases pts) (simp_all add: dedup_points_def dedup_from_strict strict_ring_def [of "[]"])

text \<open>Which points survive: the first of every group of equal hashes.\<close>

definition first_with :: "u32 \<Rightarrow> chashPoint list \<Rightarrow> chashPoint option" where
  "first_with x pts = find (\<lambda>q. pt_hash q = x) pts"

lemma first_with_in: "first_with x pts = Some q \<Longrightarrow> q \<in> set pts \<and> pt_hash q = x"
  unfolding first_with_def by (induction pts) (auto split: if_splits)

lemma dedup_from_mem:
  assumes "sorted (map pt_hash (pt # pts))"
  shows "q \<in> set (pt # dedup_from pt pts) \<longleftrightarrow> first_with (pt_hash q) (pt # pts) = Some q"
  using assms
proof (induction pt pts rule: dedup_from.induct)
  case (1 last_pt)
  then show ?case by (auto simp: first_with_def)
next
  case (2 last_pt pt pts)
  show ?case
  proof (cases "pt_hash pt = pt_hash last_pt")
    case True
    with 2 show ?thesis by (auto simp: first_with_def)
  next
    case False
    with 2 have IH: "q \<in> set (pt # dedup_from pt pts) \<longleftrightarrow> first_with (pt_hash q) (pt # pts) = Some q"
      by simp
    have lt: "pt_hash last_pt < pt_hash r" if "r \<in> set (pt # pts)" for r
      using False "2.prems" that by (auto simp: order_less_le)
    have c: "first_with (pt_hash q) (last_pt # pt # pts) =
        (if pt_hash last_pt = pt_hash q then Some last_pt else first_with (pt_hash q) (pt # pts))"
      by (simp add: first_with_def)
    have "pt_hash q \<noteq> pt_hash last_pt" if "first_with (pt_hash q) (pt # pts) = Some q"
      using lt [of q] first_with_in [OF that] by auto
    with IH c False show ?thesis by (auto split: if_splits)
  qed
qed

lemma dedup_points_mem:
  assumes "sorted (map pt_hash pts)"
  shows "q \<in> set (dedup_points pts) \<longleftrightarrow> first_with (pt_hash q) pts = Some q"
proof (cases pts)
  case Nil
  then show ?thesis by (simp add: dedup_points_def first_with_def)
next
  case (Cons pt rest)
  with assms dedup_from_mem [of pt rest q] show ?thesis by (simp add: dedup_points_def)
qed

text \<open>Sorting is stable, so the first point of a hash is the one generated first.\<close>

lemma first_with_filter: "first_with x pts = (case filter (\<lambda>q. pt_hash q = x) pts of [] \<Rightarrow> None | q # _ \<Rightarrow> Some q)"
  by (induction pts) (auto simp: first_with_def)

lemma first_with_sort: "first_with x (sort_key pt_hash pts) = first_with x pts"
proof -
  have "filter (\<lambda>q. pt_hash q = x) (sort_key pt_hash pts) = filter (\<lambda>q. pt_hash q = x) pts"
    using filter_sort [of "\<lambda>q. pt_hash q = x" pt_hash pts] sort_key_stable by metis
  then show ?thesis by (simp add: first_with_filter)
qed

lemma ring_mem:
  assumes "buildChashRing h ps = Val pts"
  shows "q \<in> set pts \<longleftrightarrow> first_with (pt_hash q) (ring_points h ps) = Some q"
    and "strict_ring pts"
proof -
  have p: "pts = dedup_points (sort_key pt_hash (ring_points h ps))"
    using assms by (simp add: buildChashRing_def split: if_splits)
  show "q \<in> set pts \<longleftrightarrow> first_with (pt_hash q) (ring_points h ps) = Some q"
    by (simp add: p dedup_points_mem first_with_sort)
  show "strict_ring pts" by (simp add: p dedup_points_strict)
qed

section \<open>The owner of a key\<close>

text \<open>The server that a key reaches first.\<close>

definition ring_owner :: "chashPoint list \<Rightarrow> u32 \<Rightarrow> peer_id" where
  "ring_owner pts key = pt_peer (pts ! findChashStart pts key)"

text \<open>The successor of a key among a set of points, wrapping around at the end.\<close>

definition successor :: "chashPoint set \<Rightarrow> u32 \<Rightarrow> chashPoint \<Rightarrow> bool" where
  "successor S key pt \<longleftrightarrow>
     pt \<in> S \<and>
     (key \<le> pt_hash pt \<and> (\<forall>q \<in> S. key \<le> pt_hash q \<longrightarrow> pt_hash pt \<le> pt_hash q) \<or>
      (\<forall>q \<in> S. pt_hash q < key \<and> pt_hash pt \<le> pt_hash q))"

lemma strict_ring_nth:
  assumes "strict_ring pts" and "i < j" and "j < length pts"
  shows "pt_hash (pts ! i) < pt_hash (pts ! j)"
  using assms by (simp add: strict_ring_def sorted_wrt_iff_nth_less)

lemma strict_ring_inj:
  assumes "strict_ring pts" and "p \<in> set pts" and "q \<in> set pts" and "pt_hash p = pt_hash q"
  shows "p = q"
proof -
  obtain i j where ij: "i < length pts" "pts ! i = p" "j < length pts" "pts ! j = q"
    using assms(2,3) by (metis in_set_conv_nth)
  with strict_ring_nth [OF assms(1), of i j] strict_ring_nth [OF assms(1), of j i] assms(4)
  have "i = j" by (metis less_irrefl linorder_neqE_nat)
  with ij show ?thesis by simp
qed

lemma findChashStart_successor:
  assumes s: "strict_ring pts" and ne: "pts \<noteq> []"
  shows "findChashStart pts key < length pts" and "successor (set pts) key (pts ! findChashStart pts key)"
proof -
  let ?n = "length pts" and ?f = "\<lambda>i. key \<le> pt_hash (pts ! i)"
  let ?k = "sort_Search ?n ?f"
  have mono: "?f b" if "a \<le> b" "b < ?n" "?f a" for a b
  proof (cases "a = b")
    case False
    with that have "pt_hash (pts ! a) < pt_hash (pts ! b)" by (intro strict_ring_nth [OF s]) auto
    with that(3) show ?thesis by (rule order_trans [OF _ less_imp_le])
  qed (use that in simp)
  have f1: "?k \<le> ?n" by (rule sort_Search_least(1)) (rule mono)
  have f2: "\<not> ?f i" if "i < ?k" for i by (rule sort_Search_least(2) [OF _ that]) (rule mono)
  have f3: "?f ?k" if "?k < ?n" by (rule sort_Search_least(3) [OF _ that]) (rule mono)
  have start: "findChashStart pts key = (if ?k = ?n then 0 else ?k)"
    by (simp add: findChashStart_def Let_def)
  show "findChashStart pts key < length pts" using f1 ne by (simp add: start)
  show "successor (set pts) key (pts ! findChashStart pts key)"
  proof (cases "?k = ?n")
    case True
    have "pt_hash q < key \<and> pt_hash (pts ! 0) \<le> pt_hash q" if q: "q \<in> set pts" for q
    proof -
      obtain i where i: "i < ?n" "q = pts ! i" using q by (auto simp: in_set_conv_nth)
      then show ?thesis
        using f2 [of i] True strict_ring_nth [OF s, of 0 i] by (cases "i = 0") (auto simp: not_le)
    qed
    with True ne show ?thesis by (auto simp: start successor_def)
  next
    case False
    then have lt: "?k < ?n" using f1 by simp
    have "pt_hash (pts ! ?k) \<le> pt_hash q" if q: "q \<in> set pts" "key \<le> pt_hash q" for q
    proof -
      obtain i where i: "i < ?n" "q = pts ! i" using q(1) by (auto simp: in_set_conv_nth)
      then have "?k \<le> i" using f2 [of i] q(2) by (meson not_le)
      then show ?thesis using strict_ring_nth [OF s, of ?k i] i by (cases "i = ?k") auto
    qed
    with False lt f3 show ?thesis by (auto simp: start successor_def)
  qed
qed

lemma successor_unique:
  assumes "strict_ring pts" and "successor (set pts) key p" and "successor (set pts) key q"
  shows "p = q"
proof -
  have "p \<in> set pts" "q \<in> set pts" using assms(2,3) by (auto simp: successor_def)
  moreover have "pt_hash p = pt_hash q"
    using assms(2,3) unfolding successor_def by (meson leD order_antisym)
  ultimately show ?thesis using strict_ring_inj [OF assms(1)] by blast
qed

section \<open>Removing a server\<close>

text \<open>Only the points of the removed server leave the list of generated points.\<close>

lemma peer_points_peer: "q \<in> set (peer_points h p) \<Longrightarrow> pt_peer q = p"
  by (auto simp: peer_points_def)

lemma ring_points_without:
  "ring_points h (filter (\<lambda>y. y \<noteq> Some x) ps) = filter (\<lambda>q. pt_peer q \<noteq> x) (ring_points h ps)"
proof (induction h ps rule: ring_points.induct)
  case (3 h p ps)
  have "filter (\<lambda>q. pt_peer q \<noteq> x) (peer_points h p) = (if p = x then [] else peer_points h p)"
    using peer_points_peer by (auto simp: filter_empty_conv filter_id_conv)
  with 3 show ?case by auto
qed simp_all

lemma first_with_filtered:
  assumes "first_with x pts = Some q" and "P q"
  shows "first_with x (filter P pts) = Some q"
  using assms unfolding first_with_def by (induction pts) (auto split: if_splits)

lemma ring_without:
  assumes a: "buildChashRing h ps = Val pts"
    and b: "buildChashRing h (filter (\<lambda>y. y \<noteq> Some x) ps) = Val pts'"
    and own: "successor (set pts) key pt" and other: "pt_peer pt \<noteq> x"
  shows "successor (set pts') key pt"
proof -
  have pt: "pt \<in> set pts" using own by (simp add: successor_def)
  then have "pt \<in> set pts'"
    unfolding ring_mem(1) [OF a] ring_mem(1) [OF b] ring_points_without
    using other by (rule first_with_filtered)
  moreover have "\<exists>r \<in> set pts. pt_hash r = pt_hash q" if "q \<in> set pts'" for q
  proof -
    have "q \<in> set (ring_points h ps)"
      using that first_with_in unfolding ring_mem(1) [OF b] ring_points_without by fastforce
    then obtain r where "first_with (pt_hash q) (ring_points h ps) = Some r"
      by (cases "first_with (pt_hash q) (ring_points h ps)") (auto simp: first_with_def find_None_iff)
    then show ?thesis using first_with_in ring_mem(1) [OF a] by metis
  qed
  ultimately show ?thesis using own unfolding successor_def by metis
qed

lemma ring_owner_stable:
  assumes a: "buildChashRing h ps = Val pts"
    and b: "buildChashRing h (filter (\<lambda>y. y \<noteq> Some x) ps) = Val pts'"
    and ne: "pts \<noteq> []" and other: "ring_owner pts key \<noteq> x"
  shows "ring_owner pts' key = ring_owner pts key"
proof -
  note s = ring_mem(2) [OF a] and s' = ring_mem(2) [OF b]
  have 1: "successor (set pts') key (pts ! findChashStart pts key)"
    using ring_without [OF a b findChashStart_successor(2) [OF s ne]] other
    by (simp add: ring_owner_def)
  then have "pts' \<noteq> []" by (auto simp: successor_def)
  from successor_unique [OF s' 1 findChashStart_successor(2) [OF s' this]]
  show ?thesis by (simp add: ring_owner_def)
qed

section \<open>Host and port\<close>

lemma strings_Index_first:
  assumes "c \<notin> set xs"
  shows "strings_Index (xs @ (c # cs) @ ys) (c # cs) = Some (length xs)"
  using assms by (induction xs) auto

lemma strings_Index_absent:
  assumes "c \<in> set sub" and "c \<notin> set xs"
  shows "strings_Index xs sub = None"
  using assms
proof (induction xs)
  case (Cons x xs)
  have "take (length sub) (x # xs) \<noteq> sub"
    using Cons.prems by (metis in_set_takeD)
  with Cons show ?case by simp
qed auto

text \<open>A URL and its bare host and port give the same seed.\<close>

lemma strip_url_plain: "CHR ''/'' \<notin> set a \<Longrightarrow> strip_url a = a"
  by (simp add: strip_url_def strings_Index_absent [of "CHR ''/''" "''://''" a])

lemma strip_url_full:
  assumes "CHR '':'' \<notin> set scheme" and "CHR ''/'' \<notin> set a"
  shows "strip_url (scheme @ ''://'' @ a @ ''/'' @ path) = a" and "strip_url (scheme @ ''://'' @ a) = a"
proof -
  have 1: "strings_Index (scheme @ ''://'' @ r) ''://'' = Some (length scheme)" for r
    using strings_Index_first [OF assms(1), of "''//''" r] by simp
  have 2: "strings_Index (a @ ''/'' @ path) ''/'' = Some (length a)"
    using strings_Index_first [OF assms(2), of "[]" path] by simp
  have 3: "strings_Index a ''/'' = None" by (rule strings_Index_absent [OF _ assms(2)]) simp
  show "strip_url (scheme @ ''://'' @ a @ ''/'' @ path) = a"
    unfolding strip_url_def 1 using 2 by (simp add: Let_def)
  show "strip_url (scheme @ ''://'' @ a) = a"
    unfolding strip_url_def 1 using 3 by (simp add: Let_def)
qed

lemma scan_port_digits:
  assumes "\<forall>c \<in> set port. is_digit c" and "k \<le> length port"
  shows "scan_port (host @ CHR '':'' # port) (Suc (length host) + k) = (host, port)"
  using assms(2)
proof (induction k)
  case 0
  then show ?case by simp
next
  case (Suc k)
  have c: "(host @ CHR '':'' # port) ! (Suc (length host) + k) = port ! k"
    by (simp add: nth_append)
  have "is_digit (port ! k)" using assms(1) Suc.prems by simp
  moreover have "port ! k \<noteq> CHR '':''" using \<open>is_digit (port ! k)\<close> by (auto simp: is_digit_def)
  ultimately show ?case using Suc c by simp
qed

lemma splitKetamaHostPort_join:
  assumes "\<forall>c \<in> set port. is_digit c" and "CHR ''/'' \<notin> set host"
  shows "splitKetamaHostPort (host @ '':'' @ port) = (host, port)"
proof -
  have "CHR ''/'' \<notin> set port" using assms(1) by (auto simp: is_digit_def)
  with assms(2) have "strip_url (host @ '':'' @ port) = host @ CHR '':'' # port"
    by (simp add: strip_url_plain)
  then show ?thesis
    using scan_port_digits [OF assms(1) order_refl, of host]
    by (simp add: splitKetamaHostPort_def Let_def)
qed

lemma splitKetamaHostPort_url:
  assumes "CHR '':'' \<notin> set scheme" and "CHR ''/'' \<notin> set a"
  shows "splitKetamaHostPort (scheme @ ''://'' @ a @ ''/'' @ path) = splitKetamaHostPort a"
    and "splitKetamaHostPort (scheme @ ''://'' @ a) = splitKetamaHostPort a"
  by (simp_all only: splitKetamaHostPort_def strip_url_full [OF assms] strip_url_plain [OF assms(2)])

section \<open>The ring of a weighted server is not empty\<close>

lemma peer_points_nonempty:
  "0 < i64 (Weight (h p) * consistentReplicas) \<Longrightarrow> peer_points h p \<noteq> []"
  by (cases "nat (i64 (Weight (h p) * consistentReplicas))") (simp_all add: peer_points_def Let_def)

lemma ring_nonempty:
  assumes "buildChashRing h (Some p # ps) = Val pts" and "0 < Weight (h p)"
    and "0 < i64 (Weight (h p) * consistentReplicas)"
  shows "pts \<noteq> []"
proof -
  have "ring_points h (Some p # ps) \<noteq> []" using assms(2) peer_points_nonempty [of h p] assms(3) by simp
  then have "sort_key pt_hash (ring_points h (Some p # ps)) \<noteq> []"
    by (metis set_empty set_sort)
  then show ?thesis
    using assms(1)
    by (auto simp: buildChashRing_def dedup_points_def split: if_splits list.splits)
qed

end
