(* ===== verification/Ring_Pick.thy ===== *)
theory Ring_Pick
  imports Ring
begin

text \<open>
  A keyed \<open>Pick\<close> of the consistent-hash balancer on a new picker: the walk starts at the
  successor of the key's hash, and stays there when a server with the address of that point is
  usable.
\<close>

text \<open>A server that no test of \<open>peerAvailable\<close> from now on refuses.\<close>

definition usable :: "world \<Rightarrow> peer_id \<Rightarrow> bool" where
  "usable w p \<longleftrightarrow>
     \<not> Down (heap w p) \<and> \<not> conns_full (heap w p) \<and>
     (\<forall>k \<ge> ticks w. \<not> failed_out (clock w k) (heap w p))"

lemma usable_later:
  "usable w p \<Longrightarrow> heap w' = heap w \<Longrightarrow> clock w' = clock w \<Longrightarrow> ticks w \<le> ticks w' \<Longrightarrow> usable w' p"
  by (auto simp: usable_def)

lemma usable_accepted:
  assumes "q \<in> set ps" and "usable w q" and "Addr (heap w q) = server" and "\<not> tried rr q"
  shows "q \<in> set (accepted (chash_eligible server rr) ps w)"
  using assms
proof (induction ps arbitrary: w)
  case (Cons p ps)
  let ?w = "snd (chash_eligible server rr p w)"
  have fr: "heap ?w = heap w" "clock ?w = clock w" "ticks w \<le> ticks ?w"
    by (rule ch_test.heap_eligible ch_test.clock_eligible ch_test.ticks_eligible)+
  have "fst (chash_eligible server rr q w)"
    using Cons.prems by (simp add: chash_eligible_def peerAvailable_iff usable_def)
  moreover have "q \<in> set (accepted (chash_eligible server rr) ps ?w)" if "q \<in> set ps"
    using Cons.IH [OF that usable_later [OF Cons.prems(2) fr]] Cons.prems(3,4) fr(1) by simp
  ultimately show ?case using Cons.prems(1) by auto
qed simp

lemma chash_loop_first:
  assumes wf: "cp_wf pk" "cp_tries pk = 0" "points (cp_balancer pk) \<noteq> []" "cursor pk = int i"
      "i < length (points (cp_balancer pk))"
    and d: "distinct (Peers grp)"
    and q: "q \<in> set (Peers grp)" "usable w q" "\<not> tried (cp_rr pk) q"
      "Addr (heap w q) = Addr (heap w (pt_peer (points (cp_balancer pk) ! i)))"
  shows "\<exists>p pk' w'. chash_loop grp now pk w = Val (Some p, pk', w') \<and> p \<in> set (Peers grp) \<and>
    Addr (heap w p) = Addr (heap w (pt_peer (points (cp_balancer pk) ! i)))"
proof -
  let ?server = "Addr (heap w (pt_peer (points (cp_balancer pk) ! i)))"
  let ?el = "chash_eligible ?server (cp_rr pk)"
  have ix: "go_rem (i64 (cursor pk + cp_tries pk)) (int (length (points (cp_balancer pk)))) = int i"
    using cp_wf_index [OF wf(1,3)] wf(2,4,5) by simp
  have "accepted ?el (Peers grp) w \<noteq> []"
    using usable_accepted [OF q(1,2,4,3)] by auto
  then obtain b where b: "fst (swrr_round (accepted ?el (Peers grp) w) (heap w)) = Some b"
    using swrr_round_None_iff by fastforce
  then obtain w1 where sw: "smoothWeightedPeer (Peers grp) ?el w = (Some b, w1)"
    by (simp add: ch_test.smoothWeightedPeer_round [OF d])
  obtain rr' w2 where c: "commitPeer b now (cp_rr pk) w1 = (rr', w2)" by fastforce
  have "b \<in> set (Peers grp)" using swrr_round_mem [OF b] accepted_subset by blast
  with chash_commit(2) [OF d sw c] sw c ix wf(2,3) show ?thesis
    by (subst chash_loop.simps) (simp add: maxHashTries_def Let_def)
qed

lemma chash_pick_first:
  assumes b: "distinct (Peers (primary (hc_rr b)))" "\<not> single (primary (hc_rr b))" "points b \<noteq> []"
      "int (length (points b)) + 21 < 2 ^ 63" "strict_ring (points b)"
    and key: "key \<noteq> ''''" "successor (set (points b)) (ChecksumIEEE (bytes_of key)) pt"
    and q: "q \<in> set (Peers (primary (hc_rr b)))" "usable w q" "Addr (heap w q) = Addr (heap w (pt_peer pt))"
  shows "\<exists>p pk w'. chashPicker_Pick (HashConsistent_NewPickerForKey key b) w = Val (Some p, pk, w') \<and>
    p \<in> set (Peers (primary (hc_rr b))) \<and> Addr (heap w p) = Addr (heap w (pt_peer pt))"
proof -
  let ?pk = "HashConsistent_NewPickerForKey key b" and ?k = "ChecksumIEEE (bytes_of key)"
  let ?i = "findChashStart (points b) ?k"
  obtain now w1 where n: "time_Now w = (now, w1)" by fastforce
  then have w1: "heap w1 = heap w" "clock w1 = clock w" "ticks w \<le> ticks w1"
    by (auto simp: time_Now_def)
  have pt: "pt = points b ! ?i"
    by (rule successor_unique [OF b(5) key(2) findChashStart_successor(2) [OF b(5,3)]])
  have pk: "cp_balancer ?pk = b" "cp_key ?pk = key" "cp_tries ?pk = 0" "rr_primary (cp_rr ?pk) = primary (hc_rr b)"
    "\<not> tried (cp_rr ?pk) q" "cursor (chash_start ?pk) = int ?i" "cp_wf ?pk"
    using b(4) by (simp_all add: HashConsistent_NewPickerForKey_def NewRRPicker_def chash_start_def cp_wf_def)
  have "\<exists>p pk' w'. chash_loop (primary (hc_rr b)) now (chash_start ?pk) w1 = Val (Some p, pk', w') \<and>
      p \<in> set (Peers (primary (hc_rr b))) \<and> Addr (heap w1 p) = Addr (heap w1 (pt_peer (points b ! ?i)))"
    using chash_loop_first [OF cp_wf_start [OF pk(7)] _ _ _ _ b(1) q(1) usable_later [OF q(2) w1], of ?i now]
      findChashStart_bound [OF b(3)] b(3) pk q(3) w1(1) pt by simp
  with n b(2,3) key(1) pk w1(1) pt show ?thesis by (auto simp: chashPicker_Pick_def)
qed

text \<open>The points of a ring belong to the servers it was built from.\<close>

lemma ring_points_peer: "pt \<in> set (ring_points h ps) \<Longrightarrow> Some (pt_peer pt) \<in> set ps"
  by (induction h ps rule: ring_points.induct) (auto dest: peer_points_peer split: if_splits)

lemma ring_peer:
  assumes "buildChashRing h ps = Val pts" and "pt \<in> set pts"
  shows "Some (pt_peer pt) \<in> set ps"
  using assms ring_mem(1) [OF assms(1), of pt] first_with_in ring_points_peer by blast

end
