(* ===== verification/Fairness.thy ===== *)
theory Fairness
  imports Interleaving
begin

text \<open>
  Fairness of round-robin at the level of requests. A request is \<open>PickOne\<close> followed by a
  successful \<open>Done\<close> of the result (\<open>src/balancer.go\<close>); as many requests as the weights sum up
  to use every server exactly as often as its weight says.
\<close>

section \<open>Requests\<close>

definition serve :: "Balancer \<Rightarrow> world \<Rightarrow> (peer_id option \<times> world) outcome" where
  "serve b w =
     (case PickOne (Some b) w of
        Panic \<Rightarrow> Panic
      | Val (None, w1) \<Rightarrow> Val (None, w1)
      | Val (Some res, w1) \<Rightarrow>
          Val (Some (res_Peer res), snd (PickResult_Done False (Some res) w1)))"

fun serve_run :: "nat \<Rightarrow> Balancer \<Rightarrow> world \<Rightarrow> (peer_id option list \<times> world) outcome" where
  "serve_run 0 b w = Val ([], w)"
| "serve_run (Suc n) b w =
     (case serve b w of
        Panic \<Rightarrow> Panic
      | Val (r, w1) \<Rightarrow>
          (case serve_run n b w1 of Panic \<Rightarrow> Panic | Val (rs, w2) \<Rightarrow> Val (r # rs, w2)))"

section \<open>One request\<close>

definition healthy :: "Peer \<Rightarrow> bool" where
  "healthy q \<longleftrightarrow> \<not> Down q \<and> \<not> conns_full q \<and> in_i64 (conns q) \<and> (MaxFails q \<le> 0 \<or> fails q < MaxFails q)"

lemma healthy_not_failed: "healthy q \<Longrightarrow> \<not> failed_out now q"
  by (auto simp: healthy_def failed_out_def)

lemma healthy_unweighted: "unweighted q = unweighted r \<Longrightarrow> healthy q = healthy r"
  by (simp add: healthy_def conns_full_def unweighted_eqD [of q r])

text \<open>Selection and success bring a healthy peer back to a healthy state.\<close>

definition same_weights :: "Peer \<Rightarrow> Peer \<Rightarrow> bool" where
  "same_weights q r \<longleftrightarrow> currentWeight q = currentWeight r \<and>
     effectiveWeight q = effectiveWeight r \<and> Weight q = Weight r"

lemma commit_done_healthy:
  assumes c: "commitPeer p now rr w = (rr', w1)"
    and d: "rr_done (Some p) False False rr' w1 = (rr'', w2)"
    and ns: "\<not> single (done_group rr' (heap w1 p))" and h: "healthy (heap w p)"
  shows "healthy (heap w2 p)" and "same_weights (heap w2 q) (heap w q)"
    and "q \<noteq> p \<Longrightarrow> heap w2 q = heap w q"
proof -
  note cw = commitPeer_world [OF c]
  have dp: "heap w2 p = release_conn (done_ok (heap w1 p))"
    using rr_done_world(1) [OF d] ns by (simp add: done_peer_def)
  have oth: "heap w2 q = heap w1 q" if "q \<noteq> p" for q
    using rr_done_world(1) [OF d] that by simp
  have rng: "in_i64 (conns (heap w p))" using h by (simp add: healthy_def)
  have c2: "conns (heap w2 p) = conns (heap w p)"
    using cw(5) rng by (simp add: dp i64_id)
  have s2: "settings (heap w2 p) = settings (heap w p)" using cw(6) [of p] by (simp add: dp)
  have f2: "fails (heap w2 p) = 0 \<or> fails (heap w2 p) = fails (heap w p)"
    using cw(7) [of p] by (simp add: dp done_ok_def)
  show "healthy (heap w2 p)"
    using h c2 s2 f2 by (auto simp: healthy_def conns_full_def settings_def)
  show "same_weights (heap w2 q) (heap w q)"
    using cw(4) [of q] cw(9,10) [of q] settings_Weight [OF cw(6) [of q]] oth [of q]
    by (cases "q = p") (auto simp: same_weights_def dp)
  show "q \<noteq> p \<Longrightarrow> heap w2 q = heap w q" using oth cw(4) by simp
qed

definition healthy_group :: "peer_id list \<Rightarrow> world \<Rightarrow> bool" where
  "healthy_group ps w \<longleftrightarrow> (\<forall>p \<in> set ps. healthy (heap w p))"

text \<open>A round-robin balancer without backup and with more than one peer.\<close>

definition plain :: "RoundRobin \<Rightarrow> bool" where
  "plain b \<longleftrightarrow> backup b = None \<and> \<not> single (primary b)"

lemma serve_round:
  assumes pl: "plain b" and ps: "ps = Peers (primary b)" and fs: "full_speed ps (heap w)"
    and hg: "healthy_group ps w"
  shows "\<exists>p w'. serve (balRoundRobin b) w = Val (Some p, w') \<and>
    fst (swrr_round ps (heap w)) = Some p \<and> healthy_group ps w' \<and>
    (\<forall>q. same_weights (heap w' q) (snd (swrr_round ps (heap w)) q))"
proof -
  let ?rr = "NewRRPicker (primary b) (backup b)"
  let ?w1 = "w\<lparr>ticks := Suc (ticks w)\<rparr>" and ?now = "clock w (ticks w)"
  let ?w2 = "?w1\<lparr>heap := snd (swrr_round ps (heap w))\<rparr>"
  have d: "distinct ps" "ps \<noteq> []" using fs by (auto simp: full_speed_def)
  have all: "filter (\<lambda>p. rr_ok ?rr ?now (heap w p) p) ps = ps"
    using hg by (auto simp: rr_ok_def NewRRPicker_def healthy_group_def healthy_not_failed
        healthy_def filter_id_conv)
  have sw: "smoothWeightedPeer ps (rr_eligible ?rr ?now) ?w1 = (fst (swrr_round ps (heap w)), ?w2)"
    by (simp add: rr_test.smoothWeightedPeer_round [OF d(1)] accepted_rr all)
  obtain p where p: "fst (swrr_round ps (heap w)) = Some p"
    using d(2) swrr_round_None_iff by blast
  obtain rr' w3 where c: "commitPeer p ?now ?rr ?w2 = (rr', w3)" by fastforce
  obtain rr'' w4 where dn: "rr_done (Some p) False False rr' w3 = (rr'', w4)" by fastforce
  have pick: "RRPicker_Pick ?rr w = Val (Some p, rr', w3)"
    using pl sw p c
    by (simp add: RRPicker_Pick_def pickWithBackup_def pickFromCurrentGroup_def pickFromGroup_def
        plain_def NewRRPicker_def time_Now_def flip: ps)
  have sv: "serve (balRoundRobin b) w = Val (Some p, w4)"
    using pick dn by (simp add: serve_def PickOne_def RoundRobin_NewPicker_def PickResult_Done_def
        Done_embedded RRPicker_Done_def)
  have ns: "\<not> single (done_group rr' (heap w3 p))"
    using pl commitPeer_picker [OF c] by (simp add: done_group_def plain_def NewRRPicker_def)
  have hu: "healthy (snd (swrr_round ps (heap w)) q) = healthy (heap w q)" for q
    by (rule healthy_unweighted) (rule swrr_round_unweighted)
  have pm: "p \<in> set ps" by (rule swrr_round_mem [OF p])
  then have hp: "healthy (heap ?w2 p)" using hg by (simp add: hu healthy_group_def)
  note cd = commit_done_healthy [OF c dn ns hp]
  have "healthy (heap w4 q)" if "q \<in> set ps" for q
    using cd(1) cd(3) [of q] hg that by (cases "q = p") (auto simp: hu healthy_group_def)
  with sv p cd(2) show ?thesis by (auto simp: healthy_group_def)
qed

section \<open>A period\<close>

lemma full_speed_same:
  assumes "\<forall>q. same_weights (h' q) (h q)"
  shows "full_speed ps h' = full_speed ps h"
  using assms by (intro full_speed_cong) (simp add: same_weights_def)

lemma full_speed_kept:
  assumes "full_speed ps h" and "fst (swrr_round ps h) = Some w"
  shows "full_speed ps (snd (swrr_round ps h))"
proof -
  have d: "distinct ps" "ps \<noteq> []" "balanced ps h" "weights_fit ps h"
    using assms(1) by (auto simp: full_speed_def)
  show ?thesis
    using d swrr_round_balanced [OF d(3,4,1)] full_speed_round(2,3) [OF assms]
      unweighted_eqD(2) [OF swrr_round_unweighted, of ps h]
    by (simp add: full_speed_def swrr_round_fits swrr_round_weight_sum)
qed

lemma full_run_Suc:
  assumes "fst (swrr_round ps h) = Some p" and "\<forall>q. same_weights (H 0 q) (snd (swrr_round ps h) q)"
    and "full_run ps n H B"
  shows "full_run ps (Suc n) (case_nat h H) (case_nat p B)"
proof -
  have "Weight (H 0 q) = Weight (h q)" for q
    using assms(2) unweighted_eqD(2) [OF swrr_round_unweighted, of ps h q]
    by (simp add: same_weights_def)
  note W = this
  show ?thesis
    unfolding full_run_def
  proof (intro allI impI)
    fix i
    assume "i < Suc n"
    then show "fst (swrr_round ps (case_nat h H i)) = Some (case_nat p B i) \<and>
        (\<forall>q \<in> set ps.
           currentWeight (case_nat h H (Suc i) q) =
             currentWeight (snd (swrr_round ps (case_nat h H i)) q) \<and>
           effectiveWeight (case_nat h H (Suc i) q) =
             effectiveWeight (snd (swrr_round ps (case_nat h H i)) q) \<and>
           Weight (case_nat h H (Suc i) q) = Weight (case_nat h H i q))"
    proof (cases i)
      case 0
      with assms(1,2) W show ?thesis by (simp add: same_weights_def)
    next
      case (Suc j)
      with \<open>i < Suc n\<close> have "j < n" by simp
      from assms(3) [unfolded full_run_def, THEN spec, THEN mp, OF this]
      show ?thesis unfolding Suc nat.case .
    qed
  qed
qed

lemma map_upt_case_nat: "map (case_nat x f) [0..<Suc n] = x # map f [0..<n]"
proof -
  have "[0..<Suc n] = 0 # map Suc [0..<n]"
    by (simp only: map_Suc_upt upt_conv_Cons zero_less_Suc)
  then show ?thesis by (simp del: upt_Suc)
qed

lemma serve_run_full:
  assumes pl: "plain b" and ps: "ps = Peers (primary b)" and fs: "full_speed ps (heap w)"
    and hg: "healthy_group ps w"
  shows "\<exists>H B w'. serve_run n (balRoundRobin b) w = Val (map (\<lambda>i. Some (B i)) [0..<n], w') \<and>
    H 0 = heap w \<and> H n = heap w' \<and> full_run ps n H B \<and> healthy_group ps w'"
  using fs hg
proof (induction n arbitrary: w)
  case 0
  then show ?case by (intro exI [of _ "\<lambda>_. heap w"]) (simp add: full_run_def)
next
  case (Suc n)
  from serve_round [OF pl ps Suc.prems] obtain p w1 where
    s: "serve (balRoundRobin b) w = Val (Some p, w1)" "fst (swrr_round ps (heap w)) = Some p"
    "healthy_group ps w1" "\<forall>q. same_weights (heap w1 q) (snd (swrr_round ps (heap w)) q)" by blast
  have fs1: "full_speed ps (heap w1)"
    using full_speed_same [OF s(4)] full_speed_kept [OF Suc.prems(1) s(2)] by simp
  from Suc.IH [OF fs1 s(3)] obtain H B w' where
    r: "serve_run n (balRoundRobin b) w1 = Val (map (\<lambda>i. Some (B i)) [0..<n], w')"
    "H 0 = heap w1" "H n = heap w'" "full_run ps n H B" "healthy_group ps w'" by blast
  have "map (\<lambda>i. Some (case_nat p B i)) [0..<Suc n] = Some p # map (\<lambda>i. Some (B i)) [0..<n]"
    using map_upt_case_nat [of "Some p" "\<lambda>i. Some (B i)" n]
    by (simp add: nat.case_distrib [of Some])
  with s(1) r(1) have
    "serve_run (Suc n) (balRoundRobin b) w = Val (map (\<lambda>i. Some (case_nat p B i)) [0..<Suc n], w')"
    by simp
  moreover have "full_run ps (Suc n) (case_nat (heap w) H) (case_nat p B)"
    using full_run_Suc [OF s(2) _ r(4)] s(4) r(2) by simp
  ultimately show ?case using r by (intro exI [of _ "case_nat (heap w) H"]) auto
qed

lemma count_map_upt: "count_list (map (\<lambda>i. Some (B i)) [0..<n]) (Some p) = card {i. i < n \<and> B i = p}"
proof (induction n)
  case (Suc n)
  have "{i. i < Suc n \<and> B i = p} = {i. i < n \<and> B i = p} \<union> (if B n = p then {n} else {})"
    by (auto simp: less_Suc_eq)
  with Suc show ?case by auto
qed simp

lemma serve_period:
  assumes pl: "plain b" and ps: "ps = Peers (primary b)" and fs: "full_speed ps (heap w)"
    and hg: "healthy_group ps w" and z: "\<forall>p \<in> set ps. currentWeight (heap w p) = 0"
  shows "\<exists>rs w'. serve_run (nat (weight_sum ps (heap w))) (balRoundRobin b) w = Val (rs, w') \<and>
    (\<forall>p \<in> set ps. int (count_list rs (Some p)) = Weight (heap w p) \<and>
       currentWeight (heap w' p) = 0) \<and> healthy_group ps w'"
proof -
  let ?n = "nat (weight_sum ps (heap w))"
  have n: "int ?n = weight_sum ps (heap w)"
    using fs by (simp add: full_speed_def weight_sum_nonneg)
  from serve_run_full [OF pl ps fs hg, of ?n] obtain H B w' where
    r: "serve_run ?n (balRoundRobin b) w = Val (map (\<lambda>i. Some (B i)) [0..<?n], w')"
    "H 0 = heap w" "H ?n = heap w'" "full_run ps ?n H B" "healthy_group ps w'" by blast
  have "int (card {i. i < ?n \<and> B i = p}) = Weight (heap w p) \<and> currentWeight (heap w' p) = 0"
    if "p \<in> set ps" for p
    using full_run_period [OF r(4), of p] r(2,3) fs n z that by simp
  with r show ?thesis by (auto simp: count_map_upt)
qed

end
