(* ===== verification/Sample.thy ===== *)
theory Sample
  imports Fairness Ring
begin

text \<open>
  A sample configuration, on which the properties are instantiated: servers with given
  weights, all other fields at their zero values, and a clock that advances by one
  millisecond per reading.
\<close>

definition sample_peer :: "string \<Rightarrow> int \<Rightarrow> Peer" where
  "sample_peer addr wt =
     \<lparr>Addr = addr, Weight = wt, Down = False, MaxConns = 2, MaxFails = 0, FailTimeout = 0,
      Backup = False, explicit = 0, currentWeight = 0, effectiveWeight = 0, conns = 0, fails = 0,
      accessed = 0, checked = 0, checkedSeq = 0\<rparr>"

definition sample_heap :: "int list \<Rightarrow> peer_id \<Rightarrow> Peer" where
  "sample_heap ws p =
     (if p < length ws then sample_peer (CHR ''s'' # strconv_Itoa (int p)) (ws ! p)
      else sample_peer '''' 1)"

definition sample_world :: "int list \<Rightarrow> world" where
  "sample_world ws =
     \<lparr>heap = sample_heap ws, clock = (\<lambda>k. 1000000000000 + 1000000 * int k), ticks = 0, draws = 0\<rparr>"

definition sample_pointers :: "int list \<Rightarrow> peer_id option list" where
  "sample_pointers ws = map Some [0..<length ws]"

definition sample_rr :: "int list \<Rightarrow> RoundRobin" where
  "sample_rr ws = fst (NewRoundRobin (sample_pointers ws) (sample_world ws))"

definition sample_start :: "int list \<Rightarrow> world" where
  "sample_start ws = snd (NewRoundRobin (sample_pointers ws) (sample_world ws))"

definition picked_peer :: "'pk pick_result \<Rightarrow> peer_id option" where
  "picked_peer res = (case res of Panic \<Rightarrow> None | Val (r, _, _) \<Rightarrow> r)"

lemma picked_peerD: "picked_peer res = Some p \<Longrightarrow> \<exists>pk w. res = Val (Some p, pk, w)"
  by (cases res) (auto simp: picked_peer_def)

lemma sample_NewRoundRobin:
  "BuildGroups (sample_pointers ws) (sample_world ws) =
     (primary (sample_rr ws), backup (sample_rr ws), sample_start ws)"
  by (simp add: sample_rr_def sample_start_def NewRoundRobin_def split: prod.split)

lemma sample_groups:
  "Peers (primary (sample_rr ws)) = [0..<length ws]" "backup (sample_rr ws) = None"
  "single (primary (sample_rr ws)) = (length ws = 1)"
proof -
  have "\<not> Backup (heap (sample_world ws) p)" for p
    by (simp add: sample_world_def sample_heap_def sample_peer_def)
  then have "backups (sample_pointers ws) (sample_world ws) = []"
    "primaries (sample_pointers ws) (sample_world ws) = [0..<length ws]"
    by (simp_all add: backups_def primaries_def sample_pointers_def)
  then show "Peers (primary (sample_rr ws)) = [0..<length ws]" "backup (sample_rr ws) = None"
    "single (primary (sample_rr ws)) = (length ws = 1)"
    by (simp_all add: sample_rr_def NewRoundRobin_def BuildGroups_eq Let_def split: prod.split)
qed

lemma sample_groups_wf: "groups_wf (primary (sample_rr ws)) (backup (sample_rr ws))"
  by (rule BuildGroups_groups_wf [OF sample_NewRoundRobin]) (simp add: sample_pointers_def)

lemma sample_start_peer:
  "heap (sample_start ws) p =
     (if p < length ws then peer_init (sample_heap ws p) else sample_heap ws p)"
  using BuildGroups_heap [OF sample_NewRoundRobin, of ws]
  by (simp add: init_all_def sample_pointers_def sample_world_def)

lemma sample_start_weight:
  "p < length ws \<Longrightarrow> 0 < ws ! p \<Longrightarrow> Weight (heap (sample_start ws) p) = ws ! p"
  by (simp add: sample_start_peer peer_init_Weight sample_heap_def sample_peer_def)

lemma sample_balanced: "balanced [0..<length ws] (heap (sample_start ws))"
  using BuildGroups_balanced(1) [OF sample_NewRoundRobin, of ws] by (simp add: sample_groups)

lemma sample_weight_sum:
  assumes "\<forall>x \<in> set ws. 0 < x"
  shows "weight_sum [0..<length ws] (heap (sample_start ws)) = sum_list ws"
proof -
  have "weight_sum [0..<length ws] (heap (sample_start ws)) = (\<Sum>p \<in> {0..<length ws}. ws ! p)"
    unfolding weight_sum_def using assms by (auto simp: sample_start_weight intro!: sum.cong)
  then show ?thesis by (simp add: sum_list_sum_nth)
qed

lemma sample_fit:
  assumes "\<forall>x \<in> set ws. 0 < x" and "int (length ws) * sum_list ws < 2 ^ 63"
  shows "weights_fit [0..<length ws] (heap (sample_start ws))"
  using assms by (simp add: weights_fit_def sample_weight_sum)

lemma sample_fresh:
  assumes "\<forall>x \<in> set ws. 0 < x" and "int (length ws) * sum_list ws < 2 ^ 63"
  shows "fresh_store (balRoundRobin (sample_rr ws)) (sample_start ws)"
proof -
  have "conns (heap (sample_start ws) p) = 0" "MaxConns (heap (sample_start ws) p) < 2 ^ 63" for p
    by (simp_all add: sample_start_peer sample_heap_def sample_peer_def)
  moreover have "balanced [] (heap (sample_start ws))" "weights_fit [] (heap (sample_start ws))"
    by (simp_all add: balanced_def weights_fit_def ledger_ok_def weight_sum_def)
  ultimately show ?thesis
    using sample_balanced sample_fit [OF assms]
    by (simp add: fresh_store_def group_lists_def sample_groups)
qed

lemma sample_balancer_wf: "balancer_wf (balRoundRobin (sample_rr ws))"
  using sample_groups_wf by (simp add: balancer_wf_def)

lemma sample_pick:
  "picked_peer (Pick (NewPicker (balRoundRobin (sample_rr [5, 1, 1]))) (sample_start [5, 1, 1])) =
     Some 0"
  by code_simp

text \<open>A state in which the first request has a picker, and one in which it has picked the first
  server.\<close>

definition sample_joined :: "int list \<Rightarrow> lb_state" where
  "sample_joined ws = (start_state (sample_start ws))
     \<lparr>pickers := [0 \<mapsto> NewPicker (balRoundRobin (sample_rr ws))]\<rparr>"

lemma sample_reach:
  "\<exists>s pk. (lb_step (balRoundRobin (sample_rr [5, 1, 1])))\<^sup>*\<^sup>* (start_state (sample_start [5, 1, 1])) s \<and>
     outstanding s 0 = 1 \<and> pickers s 0 = Some pk"
proof -
  let ?b = "balRoundRobin (sample_rr [5, 1, 1])" and ?s0 = "start_state (sample_start [5, 1, 1])"
  let ?s1 = "sample_joined [5, 1, 1]"
  from picked_peerD [OF sample_pick] obtain pk w where
    p: "Pick (NewPicker ?b) (sample_start [5, 1, 1]) = Val (Some 0, pk, w)" by blast
  have "lb_step ?b ?s0 ?s1"
    using lb_step.new [of ?s0 0 ?b] by (simp add: sample_joined_def start_state_def)
  moreover let ?s2 = "after_pick 0 (Some 0) pk w ?s1"
  have "(lb_step ?b)\<^sup>*\<^sup>* ?s1 ?s2"
    by (rule Pick_steps [where pk = "NewPicker ?b"]) (use p in \<open>simp_all add: sample_joined_def start_state_def\<close>)
  ultimately have "(lb_step ?b)\<^sup>*\<^sup>* ?s0 ?s2" by (rule converse_rtranclp_into_rtranclp)
  moreover have "outstanding ?s2 0 = 1" "pickers ?s2 0 = Some pk"
    by (simp_all add: outstanding_def sample_joined_def start_state_def after_pick_def)
  ultimately show ?thesis by blast
qed

lemmas sample_setup =
  sample_fresh [of "[5, 1, 1]", simplified] sample_balancer_wf [of "[5, 1, 1]"]

text \<open>The sample group is healthy and starts a period.\<close>

lemma sample_full_speed:
  assumes "\<forall>x \<in> set ws. 0 < x" and "int (length ws) * sum_list ws < 2 ^ 63" and "ws \<noteq> []"
  shows "full_speed [0..<length ws] (heap (sample_start ws))"
proof -
  have ew: "effectiveWeight (heap (sample_start ws) p) = Weight (heap (sample_start ws) p)"
    "currentWeight (heap (sample_start ws) p) = 0" "0 < Weight (heap (sample_start ws) p)"
    if "p < length ws" for p
    using that by (simp_all add: sample_start_peer)
  have "0 < Weight (heap (sample_start ws) 0)" using ew(3) [of 0] assms(3) by simp
  also have "\<dots> \<le> weight_sum [0..<length ws] (heap (sample_start ws))"
    by (rule weight_sum_pos [OF _ sample_balanced]) (simp add: assms(3))
  finally show ?thesis
    using sample_balanced sample_fit [OF assms(1,2)] assms(3) ew
    by (simp add: full_speed_def)
qed

lemma sample_healthy: "healthy_group [0..<length ws] (sample_start ws)"
proof -
  have "MaxFails (peer_init (sample_heap ws p)) = 1" if "p < length ws" for p
    using that by (simp add: peer_init_eq init_max_fails_def sample_heap_def sample_peer_def has_def)
  then show ?thesis
    by (simp add: healthy_group_def healthy_def sample_start_peer conns_full_def in_i64_def)
      (simp add: sample_heap_def sample_peer_def)
qed

text \<open>The sample without limits on failures and connections.\<close>

definition map_peers :: "(peer_id \<Rightarrow> Peer \<Rightarrow> Peer) \<Rightarrow> world \<Rightarrow> world" where
  "map_peers f w = w\<lparr>heap := (\<lambda>p. f p (heap w p))\<rparr>"

definition ready_start :: "int list \<Rightarrow> world" where
  "ready_start ws = map_peers (\<lambda>_ q. q\<lparr>MaxFails := 0, MaxConns := 0\<rparr>) (sample_start ws)"

text \<open>All servers down; the last server a backup and the others down; servers with load.\<close>

definition down_start :: world where
  "down_start = map_peers (\<lambda>_ q. q\<lparr>Down := True\<rparr>) (sample_start [5, 1, 1])"

definition backup_world :: world where
  "backup_world = map_peers (\<lambda>p q. q\<lparr>Down := p < 2, Backup := p = 2\<rparr>) (sample_world [5, 1, 1])"

definition backup_rr :: RoundRobin where
  "backup_rr = fst (NewRoundRobin (sample_pointers [5, 1, 1]) backup_world)"

definition backup_start :: world where
  "backup_start = snd (NewRoundRobin (sample_pointers [5, 1, 1]) backup_world)"

lemma backup_balancer_wf: "balancer_wf (balRoundRobin backup_rr)"
proof -
  have "BuildGroups (sample_pointers [5, 1, 1]) backup_world =
      (primary backup_rr, backup backup_rr, backup_start)"
    by (simp add: backup_rr_def backup_start_def NewRoundRobin_def split: prod.split)
  from BuildGroups_groups_wf [OF this] show ?thesis
    by (simp add: sample_pointers_def balancer_wf_def)
qed

definition loaded_start :: world where
  "loaded_start = map_peers (\<lambda>p q. q\<lparr>conns := (if p = 0 then 6 else 1), MaxConns := 0\<rparr>)
     (sample_start [5, 1, 1])"

text \<open>The first server has failed once, more than a fail timeout ago.\<close>

definition failed_start :: "int list \<Rightarrow> world" where
  "failed_start ws =
     map_peers (\<lambda>p q. if p = 0 then q\<lparr>fails := 1, accessed := 5, checked := 5\<rparr> else q) (sample_start ws)"

text \<open>A random balancer over the sample whose source always draws the same number.\<close>

definition sample_random :: "int list \<Rightarrow> int \<Rightarrow> Random" where
  "sample_random ws x = fst (NewRandom (\<lambda>_ _. x) (sample_pointers ws) (sample_world ws))"

text \<open>The ring of two servers of equal weight, and of one of them.\<close>

lemma sample_ring:
  "\<exists>pts. buildChashRing (heap (sample_start [1, 1])) [Some 0, Some 1] = Val pts \<and> pts \<noteq> []"
proof -
  have "\<not> total_points (heap (sample_start [1, 1])) [Some 0, Some 1] 0 < 0" by code_simp
  then obtain pts where p: "buildChashRing (heap (sample_start [1, 1])) [Some 0, Some 1] = Val pts"
    by (simp add: buildChashRing_def)
  have "0 < Weight (heap (sample_start [1, 1]) 0)" by code_simp
  moreover have "0 < i64 (Weight (heap (sample_start [1, 1]) 0) * consistentReplicas)" by code_simp
  ultimately show ?thesis using ring_nonempty [OF p] p by blast
qed

lemma sample_ring_without:
  assumes "x \<in> {0, 1}"
  shows "\<exists>pts. buildChashRing (heap (sample_start [1, 1])) (filter (\<lambda>y. y \<noteq> Some x) [Some 0, Some 1]) =
    Val pts"
proof -
  have "\<not> total_points (heap (sample_start [1, 1])) [Some 0] 0 < 0"
    "\<not> total_points (heap (sample_start [1, 1])) [Some 1] 0 < 0" by code_simp+
  with assms show ?thesis by (auto simp: buildChashRing_def)
qed

end
