(* ===== verification/Http.thy ===== *)
theory Http
  imports Balancer
begin

text \<open>
  The part of \<open>net/http\<close>, \<open>io\<close>, \<open>context\<close> and \<open>os\<close> that \<open>src/transport.go\<close> works with:
  requests and responses, their bodies as streams of bytes that can be read, rewound and
  closed, contexts that may be cancelled, and the state of a round trip. What the network, the
  operating system and the caller's own readers answer is part of the state, so that
  every answer is covered.
\<close>

section \<open>Streams\<close>

text \<open>
  An open file or body. \<open>contents\<close> is all its data and \<open>pos\<close> the offset of the next read;
  \<open>read_error\<close> is returned instead of end-of-file; the \<open>k\<close>-th call of \<open>Seek\<close> fails if
  \<open>seek_result k\<close> is an error, and the \<open>k\<close>-th call of \<open>Write\<close> fails after some bytes if
  \<open>write_result k\<close> is their number and an error; \<open>closes\<close> counts the calls of \<open>Close\<close>.
\<close>

type_synonym body_id = nat

record stream =
  contents :: "byte list"
  pos :: nat
  seekable :: bool
  read_error :: "error option"
  seek_result :: "nat \<Rightarrow> error option"
  seeks :: nat
  write_result :: "nat \<Rightarrow> (nat \<times> error) option"
  writes :: nat
  stat_error :: "error option"
  closes :: nat

text \<open>
  The state of a round trip: the balancers' store, the streams (\<open>next_stream\<close> is the first
  unused one), the temporary files removed, the number of times the request's context was
  asked, the cancel functions created and called, and the calls made on round trippers,
  newest first, with what each saw and answered.
\<close>

record url =
  Scheme :: string
  Host_of :: string

text \<open>The URL of a request has more: user information, path, query and fragment, kept as one text.\<close>

record request_url = url +
  url_tail :: string

record backendAddr =
  ba_scheme :: string
  ba_host :: string

text \<open>
  An \<open>http.RoundTripper\<close>: the standard \<open>*http.Transport\<close> with the settings that the package
  reads or writes, or another implementation.
\<close>

record http_Transport =
  DialTimeout :: duration
  DialKeepAlive :: duration
  ForceAttemptHTTP2 :: bool
  MaxIdleConns :: int
  MaxIdleConnsPerHost :: int
  IdleConnTimeout :: duration
  TLSHandshakeTimeout :: duration
  ExpectContinueTimeout :: duration
  TLS_ServerName :: "string option"

datatype RoundTripper =
    stdTransport http_Transport
  | otherTransport nat

record call =
  call_rt :: RoundTripper
  call_url :: "request_url option"
  call_host :: string
  call_method :: string
  call_resp :: bool
  call_err :: "error option"
  call_wrote :: bool

record net =
  lb :: world
  streams :: "body_id \<Rightarrow> stream"
  next_stream :: nat
  removed :: "body_id list"
  ctx_reads :: nat
  cancels :: nat
  canceled :: "nat list"
  calls :: "call list"

definition upd_stream :: "body_id \<Rightarrow> (stream \<Rightarrow> stream) \<Rightarrow> net \<Rightarrow> net" where
  "upd_stream b f n = n\<lparr>streams := (streams n)(b := f (streams n b))\<rparr>"

definition stream_Close :: "body_id \<Rightarrow> net \<Rightarrow> net" where
  "stream_Close b n = upd_stream b (\<lambda>s. s\<lparr>closes := Suc (closes s)\<rparr>) n"

text \<open>\<open>Seek\<close>: the new offset, or the error of this call, which leaves the offset alone.\<close>

datatype whence = SeekStart | SeekCurrent | SeekEnd

definition seek_target :: "stream \<Rightarrow> whence \<Rightarrow> nat" where
  "seek_target s wh = (case wh of SeekStart \<Rightarrow> 0 | SeekCurrent \<Rightarrow> pos s | SeekEnd \<Rightarrow> length (contents s))"

definition stream_Seek :: "body_id \<Rightarrow> nat \<Rightarrow> whence \<Rightarrow> net \<Rightarrow> (error + nat) \<times> net" where
  "stream_Seek b off wh n =
     (let s = streams n b; n1 = upd_stream b (\<lambda>s. s\<lparr>seeks := Suc (seeks s)\<rparr>) n
      in case seek_result s (seeks s) of
           Some e \<Rightarrow> (Inl e, n1)
         | None \<Rightarrow>
             (let t = seek_target s wh + off in (Inr t, upd_stream b (\<lambda>s. s\<lparr>pos := t\<rparr>) n1)))"

text \<open>
  \<open>io.ReadAll (io.LimitReader r lim)\<close>: at most \<open>lim\<close> bytes; the limited reader reports
  end-of-file once the limit is used up, and asks the stream for more before that.
\<close>

definition unread :: "stream \<Rightarrow> byte list" where
  "unread s = drop (pos s) (contents s)"

definition read_limited :: "body_id \<Rightarrow> int \<Rightarrow> net \<Rightarrow> (error + byte list) \<times> net" where
  "read_limited b lim n =
     (let s = streams n b; data = take (nat lim) (unread s);
          n1 = upd_stream b (\<lambda>s. s\<lparr>pos := pos s + length data\<rparr>) n
      in if int (length (unread s)) < lim
         then (case read_error s of Some e \<Rightarrow> (Inl e, n1) | None \<Rightarrow> (Inr data, n1))
         else (Inr data, n1))"

text \<open>\<open>Write\<close> appends; a failing call may have written a part.\<close>

definition append_bytes :: "byte list \<Rightarrow> stream \<Rightarrow> stream" where
  "append_bytes data s = s\<lparr>contents := contents s @ data, pos := length (contents s @ data)\<rparr>"

definition stream_Write :: "body_id \<Rightarrow> byte list \<Rightarrow> net \<Rightarrow> error option \<times> net" where
  "stream_Write b data n =
     (let s = streams n b; n1 = upd_stream b (\<lambda>s. s\<lparr>writes := Suc (writes s)\<rparr>) n
      in case write_result s (writes s) of
           Some (written, e) \<Rightarrow> (Some e, upd_stream b (append_bytes (take written data)) n1)
         | None \<Rightarrow> (None, upd_stream b (append_bytes data) n1))"

text \<open>\<open>io.Copy\<close>: what is left of the source is written, if there is any, then its error is reported.\<close>

definition io_Copy :: "body_id \<Rightarrow> body_id \<Rightarrow> net \<Rightarrow> error option \<times> net" where
  "io_Copy dst src n =
     (let s = streams n src; data = unread s;
          n1 = upd_stream src (\<lambda>s. s\<lparr>pos := pos s + length data\<rparr>) n
      in if data = [] then (read_error s, n1)
         else (case stream_Write dst data n1 of
                 (Some e, n2) \<Rightarrow> (Some e, n2)
               | (None, n2) \<Rightarrow> (read_error s, n2)))"

section \<open>Requests and responses\<close>

text \<open>
  The body of a request: a stream itself, \<open>io.NopCloser\<close> of a body (its \<open>Close\<close> does
  nothing and it hides \<open>Seek\<close>) or \<open>http.NoBody\<close>. \<open>bytes.NewReader\<close> makes a new stream.
\<close>

datatype reqBody =
    plainBody body_id
  | nopCloser reqBody
  | NoBody

primrec body_stream :: "reqBody \<Rightarrow> body_id option" where
  "body_stream (plainBody i) = Some i"
| "body_stream (nopCloser b) = body_stream b"
| "body_stream NoBody = None"

definition bytes_NewReader :: "byte list \<Rightarrow> net \<Rightarrow> body_id \<times> net" where
  "bytes_NewReader bs n =
     (next_stream n,
      n\<lparr>streams := (streams n)(next_stream n :=
            \<lparr>contents = bs, pos = 0, seekable = True, read_error = None, seek_result = (\<lambda>_. None),
             seeks = 0, write_result = (\<lambda>_. None), writes = 0, stat_error = None, closes = 0\<rparr>),
         next_stream := Suc (next_stream n)\<rparr>)"

definition reqBody_Close :: "reqBody \<Rightarrow> net \<Rightarrow> net" where
  "reqBody_Close b n = (case b of plainBody i \<Rightarrow> stream_Close i n | _ \<Rightarrow> n)"

text \<open>What reading the body to its end yields.\<close>

definition readable :: "reqBody \<Rightarrow> net \<Rightarrow> byte list" where
  "readable b n =
     (case body_stream b of None \<Rightarrow> [] | Some i \<Rightarrow> unread (streams n i))"

type_synonym get_body = "net \<Rightarrow> (error + reqBody) \<times> net"

record http_Request =
  Method :: string
  URL :: "request_url option"
  Host :: string
  Header_Get :: "string \<Rightarrow> string"
  RemoteAddr :: string
  ContentLength :: int
  Body :: "reqBody option"
  GetBody :: "get_body option"
  ctx_timeout :: "duration option"
  traced :: bool

text \<open>
  The body of a response: a stream, or a stream inside the package's \<open>cancelCloser\<close>, whose
  \<open>Close\<close> calls the cancel function of the attempt first.
\<close>

datatype respBody =
    rawBody body_id
  | cancelCloser respBody nat

primrec respBody_Close :: "respBody \<Rightarrow> net \<Rightarrow> net" where
  "respBody_Close (rawBody b) n = stream_Close b n"
| "respBody_Close (cancelCloser r cancel) n =
     respBody_Close r (n\<lparr>canceled := cancel # canceled n\<rparr>)"

record http_Response =
  StatusCode :: int
  resp_Body :: "respBody option"

text \<open>
  What the world outside the package answers: parameters of the round trip. A round tripper
  answers with a response and an error, either of which may be nil, and says whether a write
  hook of the request's trace fired; while it runs, other requests do, so that the
  balancers and the streams may change. \<open>ctx_Err k\<close> is the answer of the \<open>k\<close>-th question
  to the request's context. \<open>temp_file k\<close> says whether the creation of a temporary file
  succeeds when the next stream is \<open>k\<close>, and how the file then behaves.
\<close>

record rt_answer =
  ans_resp :: "http_Response option"
  ans_err :: "error option"
  ans_wrote :: bool
  ans_lb :: world
  ans_streams :: "body_id \<Rightarrow> stream"
  ans_next :: nat

record rt_env =
  rt_RoundTrip :: "RoundTripper \<Rightarrow> http_Request \<Rightarrow> net \<Rightarrow> rt_answer"
  ctx_Err :: "nat \<Rightarrow> error option"
  temp_file :: "nat \<Rightarrow> error + stream"

definition Context_Err :: "rt_env \<Rightarrow> net \<Rightarrow> error option \<times> net" where
  "Context_Err env n = (ctx_Err env (ctx_reads n), n\<lparr>ctx_reads := Suc (ctx_reads n)\<rparr>)"

text \<open>\<open>os.CreateTemp\<close> opens a new, empty file; \<open>os.Remove\<close> deletes it.\<close>

definition os_CreateTemp :: "rt_env \<Rightarrow> net \<Rightarrow> (error + body_id) \<times> net" where
  "os_CreateTemp env n =
     (case temp_file env (next_stream n) of
        Inl e \<Rightarrow> (Inl e, n)
      | Inr s \<Rightarrow>
          (Inr (next_stream n),
           n\<lparr>streams := (streams n)(next_stream n := s\<lparr>contents := [], pos := 0, seekable := True,
                closes := 0\<rparr>),
              next_stream := Suc (next_stream n)\<rparr>))"

definition os_Remove :: "body_id \<Rightarrow> net \<Rightarrow> net" where
  "os_Remove b n = n\<lparr>removed := b # removed n\<rparr>"

section \<open>Frames\<close>

lemma upd_stream_sel [simp]:
  "lb (upd_stream b f n) = lb n" "next_stream (upd_stream b f n) = next_stream n"
  "removed (upd_stream b f n) = removed n" "ctx_reads (upd_stream b f n) = ctx_reads n"
  "cancels (upd_stream b f n) = cancels n" "canceled (upd_stream b f n) = canceled n"
  "calls (upd_stream b f n) = calls n"
  "streams (upd_stream b f n) = (streams n)(b := f (streams n b))"
  by (simp_all add: upd_stream_def)

lemma stream_Close_sel [simp]:
  "lb (stream_Close b n) = lb n" "next_stream (stream_Close b n) = next_stream n"
  "removed (stream_Close b n) = removed n" "ctx_reads (stream_Close b n) = ctx_reads n"
  "cancels (stream_Close b n) = cancels n" "canceled (stream_Close b n) = canceled n"
  "calls (stream_Close b n) = calls n"
  "closes (streams (stream_Close b n) c) = (if c = b then Suc (closes (streams n b)) else closes (streams n c))"
  "contents (streams (stream_Close b n) c) = contents (streams n c)"
  "pos (streams (stream_Close b n) c) = pos (streams n c)"
  by (simp_all add: stream_Close_def)

lemma respBody_Close_sel [simp]:
  "lb (respBody_Close r n) = lb n" "next_stream (respBody_Close r n) = next_stream n"
  "removed (respBody_Close r n) = removed n" "ctx_reads (respBody_Close r n) = ctx_reads n"
  "cancels (respBody_Close r n) = cancels n" "calls (respBody_Close r n) = calls n"
  by (induction r arbitrary: n) simp_all

lemma reqBody_Close_sel [simp]:
  "lb (reqBody_Close b n) = lb n" "next_stream (reqBody_Close b n) = next_stream n"
  "removed (reqBody_Close b n) = removed n" "ctx_reads (reqBody_Close b n) = ctx_reads n"
  "cancels (reqBody_Close b n) = cancels n" "canceled (reqBody_Close b n) = canceled n"
  "calls (reqBody_Close b n) = calls n"
  by (cases b; simp add: reqBody_Close_def)+

end
