(* ===== verification/Client_Ip.thy ===== *)
theory Client_Ip
  imports Http Affinity
begin

text \<open>
  The client address of a request (\<open>clientIP\<close> of \<open>src/transport.go\<close>) with the functions of
  the standard library it calls: \<open>net.ParseIP\<close>, \<open>net.SplitHostPort\<close>, \<open>strings.TrimSpace\<close> and
  \<open>strings.IndexByte\<close>. A string is the list of its bytes.
\<close>

section \<open>Strings\<close>

definition IndexByte :: "string \<Rightarrow> char \<Rightarrow> nat option" where
  "IndexByte s c = (if c \<in> set s then Some (length (takeWhile (\<lambda>d. d \<noteq> c) s)) else None)"

definition LastIndexByte :: "string \<Rightarrow> char \<Rightarrow> nat option" where
  "LastIndexByte s c = map_option (\<lambda>i. length s - 1 - i) (IndexByte (rev s) c)"

text \<open>The characters of Unicode's white space, in UTF-8.\<close>

definition utf8_spaces :: "string list" where
  "utf8_spaces =
     [[CHR 0x09], [CHR 0x0A], [CHR 0x0B], [CHR 0x0C], [CHR 0x0D], [CHR 0x20],
      [CHR 0xC2, CHR 0x85], [CHR 0xC2, CHR 0xA0], [CHR 0xE1, CHR 0x9A, CHR 0x80],
      [CHR 0xE2, CHR 0x80, CHR 0x80], [CHR 0xE2, CHR 0x80, CHR 0x81], [CHR 0xE2, CHR 0x80, CHR 0x82],
      [CHR 0xE2, CHR 0x80, CHR 0x83], [CHR 0xE2, CHR 0x80, CHR 0x84], [CHR 0xE2, CHR 0x80, CHR 0x85],
      [CHR 0xE2, CHR 0x80, CHR 0x86], [CHR 0xE2, CHR 0x80, CHR 0x87], [CHR 0xE2, CHR 0x80, CHR 0x88],
      [CHR 0xE2, CHR 0x80, CHR 0x89], [CHR 0xE2, CHR 0x80, CHR 0x8A], [CHR 0xE2, CHR 0x80, CHR 0xA8],
      [CHR 0xE2, CHR 0x80, CHR 0xA9], [CHR 0xE2, CHR 0x80, CHR 0xAF], [CHR 0xE2, CHR 0x81, CHR 0x9F],
      [CHR 0xE3, CHR 0x80, CHR 0x80]]"

text \<open>Dropping one of the given non-empty words from the front, as long as there is one.\<close>

definition leading :: "string list \<Rightarrow> string \<Rightarrow> string option" where
  "leading ws s = find (\<lambda>w. w \<noteq> [] \<and> take (length w) s = w) ws"

function strip_words :: "string list \<Rightarrow> string \<Rightarrow> string" where
  "strip_words ws s =
     (case leading ws s of None \<Rightarrow> s | Some w \<Rightarrow> strip_words ws (drop (length w) s))"
  by pat_completeness auto
termination
proof (relation "measure (\<lambda>(ws, s). length s)", simp, clarsimp)
  fix ws s w
  assume "leading ws s = Some w"
  then have "w \<noteq> []" "take (length w) s = w"
    by (auto simp: leading_def dest!: find_Some_iff [THEN iffD1])
  then show "length s - length w < length s" by (cases s) auto
qed

declare strip_words.simps [simp del]

definition TrimSpace :: "string \<Rightarrow> string" where
  "TrimSpace s = rev (strip_words (map rev utf8_spaces) (rev (strip_words utf8_spaces s)))"

section \<open>Addresses\<close>

definition digit_value :: "char \<Rightarrow> nat" where
  "digit_value c = of_char c - 48"

text \<open>
  \<open>parseIPv4Fields\<close>: the four decimal octets; \<open>val\<close> and \<open>digLen\<close> describe the current field,
  \<open>octets\<close> the finished ones.
\<close>

fun parseIPv4Fields :: "string \<Rightarrow> nat \<Rightarrow> nat \<Rightarrow> byte list \<Rightarrow> byte list option" where
  "parseIPv4Fields [] val digLen octets =
     (if length octets < 3 then None else Some (octets @ [of_nat val]))"
| "parseIPv4Fields (c # cs) val digLen octets =
     (if is_digit c
      then if digLen = 1 \<and> val = 0 then None
           else if 255 < val * 10 + digit_value c then None
           else parseIPv4Fields cs (val * 10 + digit_value c) (digLen + 1) octets
      else if c = CHR ''.''
      then if digLen = 0 \<or> cs = [] then None
           else if length octets = 3 then None
           else parseIPv4Fields cs 0 0 (octets @ [of_nat val])
      else None)"

definition parseIPv4 :: "string \<Rightarrow> byte list option" where
  "parseIPv4 s = map_option (\<lambda>a. v4InV6Prefix @ a) (parseIPv4Fields s 0 0 [])"

text \<open>One group of hexadecimal digits: at most four, the value and the rest.\<close>

definition hex_value :: "char \<Rightarrow> nat option" where
  "hex_value c =
     (let n = of_char c
      in if 48 \<le> n \<and> n \<le> 57 then Some (n - 48)
         else if 97 \<le> n \<and> n \<le> 102 then Some (n - 87)
         else if 65 \<le> n \<and> n \<le> 70 then Some (n - 55)
         else None)"

fun hex_group :: "string \<Rightarrow> nat \<Rightarrow> nat \<Rightarrow> (nat \<times> nat \<times> string) option" where
  "hex_group [] off acc = Some (off, acc, [])"
| "hex_group (c # cs) off acc =
     (case hex_value c of
        None \<Rightarrow> Some (off, acc, c # cs)
      | Some v \<Rightarrow> if 3 < off then None else hex_group cs (off + 1) (acc * 16 + v))"

text \<open>
  The loop of \<open>parseIPv6\<close>: \<open>ip\<close> holds the bytes found so far, \<open>ellipsis\<close> the position of
  \<open>::\<close>. The result is the bytes, the position and the unread rest.
\<close>

fun parseIPv6_loop ::
  "nat \<Rightarrow> string \<Rightarrow> byte list \<Rightarrow> nat option \<Rightarrow> (byte list \<times> nat option \<times> string) option" where
  "parseIPv6_loop 0 s ip ellipsis = Some (ip, ellipsis, s)"
| "parseIPv6_loop (Suc groups) s ip ellipsis =
     (case hex_group s 0 0 of
        None \<Rightarrow> None
      | Some (off, acc, rest) \<Rightarrow>
          if off = 0 then None
          else if rest \<noteq> [] \<and> hd rest = CHR ''.''
          then if ellipsis = None \<and> length ip \<noteq> 12 then None
               else if 16 < length ip + 4 then None
               else map_option (\<lambda>a. (ip @ a, ellipsis, [])) (parseIPv4Fields s 0 0 [])
          else (let ip1 = ip @ [of_nat (acc div 256), of_nat (acc mod 256)]
                in case rest of
                     [] \<Rightarrow> Some (ip1, ellipsis, [])
                   | c # rest1 \<Rightarrow>
                       if c \<noteq> CHR '':'' then None
                       else (case rest1 of
                               [] \<Rightarrow> None
                             | d # rest2 \<Rightarrow>
                                 if d = CHR '':''
                                 then if ellipsis \<noteq> None then None
                                      else if rest2 = [] then Some (ip1, Some (length ip1), [])
                                      else parseIPv6_loop groups rest2 ip1 (Some (length ip1))
                                 else parseIPv6_loop groups rest1 ip1 ellipsis)))"

definition expand_ellipsis :: "byte list \<Rightarrow> nat option \<Rightarrow> byte list option" where
  "expand_ellipsis ip ellipsis =
     (if length ip < 16
      then map_option (\<lambda>e. take e ip @ replicate (16 - length ip) 0 @ drop e ip) ellipsis
      else if ellipsis = None then Some ip else None)"

text \<open>\<open>net.ParseIP\<close> refuses zones, so a percent sign never leads to an address.\<close>

definition parseIPv6 :: "string \<Rightarrow> byte list option" where
  "parseIPv6 s =
     (if CHR ''%'' \<in> set s then None
      else let (s1, ellipsis) =
             (if take 2 s = ''::'' then (drop 2 s, Some 0) else (s, None))
           in if ellipsis \<noteq> None \<and> s1 = [] then Some (replicate 16 0)
              else (case parseIPv6_loop 8 s1 [] ellipsis of
                      None \<Rightarrow> None
                    | Some (ip, e, rest) \<Rightarrow> if rest \<noteq> [] then None else expand_ellipsis ip e))"

text \<open>The first of the characters dot, colon and percent decides.\<close>

definition ParseIP :: "string \<Rightarrow> byte list option" where
  "ParseIP s =
     (case find (\<lambda>c. c \<in> {CHR ''.'', CHR '':'', CHR ''%''}) s of
        None \<Rightarrow> None
      | Some c \<Rightarrow>
          if c = CHR ''.'' then parseIPv4 s
          else if c = CHR '':'' then parseIPv6 s
          else None)"

section \<open>Host and port\<close>

definition SplitHostPort :: "string \<Rightarrow> (string \<times> string) option" where
  "SplitHostPort hp =
     (case LastIndexByte hp CHR '':'' of
        None \<Rightarrow> None
      | Some i \<Rightarrow>
          if hd hp = CHR ''[''
          then (case IndexByte hp CHR '']'' of
                  None \<Rightarrow> None
                | Some e \<Rightarrow>
                    if e + 1 \<noteq> i then None
                    else if CHR ''['' \<in> set (drop 1 hp) then None
                    else if CHR '']'' \<in> set (drop (e + 1) hp) then None
                    else Some (drop 1 (take e hp), drop (i + 1) hp))
          else if CHR '':'' \<in> set (take i hp) then None
          else if CHR ''['' \<in> set hp \<or> CHR '']'' \<in> set hp then None
          else Some (take i hp, drop (i + 1) hp))"

section \<open>The client address\<close>

definition from_real_ip :: "http_Request \<Rightarrow> byte list option" where
  "from_real_ip req =
     (let value = Header_Get req ''X-Real-IP''
      in if value \<noteq> '''' then ParseIP (TrimSpace value) else None)"

definition from_forwarded :: "http_Request \<Rightarrow> byte list option" where
  "from_forwarded req =
     (let xff = Header_Get req ''X-Forwarded-For''
      in if xff \<noteq> ''''
         then let xff1 = (case IndexByte xff CHR '','' of None \<Rightarrow> xff | Some i \<Rightarrow> take i xff)
              in ParseIP (TrimSpace xff1)
         else None)"

definition from_remote :: "http_Request \<Rightarrow> byte list option" where
  "from_remote req =
     (if RemoteAddr req \<noteq> ''''
      then let host = (case SplitHostPort (RemoteAddr req) of
                         None \<Rightarrow> RemoteAddr req | Some (h, _) \<Rightarrow> h)
           in ParseIP (TrimSpace host)
      else None)"

text \<open>A nil \<open>net.IP\<close> is the empty list of bytes.\<close>

definition clientIP :: "http_Request \<Rightarrow> byte list" where
  "clientIP req =
     (case from_real_ip req of
        Some ip \<Rightarrow> ip
      | None \<Rightarrow>
          (case from_forwarded req of
             Some ip \<Rightarrow> ip
           | None \<Rightarrow> (case from_remote req of Some ip \<Rightarrow> ip | None \<Rightarrow> [])))"

section \<open>Trimming\<close>

text \<open>No word of the list starts with the first character: nothing is stripped.\<close>

lemma strip_words_stop:
  assumes "\<forall>w \<in> set ws. w \<noteq> [] \<longrightarrow> hd w \<noteq> c"
  shows "strip_words ws (c # s) = c # s"
proof -
  have "leading ws (c # s) = None"
    unfolding leading_def find_None_iff
  proof
    assume "\<exists>w. w \<in> set ws \<and> w \<noteq> [] \<and> take (length w) (c # s) = w"
    then obtain w where w: "w \<in> set ws" "w \<noteq> []" "take (length w) (c # s) = w" by blast
    then have "hd w = c" by (metis hd_take length_greater_0_conv list.sel(1))
    with assms w show False by blast
  qed
  then show ?thesis by (simp add: strip_words.simps [of ws "c # s"])
qed

text \<open>A character that is a word of its own and starts no other word is stripped.\<close>

lemma strip_words_step:
  assumes "[c] \<in> set ws" and "\<forall>w \<in> set ws. w \<noteq> [] \<and> hd w = c \<longrightarrow> w = [c]"
  shows "strip_words ws (c # s) = strip_words ws s"
proof -
  have "leading ws (c # s) \<noteq> None"
    using assms(1) unfolding leading_def find_None_iff
    by (metis length_Cons list.distinct(1) list.size(3) take0 take_Suc_Cons)
  then obtain w where w: "leading ws (c # s) = Some w" by blast
  then have "w \<in> set ws" "w \<noteq> []" "take (length w) (c # s) = w"
    by (auto simp: leading_def dest!: find_Some_iff [THEN iffD1])
  moreover from this have "hd w = c" by (metis hd_take length_greater_0_conv list.sel(1))
  ultimately have "w = [c]" using assms(2) by blast
  with w show ?thesis by (simp add: strip_words.simps [of ws "c # s"])
qed

text \<open>The visible ASCII characters neither begin nor end a space, the blank is one.\<close>

definition visible :: "char \<Rightarrow> bool" where
  "visible c \<longleftrightarrow> 32 < (of_char c :: nat) \<and> (of_char c :: nat) < 127"

lemma spaces_not_visible:
  "\<forall>w \<in> set utf8_spaces. \<not> visible (hd w)" "\<forall>w \<in> set (map rev utf8_spaces). \<not> visible (hd w)"
  by (simp_all add: utf8_spaces_def visible_def)

lemma spaces_visible:
  "visible c \<Longrightarrow> \<forall>w \<in> set utf8_spaces. w \<noteq> [] \<longrightarrow> hd w \<noteq> c"
  "visible c \<Longrightarrow> \<forall>w \<in> set (map rev utf8_spaces). w \<noteq> [] \<longrightarrow> hd w \<noteq> c"
  using spaces_not_visible by blast+

lemma spaces_blank:
  "[CHR '' ''] \<in> set utf8_spaces" "[CHR '' ''] \<in> set (map rev utf8_spaces)"
  "\<forall>w \<in> set utf8_spaces. w \<noteq> [] \<and> hd w = CHR '' '' \<longrightarrow> w = [CHR '' '']"
  "\<forall>w \<in> set (map rev utf8_spaces). w \<noteq> [] \<and> hd w = CHR '' '' \<longrightarrow> w = [CHR '' '']"
  by (simp_all add: utf8_spaces_def)

lemma strip_blanks:
  "strip_words utf8_spaces (replicate k CHR '' '' @ s) = strip_words utf8_spaces s"
  "strip_words (map rev utf8_spaces) (replicate k CHR '' '' @ s) =
     strip_words (map rev utf8_spaces) s"
  by (induction k)
    (simp_all add: strip_words_step [OF spaces_blank(1,3)] strip_words_step [OF spaces_blank(2,4)])

lemma TrimSpace_padded:
  assumes "s \<noteq> []" and "\<forall>c \<in> set s. visible c"
  shows "TrimSpace (replicate j CHR '' '' @ s @ replicate k CHR '' '') = s"
proof -
  have v: "visible (hd s)" "visible (hd (rev s))" using assms by (simp_all add: hd_rev)
  have l: "strip_words utf8_spaces (s @ t) = s @ t" for t
    using strip_words_stop [OF spaces_visible(1) [OF v(1)], of "tl s @ t"] assms(1)
    by (metis append_Cons list.collapse)
  have r: "strip_words (map rev utf8_spaces) (rev s) = rev s"
    using strip_words_stop [OF spaces_visible(2) [OF v(2)], of "tl (rev s)"] assms(1)
    by (metis list.collapse rev_is_Nil_conv)
  show ?thesis by (simp add: TrimSpace_def strip_blanks l r)
qed

lemma TrimSpace_visible:
  "s \<noteq> [] \<Longrightarrow> \<forall>c \<in> set s. visible c \<Longrightarrow> TrimSpace s = s"
  using TrimSpace_padded [of s 0 0] by simp

section \<open>IPv4 addresses\<close>

text \<open>Dotted decimal notation.\<close>

definition dotted :: "byte \<Rightarrow> byte \<Rightarrow> byte \<Rightarrow> byte \<Rightarrow> string" where
  "dotted a b c d =
     nat_digits (unat a) @ ''.'' @ nat_digits (unat b) @ ''.'' @ nat_digits (unat c) @ ''.'' @
     nat_digits (unat d)"

lemma digit_char: "n < 10 \<Longrightarrow> is_digit (char_of (48 + n))" "n < 10 \<Longrightarrow> digit_value (char_of (48 + n)) = n"
  by (simp_all add: is_digit_def digit_value_def)

lemma nat_digits_digit: "c \<in> set (nat_digits n) \<Longrightarrow> is_digit c"
proof (induction n rule: nat_digits.induct)
  case (1 n)
  show ?case
  proof (cases "n < 10")
    case True
    with "1.prems" digit_char(1) show ?thesis by (simp add: nat_digits.simps [of n])
  next
    case False
    then have "c \<in> set (nat_digits (n div 10)) \<or> c = char_of (48 + n mod 10)"
      using "1.prems" by (auto simp: nat_digits.simps [of n])
    with "1.IH" [OF False] digit_char(1) [of "n mod 10"] show ?thesis by auto
  qed
qed

lemma nat_digits_nonempty [simp]: "nat_digits n \<noteq> []"
  by (simp add: nat_digits.simps [of n])

lemma parse_decimal:
  "n \<le> 255 \<Longrightarrow> parseIPv4Fields (nat_digits n @ rest) 0 0 os =
     parseIPv4Fields rest n (length (nat_digits n)) os"
proof (induction n arbitrary: rest rule: nat_digits.induct)
  case (1 n)
  show ?case
  proof (cases "n < 10")
    case True
    then show ?thesis by (simp add: nat_digits.simps [of n] digit_char)
  next
    case False
    have "parseIPv4Fields (nat_digits n @ rest) 0 0 os =
        parseIPv4Fields (char_of (48 + n mod 10) # rest) (n div 10) (length (nat_digits (n div 10))) os"
      using "1.IH" [OF False, of "char_of (48 + n mod 10) # rest"] "1.prems" False
      by (simp add: nat_digits.simps [of n])
    also have "\<dots> = parseIPv4Fields rest n (length (nat_digits n)) os"
      using False "1.prems" by (auto simp: nat_digits.simps [of n] digit_char)
    finally show ?thesis .
  qed
qed

lemma byte_le: "unat (x :: byte) \<le> 255"
proof -
  have "unat x < 2 ^ LENGTH(8)" by (rule unsigned_less)
  then show ?thesis by simp
qed

lemma parse_octet:
  assumes "length os < 3" and "rest \<noteq> []"
  shows "parseIPv4Fields (nat_digits (unat x) @ ''.'' @ rest) 0 0 os =
    parseIPv4Fields rest 0 0 (os @ [x])"
  using assms by (simp add: parse_decimal [OF byte_le] is_digit_def)

text \<open>The first character that decides is the first dot.\<close>

lemma find_append_none: "\<forall>x \<in> set xs. \<not> P x \<Longrightarrow> find P (xs @ ys) = find P ys"
  by (induction xs) auto

lemma ParseIP_dotted: "ParseIP (dotted a b c d) = Some (v4InV6Prefix @ [a, b, c, d])"
proof -
  have "find (\<lambda>c. c \<in> {CHR ''.'', CHR '':'', CHR ''%''}) (dotted a b c d) = Some CHR ''.''"
    unfolding dotted_def
    by (subst find_append_none) (auto dest: nat_digits_digit simp: is_digit_def)
  moreover have "parseIPv4Fields (dotted a b c d) 0 0 [] = Some [a, b, c, d]"
    using parse_decimal [OF byte_le, of d "[]" "[a, b, c]"]
    by (simp add: dotted_def parse_octet [simplified])
  ultimately show ?thesis by (simp add: ParseIP_def parseIPv4_def)
qed

lemma dotted_char: "x \<in> set (dotted a b c d) \<Longrightarrow> is_digit x \<or> x = CHR ''.''"
  by (auto simp: dotted_def dest: nat_digits_digit)

lemma dotted_visible: "\<forall>x \<in> set (dotted a b c d). visible x"
  by (auto dest!: dotted_char simp: visible_def is_digit_def)

lemma dotted_nonempty [simp]: "dotted a b c d \<noteq> []"
  by (simp add: dotted_def)

section \<open>Addresses have sixteen bytes\<close>

lemma parseIPv4Fields_length:
  "parseIPv4Fields s v l os = Some ip \<Longrightarrow> length os \<le> 3 \<Longrightarrow> length ip = 4"
proof (induction s v l os rule: parseIPv4Fields.induct)
  case (2 c cs v l os)
  from "2.prems" show ?case
    by (auto split: if_splits intro: "2.IH")
qed (auto split: if_splits)

lemma parseIPv6_loop_length:
  assumes "parseIPv6_loop n s ip e = Some (ip', e', rest)"
    and "length ip + 2 * n \<le> 16" and "\<And>k. e = Some k \<Longrightarrow> k \<le> length ip"
  shows "length ip' \<le> 16 \<and> (\<forall>k. e' = Some k \<longrightarrow> k \<le> length ip')"
  using assms
proof (induction n s ip e rule: parseIPv6_loop.induct)
  case (2 n s ip e)
  obtain off acc r where h: "hex_group s 0 0 = Some (off, acc, r)" and off: "off \<noteq> 0"
    using "2.prems"(1) by (auto split: option.splits if_splits)
  define ip1 where "ip1 = ip @ [of_nat (acc div 256), of_nat (acc mod 256)]"
  note loop = "2.prems"(1) [simplified parseIPv6_loop.simps h option.case prod.case off if_False Let_def,
      folded ip1_def]
  have l: "length ip1 = length ip + 2" by (simp add: ip1_def)
  show ?case
  proof (cases "r \<noteq> [] \<and> hd r = CHR ''.''")
    case True
    with loop "2.prems"(2,3) show ?thesis
      by (fastforce split: if_splits dest: parseIPv4Fields_length)
  next
    case dot: False
    have e: "\<And>k. e = Some k \<Longrightarrow> k \<le> length ip1" using "2.prems"(3) l by fastforce
    show ?thesis
    proof (cases r)
      case Nil
      with loop e l "2.prems"(2) show ?thesis by auto
    next
      case (Cons c r1)
      with loop dot obtain d r2 where r1: "r1 = d # r2" and c: "c = CHR '':''"
        by (auto split: if_splits list.splits)
      note ih = "2.IH" [OF h refl refl off dot ip1_def Cons _ r1]
      show ?thesis
        using loop Cons r1 c dot ih e l "2.prems"(2)
        by (auto split: if_splits)
    qed
  qed
qed simp

lemma expanded_length:
  assumes "parseIPv6_loop 8 s [] e = Some (ip, e', [])" and "expand_ellipsis ip e' = Some x"
    and "e = None \<or> e = Some 0"
  shows "length x = 16"
proof -
  have "length ip \<le> 16 \<and> (\<forall>k. e' = Some k \<longrightarrow> k \<le> length ip)"
    by (rule parseIPv6_loop_length [OF assms(1)]) (use assms(3) in auto)
  with assms(2) show ?thesis by (auto simp: expand_ellipsis_def split: if_splits)
qed

lemma ParseIP_length: "ParseIP s = Some ip \<Longrightarrow> length ip = 16"
proof -
  assume a: "ParseIP s = Some ip"
  have v4: "length x = 16" if "parseIPv4 s = Some x" for x
    using that by (auto simp: parseIPv4_def v4InV6Prefix_def dest: parseIPv4Fields_length)
  have v6: "length x = 16" if "parseIPv6 s = Some x" for x
    using that
    by (auto simp: parseIPv6_def Let_def split: if_splits option.splits dest: expanded_length)
  from a v4 v6 show ?thesis by (auto simp: ParseIP_def split: option.splits if_splits)
qed

lemma clientIP_length: "clientIP req = [] \<or> length (clientIP req) = 16"
  by (auto simp: clientIP_def from_real_ip_def from_forwarded_def from_remote_def Let_def
      split: option.splits if_splits prod.splits dest: ParseIP_length)

section \<open>Where the address comes from\<close>

definition mapped :: "byte \<Rightarrow> byte \<Rightarrow> byte \<Rightarrow> byte \<Rightarrow> byte list" where
  "mapped a b c d = v4InV6Prefix @ [a, b, c, d]"

lemma takeWhile_ne: "x \<notin> set xs \<Longrightarrow> takeWhile (\<lambda>d. d \<noteq> x) (xs @ x # ys) = xs"
  by (induction xs) auto

lemma IndexByte_first: "x \<notin> set xs \<Longrightarrow> IndexByte (xs @ x # ys) x = Some (length xs)"
  by (simp add: IndexByte_def takeWhile_ne)

lemma LastIndexByte_last: "x \<notin> set ys \<Longrightarrow> LastIndexByte (xs @ x # ys) x = Some (length xs)"
  using IndexByte_first [of x "rev ys" "rev xs"] by (simp add: LastIndexByte_def)

lemma SplitHostPort_plain:
  assumes "\<forall>c \<in> set host. c \<notin> {CHR '':'', CHR ''['', CHR '']''}" and "\<forall>c \<in> set port. is_digit c"
  shows "SplitHostPort (host @ '':'' @ port) = Some (host, port)"
proof -
  have p: "CHR '':'' \<notin> set port" "CHR ''['' \<notin> set port" "CHR '']'' \<notin> set port"
    using assms(2) by (auto simp: is_digit_def)
  then have "LastIndexByte (host @ '':'' @ port) CHR '':'' = Some (length host)"
    using LastIndexByte_last [of "CHR '':''" port host] by simp
  moreover have "hd (host @ '':'' @ port) \<noteq> CHR ''[''"
    using assms(1) by (cases host) auto
  ultimately show ?thesis using assms(1) p by (auto simp: SplitHostPort_def)
qed

section \<open>The characters of an address\<close>

definition addr_char :: "char \<Rightarrow> bool" where
  "addr_char c \<longleftrightarrow> hex_value c \<noteq> None \<or> c \<in> {CHR ''.'', CHR '':''}"

lemma addr_charD:
  assumes "addr_char c"
  shows "visible c" and "c \<noteq> CHR '',''" and "c \<noteq> CHR ''[''" and "c \<noteq> CHR '']''"
  using assms by (auto simp: addr_char_def hex_value_def visible_def Let_def split: if_splits)

lemma digit_addr_char: "is_digit c \<Longrightarrow> addr_char c"
  by (auto simp: is_digit_def addr_char_def hex_value_def Let_def)

lemma parseIPv4Fields_chars:
  "parseIPv4Fields s v l os = Some ip \<Longrightarrow> c \<in> set s \<Longrightarrow> addr_char c"
proof (induction s v l os rule: parseIPv4Fields.induct)
  case (2 d cs v l os)
  then show ?case by (auto split: if_splits dest: digit_addr_char simp: addr_char_def)
qed simp

lemma hex_group_chars:
  "hex_group s off acc = Some (o', a, rest) \<Longrightarrow> c \<in> set s \<Longrightarrow> addr_char c \<or> c \<in> set rest"
proof (induction s off acc rule: hex_group.induct)
  case (2 d cs off acc)
  then show ?case by (auto split: option.splits if_splits simp: addr_char_def)
qed simp

lemma parseIPv6_loop_chars:
  "parseIPv6_loop n s ip e = Some (ip', e', rest) \<Longrightarrow> c \<in> set s \<Longrightarrow> addr_char c \<or> c \<in> set rest"
proof (induction n s ip e rule: parseIPv6_loop.induct)
  case (2 n s ip e)
  obtain off acc r where h: "hex_group s 0 0 = Some (off, acc, r)" and off: "off \<noteq> 0"
    using "2.prems"(1) by (auto split: option.splits if_splits)
  define ip1 where "ip1 = ip @ [of_nat (acc div 256), of_nat (acc mod 256)]"
  note loop = "2.prems"(1) [simplified parseIPv6_loop.simps h option.case prod.case off if_False Let_def,
      folded ip1_def]
  show ?case
  proof (cases "r \<noteq> [] \<and> hd r = CHR ''.''")
    case True
    with loop "2.prems"(2) show ?thesis by (auto split: if_splits dest: parseIPv4Fields_chars)
  next
    case dot: False
    have cr: "addr_char c \<or> c \<in> set r" by (rule hex_group_chars [OF h "2.prems"(2)])
    show ?thesis
    proof (cases r)
      case Nil
      with cr show ?thesis by simp
    next
      case (Cons d r1)
      with loop dot obtain f r2 where r1: "r1 = f # r2" and d: "d = CHR '':''"
        by (auto split: if_splits list.splits)
      note ih = "2.IH" [OF h refl refl off dot ip1_def Cons _ r1]
      have "addr_char CHR '':''" by (simp add: addr_char_def)
      then show ?thesis
        using loop Cons r1 d dot ih cr by (auto split: if_splits)
    qed
  qed
qed simp

lemma parseIPv6_chars:
  assumes "parseIPv6 s = Some ip" and "c \<in> set s"
  shows "addr_char c"
proof (cases "take 2 s = ''::''")
  case True
  then have s: "s = '':'' @ '':'' @ drop 2 s" using append_take_drop_id [of 2 s] by simp
  have "c \<in> set (drop 2 s) \<or> c = CHR '':''" using assms(2) by (subst (asm) s) auto
  moreover have "addr_char c" if "c \<in> set (drop 2 s)"
    using assms(1) True that parseIPv6_loop_chars [of 8 "drop 2 s" "[]" "Some 0"]
    by (auto simp: parseIPv6_def split: if_splits option.splits)
  ultimately show ?thesis by (auto simp: addr_char_def)
next
  case False
  with assms parseIPv6_loop_chars [of 8 s "[]" None] show ?thesis
    by (auto simp: parseIPv6_def split: if_splits option.splits)
qed

lemma ParseIP_chars:
  assumes "ParseIP s = Some ip"
  shows "s \<noteq> []" and "\<forall>c \<in> set s. addr_char c" and "\<forall>c \<in> set s. visible c"
proof -
  show "s \<noteq> []" using assms by (auto simp: ParseIP_def)
  show *: "\<forall>c \<in> set s. addr_char c"
    using assms parseIPv4Fields_chars parseIPv6_chars
    by (auto simp: ParseIP_def parseIPv4_def split: option.splits if_splits)
  then show "\<forall>c \<in> set s. visible c" using addr_charD(1) by blast
qed

section \<open>IPv6 addresses\<close>

text \<open>The full form: eight groups of four hexadecimal digits.\<close>

definition hex_char :: "nat \<Rightarrow> char" where
  "hex_char n = (if n < 10 then char_of (48 + n) else char_of (87 + n))"

definition hex4 :: "byte \<Rightarrow> byte \<Rightarrow> string" where
  "hex4 a b = [hex_char (unat a div 16), hex_char (unat a mod 16),
               hex_char (unat b div 16), hex_char (unat b mod 16)]"

fun colons :: "byte list \<Rightarrow> string" where
  "colons [a, b] = hex4 a b"
| "colons (a # b # xs) = hex4 a b @ '':'' @ colons xs"
| "colons _ = []"

lemma hex_char_value: "n < 16 \<Longrightarrow> hex_value (hex_char n) = Some n"
  by (simp add: hex_char_def hex_value_def Let_def)

lemma hex_char_neq:
  assumes "n < 16"
  shows "hex_char n \<noteq> CHR ''.''" and "hex_char n \<noteq> CHR '':''" and "hex_char n \<noteq> CHR ''%''"
proof -
  have "hex_value CHR ''.'' = None" "hex_value CHR '':'' = None" "hex_value CHR ''%'' = None"
    by (simp_all add: hex_value_def)
  with hex_char_value [OF assms]
  show "hex_char n \<noteq> CHR ''.''" "hex_char n \<noteq> CHR '':''" "hex_char n \<noteq> CHR ''%''" by auto
qed

lemma byte_nibble: "unat (a :: byte) div 16 < 16"
  using byte_le [of a] by simp

lemma hex_group_hex4:
  assumes "rest = [] \<or> hd rest = CHR '':''"
  shows "hex_group (hex4 a b @ rest) 0 0 = Some (4, unat a * 256 + unat b, rest)"
proof -
  have "hex_value CHR '':'' = None" by (simp add: hex_value_def)
  then have "hex_group rest (Suc (Suc (Suc (Suc 0)))) x = Some (4, x, rest)" for x
    using assms by (cases rest) simp_all
  moreover have "((unat a div 16 * 16 + unat a mod 16) * 16 + unat b div 16) * 16 + unat b mod 16 =
      unat a * 256 + unat b"
    by (simp add: add_mult_distrib)
  ultimately show ?thesis by (simp add: hex4_def hex_char_value byte_nibble)
qed

lemma hex4_bytes: "unat (b :: byte) div 256 = 0" "unat b mod 256 = unat b"
  using byte_le [of b] by simp_all

lemma colons_head: "xs \<noteq> [] \<Longrightarrow> even (length xs) \<Longrightarrow> \<exists>c cs. colons xs = c # cs \<and> c \<noteq> CHR '':''"
  using hex_char_neq [OF byte_nibble] by (cases xs rule: colons.cases) (auto simp: hex4_def)

lemma parseIPv6_loop_colons:
  "length xs = 2 * n \<Longrightarrow> 0 < n \<Longrightarrow> parseIPv6_loop n (colons xs) ip None = Some (ip @ xs, None, [])"
proof (induction xs arbitrary: n ip rule: colons.induct)
  case (1 a b)
  then show ?case by (cases n) (use hex_group_hex4 [of "[]" a b] in \<open>simp_all add: hex4_bytes Let_def\<close>)
next
  case (2 a b x xs)
  then obtain m where n: "n = Suc m" "0 < m" "length (x # xs) = 2 * m" by (cases n) auto
  obtain c cs where c: "colons (x # xs) = c # cs" "c \<noteq> CHR '':''"
    using colons_head [of "x # xs"] n(3) by (metis dvd_triv_left list.distinct(1))
  from "2.IH" [OF n(3,2), of "ip @ [a, b]"] hex_group_hex4 [of "CHR '':'' # c # cs" a b] c n(1)
  show ?case by (simp add: hex4_bytes Let_def)
qed simp_all

lemma ParseIP_colons:
  assumes "length xs = 16"
  shows "ParseIP (colons xs) = Some xs"
proof -
  obtain a b x ys where xs: "xs = a # b # x # ys"
    using assms by (auto simp: length_Suc_conv numeral_eq_Suc)
  then have cs: "colons xs = hex4 a b @ CHR '':'' # colons (x # ys)" by simp
  have "find (\<lambda>c. c \<in> {CHR ''.'', CHR '':'', CHR ''%''}) (colons xs) = Some CHR '':''"
    unfolding cs by (subst find_append_none) (auto simp: hex4_def hex_char_neq byte_nibble)
  moreover have pct: "CHR ''%'' \<notin> set (colons xs)"
    using parseIPv6_loop_chars [OF parseIPv6_loop_colons [of xs 8 "[]"], of "CHR ''%''"] assms
    by (auto simp: addr_char_def hex_value_def)
  moreover have "take 2 (colons xs) \<noteq> ''::''"
    unfolding cs by (simp add: hex4_def hex_char_neq byte_nibble)
  ultimately show ?thesis
    using parseIPv6_loop_colons [of xs 8 "[]"] assms
    by (simp add: ParseIP_def parseIPv6_def expand_ellipsis_def)
qed

section \<open>The colons of an address\<close>

lemma hex_group_colons:
  "hex_group s off acc = Some (o', a, rest) \<Longrightarrow> count_list rest CHR '':'' = count_list s CHR '':''"
proof (induction s off acc rule: hex_group.induct)
  case (2 d cs off acc)
  have "hex_value CHR '':'' = None" by (simp add: hex_value_def)
  with 2 show ?case by (auto split: option.splits if_splits)
qed simp

lemma parseIPv6_loop_colon_count:
  "parseIPv6_loop n s ip e = Some (ip', e', rest) \<Longrightarrow>
   (e = None \<and> e' \<noteq> None \<longrightarrow> 2 \<le> count_list s CHR '':'') \<and>
   length ip' \<le> length ip + 2 * count_list s CHR '':'' + 4"
proof (induction n s ip e rule: parseIPv6_loop.induct)
  case (2 n s ip e)
  obtain off acc r where h: "hex_group s 0 0 = Some (off, acc, r)" and off: "off \<noteq> 0"
    using "2.prems"(1) by (auto split: option.splits if_splits)
  define ip1 where "ip1 = ip @ [of_nat (acc div 256), of_nat (acc mod 256)]"
  note loop = "2.prems"(1) [simplified parseIPv6_loop.simps h option.case prod.case off if_False Let_def,
      folded ip1_def]
  have l: "length ip1 = length ip + 2" by (simp add: ip1_def)
  note cr = hex_group_colons [OF h]
  show ?case
  proof (cases "r \<noteq> [] \<and> hd r = CHR ''.''")
    case True
    with loop show ?thesis by (auto split: if_splits dest: parseIPv4Fields_length)
  next
    case dot: False
    show ?thesis
    proof (cases r)
      case Nil
      with loop l show ?thesis by auto
    next
      case (Cons d r1)
      with loop dot obtain f r2 where r1: "r1 = f # r2" and d: "d = CHR '':''"
        by (auto split: if_splits list.splits)
      note ih = "2.IH" [OF h refl refl off dot ip1_def Cons _ r1]
      show ?thesis
        using loop Cons r1 d dot ih l cr by (auto split: if_splits)
    qed
  qed
qed auto

lemma parseIPv4Fields_no_colon: "parseIPv4Fields s v l os = Some ip \<Longrightarrow> CHR '':'' \<notin> set s"
proof (induction s v l os rule: parseIPv4Fields.induct)
  case (2 d cs v l os)
  then show ?case by (auto split: if_splits simp: is_digit_def)
qed simp

lemma parseIPv6_colons:
  assumes "parseIPv6 s = Some ip"
  shows "2 \<le> count_list s CHR '':''"
proof (cases "take 2 s = ''::''")
  case True
  then have "s = CHR '':'' # CHR '':'' # drop 2 s" using append_take_drop_id [of 2 s] by simp
  then have "count_list s CHR '':'' = Suc (Suc (count_list (drop 2 s) CHR '':''))"
    by (metis count_list.simps(2) Suc_eq_plus1)
  then show ?thesis by simp
next
  case False
  with assms obtain ip' e' where l: "parseIPv6_loop 8 s [] None = Some (ip', e', [])"
    and x: "expand_ellipsis ip' e' = Some ip"
    by (auto simp: parseIPv6_def split: if_splits option.splits)
  from x have "e' \<noteq> None \<or> 16 \<le> length ip'" by (auto simp: expand_ellipsis_def split: if_splits)
  with parseIPv6_loop_colon_count [OF l] show ?thesis by auto
qed

lemma colon_count:
  assumes "ParseIP t = Some ip" and "CHR '':'' \<in> set t"
  shows "2 \<le> count_list t CHR '':''"
  using assms parseIPv6_colons parseIPv4Fields_no_colon
  by (auto simp: ParseIP_def parseIPv4_def split: option.splits if_splits)

section \<open>The sources of the address\<close>

definition padded :: "string \<Rightarrow> string \<Rightarrow> bool" where
  "padded t s \<longleftrightarrow> (\<exists>j k. s = replicate j CHR '' '' @ t @ replicate k CHR '' '')"

text \<open>
  A request that names its client in the text \<open>t\<close>: in the X-Real-IP header; in the only or the
  first entry of the X-Forwarded-For header, if X-Real-IP holds no address; or in the remote
  address, alone, with a port, or in brackets with a port, if the headers hold none.
\<close>

abbreviation no_real_ip :: "http_Request \<Rightarrow> bool" where
  "no_real_ip req \<equiv> ParseIP (TrimSpace (Header_Get req ''X-Real-IP'')) = None"

abbreviation no_forwarded :: "http_Request \<Rightarrow> bool" where
  "no_forwarded req \<equiv>
     ParseIP (TrimSpace (takeWhile (\<lambda>c. c \<noteq> CHR '','') (Header_Get req ''X-Forwarded-For''))) = None"

inductive names_client :: "http_Request \<Rightarrow> string \<Rightarrow> bool" for req t where
  real_ip: "padded t (Header_Get req ''X-Real-IP'') \<Longrightarrow> names_client req t"
| forwarded_only: "no_real_ip req \<Longrightarrow> padded t (Header_Get req ''X-Forwarded-For'') \<Longrightarrow> names_client req t"
| forwarded_first: "no_real_ip req \<Longrightarrow> padded t entry \<Longrightarrow>
    Header_Get req ''X-Forwarded-For'' = entry @ '','' @ proxies \<Longrightarrow> names_client req t"
| remote_bare: "no_real_ip req \<Longrightarrow> no_forwarded req \<Longrightarrow> RemoteAddr req = t \<Longrightarrow> names_client req t"
| remote_port: "no_real_ip req \<Longrightarrow> no_forwarded req \<Longrightarrow> CHR '':'' \<notin> set t \<Longrightarrow>
    RemoteAddr req = t @ '':'' @ port \<Longrightarrow> \<forall>c \<in> set port. is_digit c \<Longrightarrow> names_client req t"
| remote_brackets: "no_real_ip req \<Longrightarrow> no_forwarded req \<Longrightarrow>
    RemoteAddr req = ''['' @ t @ '']:'' @ port \<Longrightarrow> \<forall>c \<in> set port. is_digit c \<Longrightarrow> names_client req t"

lemma padded_address:
  assumes "padded t s" and "ParseIP t = Some ip"
  shows "ParseIP (TrimSpace s) = Some ip" and "s \<noteq> []" and "CHR '','' \<notin> set s"
proof -
  from assms(1) obtain j k where s: "s = replicate j CHR '' '' @ t @ replicate k CHR '' ''"
    by (auto simp: padded_def)
  show "ParseIP (TrimSpace s) = Some ip"
    using TrimSpace_padded [OF ParseIP_chars(1,3) [OF assms(2)]] assms(2) by (simp add: s)
  show "s \<noteq> []" "CHR '','' \<notin> set s"
    using ParseIP_chars(1,2) [OF assms(2)] addr_charD(2) by (auto simp: s)
qed

lemma address_trimmed: "ParseIP t = Some ip \<Longrightarrow> ParseIP (TrimSpace t) = Some ip"
  by (simp add: TrimSpace_visible [OF ParseIP_chars(1,3)])

lemma no_address_empty: "TrimSpace [] = []" "ParseIP [] = None"
  by (simp_all add: TrimSpace_def ParseIP_def strip_words.simps leading_def utf8_spaces_def)

lemma from_real_ip_eq: "from_real_ip req = ParseIP (TrimSpace (Header_Get req ''X-Real-IP''))"
  by (simp add: from_real_ip_def Let_def no_address_empty)

lemma from_forwarded_eq:
  "from_forwarded req =
     ParseIP (TrimSpace (takeWhile (\<lambda>c. c \<noteq> CHR '','') (Header_Get req ''X-Forwarded-For'')))"
proof -
  have "(case IndexByte s CHR '','' of None \<Rightarrow> s | Some i \<Rightarrow> take i s) = takeWhile (\<lambda>c. c \<noteq> CHR '','') s" for s
    by (auto simp: IndexByte_def takeWhile_eq_take [symmetric] intro!: takeWhile_eq_all_conv [THEN iffD2, symmetric])
  then show ?thesis by (simp add: from_forwarded_def Let_def no_address_empty)
qed

lemma SplitHostPort_brackets:
  assumes "\<forall>c \<in> set t. addr_char c" and "\<forall>c \<in> set port. is_digit c"
  shows "SplitHostPort (''['' @ t @ '']:'' @ port) = Some (t, port)"
proof -
  have p: "CHR '':'' \<notin> set port" "CHR ''['' \<notin> set port" "CHR '']'' \<notin> set port"
    using assms(2) by (auto simp: is_digit_def)
  have t: "CHR ''['' \<notin> set t" "CHR '']'' \<notin> set t" using assms(1) addr_charD(3,4) by blast+
  have l: "LastIndexByte (''['' @ t @ '']:'' @ port) CHR '':'' = Some (length t + 2)"
    using LastIndexByte_last [OF p(1), of "''['' @ t @ '']''"] by simp
  have i: "IndexByte (''['' @ t @ '']:'' @ port) CHR '']'' = Some (length t + 1)"
    using IndexByte_first [of "CHR '']''" "''['' @ t" "'':'' @ port"] t by simp
  show ?thesis unfolding SplitHostPort_def l i using p t by simp
qed

text \<open>An address without a port has no colon or more than one.\<close>

lemma SplitHostPort_bare:
  assumes "ParseIP t = Some ip"
  shows "SplitHostPort t = None"
proof (cases "CHR '':'' \<in> set t")
  case False
  then show ?thesis by (simp add: SplitHostPort_def LastIndexByte_def IndexByte_def)
next
  case True
  then obtain xs ys where t: "t = xs @ CHR '':'' # ys" "CHR '':'' \<notin> set ys" by (metis split_list_last)
  have "2 \<le> count_list t CHR '':''" by (rule colon_count [OF assms True])
  then have "CHR '':'' \<in> set xs" using t by (cases "CHR '':'' \<in> set xs") auto
  moreover have "hd t \<noteq> CHR ''[''"
    using ParseIP_chars(1,2) [OF assms] addr_charD(3) by (metis hd_in_set)
  ultimately show ?thesis
    using LastIndexByte_last [OF t(2), of xs] by (simp add: SplitHostPort_def t(1))
qed

lemma clientIP_named:
  assumes "names_client req t" and "ParseIP t = Some ip"
  shows "clientIP req = ip"
  using assms(1)
proof cases
  case real_ip
  then show ?thesis using padded_address(1) [OF _ assms(2)] by (simp add: clientIP_def from_real_ip_eq)
next
  case forwarded_only
  note a = padded_address(1,3) [OF forwarded_only(2) assms(2)]
  from a(2) have tw: "takeWhile (\<lambda>c. c \<noteq> CHR '','') (Header_Get req ''X-Forwarded-For'') =
      Header_Get req ''X-Forwarded-For''" by (auto simp: takeWhile_eq_all_conv)
  show ?thesis
    unfolding clientIP_def from_real_ip_eq from_forwarded_eq tw using forwarded_only(1) a(1) by simp
next
  case (forwarded_first entry proxies)
  then have "takeWhile (\<lambda>c. c \<noteq> CHR '','') (Header_Get req ''X-Forwarded-For'') = entry"
    using padded_address(3) [OF _ assms(2)] by (simp add: takeWhile_ne)
  with forwarded_first padded_address(1) [OF _ assms(2)] show ?thesis
    by (simp add: clientIP_def from_real_ip_eq from_forwarded_eq)
next
  case remote_bare
  then show ?thesis
    using SplitHostPort_bare [OF assms(2)] address_trimmed [OF assms(2)] ParseIP_chars(1) [OF assms(2)]
    by (simp add: clientIP_def from_real_ip_eq from_forwarded_eq from_remote_def)
next
  case (remote_port port)
  have "SplitHostPort (t @ '':'' @ port) = Some (t, port)"
    using remote_port(3,5) ParseIP_chars(2) [OF assms(2)] addr_charD(3,4)
    by (intro SplitHostPort_plain) auto
  with remote_port address_trimmed [OF assms(2)] show ?thesis
    by (simp add: clientIP_def from_real_ip_eq from_forwarded_eq from_remote_def)
next
  case (remote_brackets port)
  have "SplitHostPort (''['' @ t @ '']:'' @ port) = Some (t, port)"
    by (rule SplitHostPort_brackets [OF ParseIP_chars(2) [OF assms(2)] remote_brackets(4)])
  with remote_brackets address_trimmed [OF assms(2)] show ?thesis
    by (simp add: clientIP_def from_real_ip_eq from_forwarded_eq from_remote_def)
qed

lemma clientIP_unnamed:
  assumes "no_real_ip req" and "no_forwarded req" and "ParseIP (TrimSpace (RemoteAddr req)) = None"
    and "\<And>h port. SplitHostPort (RemoteAddr req) = Some (h, port) \<Longrightarrow> ParseIP (TrimSpace h) = None"
  shows "clientIP req = []"
  using assms
  by (auto simp: clientIP_def from_real_ip_eq from_forwarded_eq from_remote_def Let_def split: option.splits)

end
