(* ===== verification/Url.thy ===== *)
theory Url
  imports Client_Ip
begin

text \<open>
  \<open>url.Parse\<close> of the standard library, as far as \<open>src/transport.go\<close> uses it: whether a string
  is a URL, and its scheme and host. User information, path, query and fragment are checked
  as the parser checks them and then dropped.
\<close>

section \<open>Scheme\<close>

definition is_letter :: "char \<Rightarrow> bool" where
  "is_letter c \<longleftrightarrow>
     (let n = (of_char c :: nat) in 65 \<le> n \<and> n \<le> 90 \<or> 97 \<le> n \<and> n \<le> 122)"

definition ascii_lower :: "char \<Rightarrow> char" where
  "ascii_lower c =
     (let n = (of_char c :: nat) in if 65 \<le> n \<and> n \<le> 90 then char_of (n + 32) else c)"

definition strings_Cut :: "string \<Rightarrow> char \<Rightarrow> string \<times> string" where
  "strings_Cut s c = (case IndexByte s c of None \<Rightarrow> (s, '''') | Some i \<Rightarrow> (take i s, drop (i + 1) s))"

text \<open>\<open>getScheme\<close> scans at index \<open>i\<close>; \<open>None\<close> is the error of a missing scheme.\<close>

fun getScheme :: "string \<Rightarrow> nat \<Rightarrow> string \<Rightarrow> (string \<times> string) option" where
  "getScheme raw i [] = Some ('''', raw)"
| "getScheme raw i (c # cs) =
     (if is_letter c then getScheme raw (i + 1) cs
      else if is_digit c \<or> c \<in> {CHR ''+'', CHR ''-'', CHR ''.''}
      then if i = 0 then Some ('''', raw) else getScheme raw (i + 1) cs
      else if c = CHR '':'' then if i = 0 then None else Some (take i raw, cs)
      else Some ('''', raw))"

section \<open>Percent escapes\<close>

datatype encoding = encodePath | encodeFragment | encodeUserPassword | encodeHost | encodeZone

definition host_char :: "char \<Rightarrow> bool" where
  "host_char c \<longleftrightarrow> is_letter c \<or> is_digit c \<or> c \<in> set (CHR 0x22 # CHR 0x27 # ''-_.~!$&()*+,;=:[]<>'')"

fun unescape :: "encoding \<Rightarrow> string \<Rightarrow> string option" where
  "unescape m [] = Some []"
| "unescape m (c # cs) =
     (if c = CHR ''%''
      then (case cs of
              a # b # r \<Rightarrow>
                (case (hex_value a, hex_value b) of
                   (Some x, Some y) \<Rightarrow>
                     if m = encodeHost \<and> x < 8 \<and> [a, b] \<noteq> ''25'' then None
                     else if m = encodeZone \<and> [a, b] \<noteq> ''25'' \<and> 16 * x + y \<noteq> 32 \<and>
                             \<not> host_char (char_of (16 * x + y)) then None
                     else map_option (\<lambda>t. char_of (16 * x + y) # t) (unescape m r)
                 | _ \<Rightarrow> None)
            | _ \<Rightarrow> None)
      else if (m = encodeHost \<or> m = encodeZone) \<and> (of_char c :: nat) < 128 \<and> \<not> host_char c then None
      else map_option (\<lambda>t. c # t) (unescape m cs))"

section \<open>Authority\<close>

definition validOptionalPort :: "string \<Rightarrow> bool" where
  "validOptionalPort port \<longleftrightarrow> port = '''' \<or> hd port = CHR '':'' \<and> list_all is_digit (tl port)"

definition parseHost :: "string \<Rightarrow> string option" where
  "parseHost host =
     (if host \<noteq> '''' \<and> hd host = CHR ''[''
      then (case LastIndexByte host CHR '']'' of
              None \<Rightarrow> None
            | Some i \<Rightarrow>
                if \<not> validOptionalPort (drop (i + 1) host) then None
                else (case strings_Index (take i host) ''%25'' of
                        None \<Rightarrow> unescape encodeHost host
                      | Some zone \<Rightarrow>
                          (case (unescape encodeHost (take zone host),
                                 unescape encodeZone (drop zone (take i host)),
                                 unescape encodeHost (drop i host)) of
                             (Some h1, Some h2, Some h3) \<Rightarrow> Some (h1 @ h2 @ h3)
                           | _ \<Rightarrow> None)))
      else (case LastIndexByte host CHR '':'' of
              None \<Rightarrow> unescape encodeHost host
            | Some i \<Rightarrow>
                if \<not> validOptionalPort (drop i host) then None else unescape encodeHost host))"

definition validUserinfo :: "string \<Rightarrow> bool" where
  "validUserinfo s \<longleftrightarrow>
     list_all (\<lambda>c. is_letter c \<or> is_digit c \<or> c \<in> set (CHR 0x27 # ''-._:~!$&()*+,;=%@'')) s"

definition userinfo_ok :: "string \<Rightarrow> bool" where
  "userinfo_ok s \<longleftrightarrow>
     validUserinfo s \<and>
     (case strings_Cut s CHR '':'' of
        (user, pass) \<Rightarrow> unescape encodeUserPassword user \<noteq> None \<and> unescape encodeUserPassword pass \<noteq> None)"

definition parseAuthority :: "string \<Rightarrow> string option" where
  "parseAuthority a =
     (case LastIndexByte a CHR ''@'' of
        None \<Rightarrow> parseHost a
      | Some i \<Rightarrow>
          (case parseHost (drop (i + 1) a) of
             None \<Rightarrow> None
           | Some h \<Rightarrow> if userinfo_ok (take i a) then Some h else None))"

section \<open>The parser\<close>

definition ctl_byte :: "char \<Rightarrow> bool" where
  "ctl_byte c \<longleftrightarrow> (of_char c :: nat) < 32 \<or> (of_char c :: nat) = 127"

text \<open>The query is cut off; nothing in it can fail.\<close>

definition url_rest :: "string \<Rightarrow> string \<Rightarrow> url option" where
  "url_rest scheme rest0 =
     (let rest = fst (strings_Cut rest0 CHR ''?'')
      in if take 1 rest \<noteq> ''/'' \<and> scheme \<noteq> '''' then Some \<lparr>Scheme = scheme, Host_of = ''''\<rparr>
         else if take 1 rest \<noteq> ''/'' \<and> CHR '':'' \<in> set (fst (strings_Cut rest CHR ''/'')) then None
         else if (scheme \<noteq> '''' \<or> take 3 rest \<noteq> ''///'') \<and> take 2 rest = ''//''
         then let auth0 = drop 2 rest;
                  i = length (takeWhile (\<lambda>c. c \<noteq> CHR ''/'') auth0)
              in (case parseAuthority (take i auth0) of
                    None \<Rightarrow> None
                  | Some h \<Rightarrow>
                      if unescape encodePath (drop i auth0) = None then None
                      else Some \<lparr>Scheme = scheme, Host_of = h\<rparr>)
         else if unescape encodePath rest = None then None
         else Some \<lparr>Scheme = scheme, Host_of = ''''\<rparr>)"

definition url_Parse :: "string \<Rightarrow> url option" where
  "url_Parse rawURL =
     (case strings_Cut rawURL CHR ''#'' of
        (u, frag) \<Rightarrow>
          if list_ex ctl_byte u then None
          else if u = ''*''
          then if unescape encodeFragment frag = None then None
               else Some \<lparr>Scheme = '''', Host_of = ''''\<rparr>
          else (case getScheme u 0 u of
                  None \<Rightarrow> None
                | Some (scheme, rest) \<Rightarrow>
                    (case url_rest (map ascii_lower scheme) rest of
                       None \<Rightarrow> None
                     | Some r \<Rightarrow> if unescape encodeFragment frag = None then None else Some r)))"

section \<open>Plain URLs\<close>

text \<open>The form of a backend or upstream address: a scheme, a name or IPv4 address, and maybe a port.\<close>

definition name_char :: "char \<Rightarrow> bool" where
  "name_char c \<longleftrightarrow> is_letter c \<or> is_digit c \<or> c = CHR ''.'' \<or> c = CHR ''-''"

definition plain_authority :: "string \<Rightarrow> bool" where
  "plain_authority a \<longleftrightarrow>
     (\<exists>name port. name \<noteq> '''' \<and> list_all name_char name \<and> list_all is_digit port \<and>
        (a = name \<or> a = name @ '':'' @ port))"

definition plain_scheme :: "string \<Rightarrow> bool" where
  "plain_scheme s \<longleftrightarrow> s \<noteq> '''' \<and> list_all (\<lambda>c. is_letter c \<and> ascii_lower c = c) s"

lemma cut_absent: "c \<notin> set s \<Longrightarrow> strings_Cut s c = (s, '''')"
  by (simp add: strings_Cut_def IndexByte_def)

lemma getScheme_letters:
  "\<forall>c \<in> set s. is_letter c \<Longrightarrow> getScheme raw i (s @ cs) = getScheme raw (i + length s) cs"
  by (induction s arbitrary: i) auto

lemma unescape_plain:
  "\<forall>c \<in> set s. host_char c \<and> c \<noteq> CHR ''%'' \<Longrightarrow> unescape encodeHost s = Some s"
  by (induction s) auto

lemma authority_char:
  "plain_authority a \<Longrightarrow> c \<in> set a \<Longrightarrow> name_char c \<or> c = CHR '':''"
  by (auto simp: plain_authority_def list_all_iff name_char_def)

lemma authority_avoids:
  assumes "plain_authority a"
  shows "CHR ''#'' \<notin> set a" "CHR ''?'' \<notin> set a" "CHR ''/'' \<notin> set a" "CHR ''@'' \<notin> set a"
    "CHR ''%'' \<notin> set a" "CHR ''['' \<notin> set a" "a \<noteq> ''''" "\<forall>c \<in> set a. \<not> ctl_byte c \<and> host_char c"
proof -
  have "\<not> name_char CHR ''#''" "\<not> name_char CHR ''?''" "\<not> name_char CHR ''/''"
    "\<not> name_char CHR ''@''" "\<not> name_char CHR ''%''" "\<not> name_char CHR ''[''"
    by (simp_all add: name_char_def is_letter_def is_digit_def)
  then show "CHR ''#'' \<notin> set a" "CHR ''?'' \<notin> set a" "CHR ''/'' \<notin> set a" "CHR ''@'' \<notin> set a"
    "CHR ''%'' \<notin> set a" "CHR ''['' \<notin> set a"
    using authority_char [OF assms] by force+
  show "a \<noteq> ''''" using assms by (auto simp: plain_authority_def)
  have "\<not> ctl_byte c \<and> host_char c" if "name_char c \<or> c = CHR '':''" for c
    using that by (auto simp: name_char_def ctl_byte_def host_char_def is_letter_def is_digit_def Let_def)
  then show "\<forall>c \<in> set a. \<not> ctl_byte c \<and> host_char c" using authority_char [OF assms] by blast
qed

lemma parseHost_plain:
  assumes "plain_authority a"
  shows "parseHost a = Some a"
proof -
  note av = authority_avoids [OF assms]
  have u: "unescape encodeHost a = Some a" using av(5,8) by (intro unescape_plain) auto
  have "hd a \<noteq> CHR ''[''" using av(6,7) by (metis hd_in_set)
  moreover obtain name port where n: "list_all name_char name" "list_all is_digit port"
    "a = name \<or> a = name @ '':'' @ port"
    using assms by (auto simp: plain_authority_def)
  from n(1) have nc: "CHR '':'' \<notin> set name"
    by (auto simp: list_all_iff name_char_def is_letter_def is_digit_def)
  from n(2) have pc: "CHR '':'' \<notin> set port" by (auto simp: list_all_iff is_digit_def)
  have "LastIndexByte a CHR '':'' = None \<or>
      (\<exists>i. LastIndexByte a CHR '':'' = Some i \<and> validOptionalPort (drop i a))"
    using n(2,3) nc LastIndexByte_last [OF pc, of name]
    by (auto simp: LastIndexByte_def IndexByte_def validOptionalPort_def)
  ultimately show ?thesis using u av(7) by (auto simp: parseHost_def)
qed

lemma url_rest_plain:
  assumes "plain_authority a" and "scheme \<noteq> ''''"
  shows "url_rest scheme (''//'' @ a) = Some \<lparr>Scheme = scheme, Host_of = a\<rparr>"
proof -
  note av = authority_avoids [OF assms(1)]
  have "takeWhile (\<lambda>c. c \<noteq> CHR ''/'') a = a" using av(3) by (auto simp: takeWhile_eq_all_conv)
  then have "length (takeWhile (\<lambda>c. c \<noteq> CHR ''/'') a) = length a" by (rule arg_cong)
  moreover have "LastIndexByte a CHR ''@'' = None"
    using av(4) by (simp add: LastIndexByte_def IndexByte_def)
  ultimately show ?thesis
    using assms(2) av(2) parseHost_plain [OF assms(1)]
    by (simp add: url_rest_def cut_absent parseAuthority_def Let_def)
qed

lemma url_Parse_plain:
  assumes "plain_scheme s" and "plain_authority a"
  shows "url_Parse (s @ ''://'' @ a) = Some \<lparr>Scheme = s, Host_of = a\<rparr>"
proof -
  note av = authority_avoids [OF assms(2)]
  have s: "s \<noteq> ''''" "\<forall>c \<in> set s. is_letter c" "map ascii_lower s = s"
    using assms(1) by (auto simp: plain_scheme_def list_all_iff map_idI)
  then have sc: "\<forall>c \<in> set s. c \<noteq> CHR ''#'' \<and> \<not> ctl_byte c"
    by (auto simp: is_letter_def ctl_byte_def Let_def)
  let ?u = "s @ ''://'' @ a"
  have "strings_Cut ?u CHR ''#'' = (?u, '''')" using sc av(1) by (intro cut_absent) auto
  moreover have "\<not> list_ex ctl_byte ?u"
    using sc av(8) by (auto simp: list_ex_iff ctl_byte_def)
  moreover have "getScheme ?u 0 ?u = Some (s, ''//'' @ a)"
    using getScheme_letters [OF s(2), of ?u 0 "''://'' @ a"] s(1)
    by (simp add: is_letter_def is_digit_def)
  moreover have "?u \<noteq> ''*''" using s(1) by (cases s) auto
  ultimately show ?thesis
    using url_rest_plain [OF assms(2) s(1)] s(3) by (simp add: url_Parse_def)
qed

end
