(* ===== verification/Config.thy ===== *)
theory Config
  imports Url Interleaving
begin

text \<open>
  Configuration of a transport (\<open>src/transport.go\<close>): the option types, the builder methods,
  validation, the registration of upstreams and the constructor. Peers are allocated at
  increasing addresses of the balancers' store; a pointer to a configuration or to an
  upstream has one owner and is modelled by its value. The text of a formatted error is
  represented by its format string.
\<close>

section \<open>Types\<close>

type_synonym AlgorithmType = int

definition AlgoRoundRobin :: AlgorithmType where
  "AlgoRoundRobin = 0"

definition AlgoLeastConn :: AlgorithmType where
  "AlgoLeastConn = 1"

definition AlgoIPHash :: AlgorithmType where
  "AlgoIPHash = 2"

definition AlgoHash :: AlgorithmType where
  "AlgoHash = 3"

definition AlgoRandom :: AlgorithmType where
  "AlgoRandom = 4"

definition AlgoRandomTwo :: AlgorithmType where
  "AlgoRandomTwo = 5"

definition AlgoHashConsistent :: AlgorithmType where
  "AlgoHashConsistent = 6"

lemmas algo_consts [simp] =
  AlgoRoundRobin_def AlgoLeastConn_def AlgoIPHash_def AlgoHash_def AlgoRandom_def AlgoRandomTwo_def
  AlgoHashConsistent_def


type_synonym hash_func = "http_Request \<Rightarrow> string"
type_synonym NextUpstreamCondition = "http_Response option \<Rightarrow> error option \<Rightarrow> bool"

record upstreamKey =
  key_scheme :: string
  key_host :: string

text \<open>A Go map is an association list without duplicate keys; lookup is \<open>map_of\<close>.\<close>

record upstream =
  balancer :: "Balancer option"
  backends :: "(peer_id \<times> backendAddr) list"
  hashFunc :: "hash_func option"
  algo :: AlgorithmType
  multipleUsablePeers :: bool
  sslName :: string
  ups_transport :: "RoundTripper option"

record Transport =
  transport :: "RoundTripper option"
  upstreams :: "(upstreamKey \<times> upstream) list"
  timeout :: duration
  connectTimeout :: duration
  maxBodyBuffer :: int
  nextUpstream :: "NextUpstreamCondition option"
  retryNonIdempotent :: bool
  initErr :: "error option"

record ServerConfig =
  Address :: string
  sc_Weight :: int
  sc_Down :: bool
  sc_MaxConns :: int
  sc_MaxFails :: int
  sc_FailTimeout :: duration
  sc_Backup :: bool
  sc_explicit :: serverFieldSet
  nilOption :: bool

record UpstreamConfig =
  Pattern :: string
  Servers :: "ServerConfig list"
  Algorithm :: AlgorithmType
  HashFunc :: "hash_func option"
  SSLName :: string

record upstreamConfig =
  defaultScheme :: string
  cfg_peers :: "peer_id list"
  cfg_addrs :: "(peer_id \<times> backendAddr) list"
  cfg_algo :: AlgorithmType
  cfg_hashFunc :: "hash_func option"
  cfg_sslName :: string
  cfg_err :: "error option"

text \<open>The state of a construction: the store and its first unused address.\<close>

record build =
  bld :: world
  next_peer :: peer_id

section \<open>Server options\<close>

type_synonym ServerOption = "Peer \<Rightarrow> Peer"

definition Weight_option :: "int \<Rightarrow> ServerOption" where
  "Weight_option w p = p\<lparr>Weight := w, explicit := explicit p OR serverFieldWeight\<rparr>"

definition MaxFails_option :: "int \<Rightarrow> ServerOption" where
  "MaxFails_option n p = p\<lparr>MaxFails := n, explicit := explicit p OR serverFieldMaxFails\<rparr>"

definition FailTimeout_option :: "duration \<Rightarrow> ServerOption" where
  "FailTimeout_option d p = p\<lparr>FailTimeout := d, explicit := explicit p OR serverFieldFailTimeout\<rparr>"

definition MaxConns_option :: "int \<Rightarrow> ServerOption" where
  "MaxConns_option n p = p\<lparr>MaxConns := n\<rparr>"

definition Backup_option :: ServerOption where
  "Backup_option p = p\<lparr>Backup := True\<rparr>"

definition Down_option :: ServerOption where
  "Down_option p = p\<lparr>Down := True\<rparr>"

text \<open>A composite literal \<open>&Peer{...}\<close> leaves the other fields at their zero values.\<close>

definition zero_Peer :: Peer where
  "zero_Peer =
     \<lparr>Addr = '''', Weight = 0, Down = False, MaxConns = 0, MaxFails = 0, FailTimeout = 0,
      Backup = False, explicit = 0, currentWeight = 0, effectiveWeight = 0, conns = 0, fails = 0,
      accessed = 0, checked = 0, checkedSeq = 0\<rparr>"

fun apply_server_options :: "ServerOption option list \<Rightarrow> Peer \<Rightarrow> bool \<Rightarrow> Peer \<times> bool" where
  "apply_server_options [] p nil_seen = (p, nil_seen)"
| "apply_server_options (None # opts) p nil_seen = apply_server_options opts p True"
| "apply_server_options (Some opt # opts) p nil_seen = apply_server_options opts (opt p) nil_seen"

definition Server :: "string \<Rightarrow> ServerOption option list \<Rightarrow> ServerConfig" where
  "Server addr opts =
     (case apply_server_options opts (zero_Peer\<lparr>Addr := addr\<rparr>) False of
        (p, nil_seen) \<Rightarrow>
          \<lparr>Address = addr, sc_Weight = Weight p, sc_Down = Down p, sc_MaxConns = MaxConns p,
           sc_MaxFails = MaxFails p, sc_FailTimeout = FailTimeout p, sc_Backup = Backup p,
           sc_explicit = explicit p, nilOption = nil_seen\<rparr>)"

section \<open>Upstream blocks\<close>

definition Upstream :: "string \<Rightarrow> ServerConfig list \<Rightarrow> UpstreamConfig" where
  "Upstream pattern servers =
     \<lparr>Pattern = pattern, Servers = servers, Algorithm = AlgoRoundRobin, HashFunc = None, SSLName = ''''\<rparr>"

definition UpstreamConfig_RoundRobin :: "UpstreamConfig \<Rightarrow> UpstreamConfig" where
  "UpstreamConfig_RoundRobin u = u\<lparr>Algorithm := AlgoRoundRobin, HashFunc := None\<rparr>"

definition UpstreamConfig_LeastConn :: "UpstreamConfig \<Rightarrow> UpstreamConfig" where
  "UpstreamConfig_LeastConn u = u\<lparr>Algorithm := AlgoLeastConn, HashFunc := None\<rparr>"

definition UpstreamConfig_IPHash :: "UpstreamConfig \<Rightarrow> UpstreamConfig" where
  "UpstreamConfig_IPHash u = u\<lparr>Algorithm := AlgoIPHash, HashFunc := None\<rparr>"

definition UpstreamConfig_Hash :: "hash_func option \<Rightarrow> UpstreamConfig \<Rightarrow> UpstreamConfig" where
  "UpstreamConfig_Hash keyFunc u = u\<lparr>Algorithm := AlgoHash, HashFunc := keyFunc\<rparr>"

definition UpstreamConfig_HashConsistent :: "hash_func option \<Rightarrow> UpstreamConfig \<Rightarrow> UpstreamConfig" where
  "UpstreamConfig_HashConsistent keyFunc u = u\<lparr>Algorithm := AlgoHashConsistent, HashFunc := keyFunc\<rparr>"

definition UpstreamConfig_Random :: "UpstreamConfig \<Rightarrow> UpstreamConfig" where
  "UpstreamConfig_Random u = u\<lparr>Algorithm := AlgoRandom, HashFunc := None\<rparr>"

definition UpstreamConfig_RandomTwo :: "UpstreamConfig \<Rightarrow> UpstreamConfig" where
  "UpstreamConfig_RandomTwo u = u\<lparr>Algorithm := AlgoRandomTwo, HashFunc := None\<rparr>"

definition ProxySSLName :: "string \<Rightarrow> UpstreamConfig \<Rightarrow> UpstreamConfig" where
  "ProxySSLName name u = u\<lparr>SSLName := name\<rparr>"

section \<open>Collecting errors\<close>

definition Transport_Err :: "Transport option \<Rightarrow> error option" where
  "Transport_Err t =
     (case t of None \<Rightarrow> Some (sentinelError ErrNilRoundTripper) | Some tr \<Rightarrow> initErr tr)"

definition addInitError :: "error option \<Rightarrow> Transport \<Rightarrow> Transport" where
  "addInitError err t =
     (if err = None then t
      else if initErr t = None then t\<lparr>initErr := err\<rparr>
      else t\<lparr>initErr := errors_Join [initErr t, err]\<rparr>)"

definition addError :: "error option \<Rightarrow> upstreamConfig \<Rightarrow> upstreamConfig" where
  "addError err cfg =
     (if err = None then cfg
      else if cfg_err cfg = None then cfg\<lparr>cfg_err := err\<rparr>
      else cfg\<lparr>cfg_err := errors_Join [cfg_err cfg, err]\<rparr>)"

section \<open>Validation\<close>

definition validate :: "ServerConfig \<Rightarrow> error option" where
  "validate server =
     (let err0 = None;
          err1 = (if nilOption server
                  then errors_Join [err0, Some (errorText ''cslb: nil server option'')] else err0);
          err2 = (if sc_Weight server < 0 \<or>
                     has (sc_explicit server) serverFieldWeight \<and> sc_Weight server = 0
                  then errors_Join [err1, Some (errorText ''weight must be greater than zero'')] else err1);
          err3 = (if sc_MaxConns server < 0
                  then errors_Join [err2, Some (errorText ''max_conns must be non-negative'')] else err2);
          err4 = (if sc_MaxFails server < 0
                  then errors_Join [err3, Some (errorText ''max_fails must be non-negative'')] else err3);
          err5 = (if sc_FailTimeout server < 0
                  then errors_Join [err4, Some (errorText ''fail_timeout must be non-negative'')] else err4)
      in err5)"

definition strings_Contains :: "string \<Rightarrow> string \<Rightarrow> bool" where
  "strings_Contains s sub \<longleftrightarrow> strings_Index s sub \<noteq> None"

text \<open>\<open>url.Parse\<close> followed by the test that scheme and host are present.\<close>

definition parse_full :: "string \<Rightarrow> url option" where
  "parse_full s =
     (case url_Parse s of
        None \<Rightarrow> None
      | Some u \<Rightarrow> if Scheme u = '''' \<or> Host_of u = '''' then None else Some u)"

definition addPeer :: "peer_id \<Rightarrow> string \<Rightarrow> upstreamConfig \<Rightarrow> upstreamConfig" where
  "addPeer peer addr cfg =
     (if addr = ''''
      then addError (Some (errorText ''cslb: backend address must not be empty'')) cfg
      else if strings_Contains addr ''://''
      then (case parse_full addr of
              None \<Rightarrow> addError (Some (errorText ''cslb: invalid backend address: %q'')) cfg
            | Some u \<Rightarrow>
                cfg\<lparr>cfg_peers := cfg_peers cfg @ [peer],
                    cfg_addrs := cfg_addrs cfg @ [(peer, \<lparr>ba_scheme = Scheme u, ba_host = Host_of u\<rparr>)]\<rparr>)
      else cfg\<lparr>cfg_peers := cfg_peers cfg @ [peer],
               cfg_addrs := cfg_addrs cfg @ [(peer, \<lparr>ba_scheme = defaultScheme cfg, ba_host = addr\<rparr>)]\<rparr>)"

definition supportedAlgorithm :: "AlgorithmType \<Rightarrow> bool" where
  "supportedAlgorithm a \<longleftrightarrow>
     a \<in> {AlgoRoundRobin, AlgoLeastConn, AlgoIPHash, AlgoHash, AlgoRandom, AlgoRandomTwo,
          AlgoHashConsistent}"

definition normalize :: "upstreamConfig \<Rightarrow> upstreamConfig" where
  "normalize cfg0 =
     (let cfg = (if cfg_hashFunc cfg0 \<noteq> None \<and> cfg_algo cfg0 = AlgoRoundRobin
                 then cfg0\<lparr>cfg_algo := AlgoHash\<rparr> else cfg0)
      in if \<not> supportedAlgorithm (cfg_algo cfg)
         then addError (Some (errorText ''unsupported load-balancing algorithm: %d'')) cfg
         else let cfg1 = (if cfg_hashFunc cfg \<noteq> None \<and> cfg_algo cfg \<noteq> AlgoHash \<and>
                             cfg_algo cfg \<noteq> AlgoHashConsistent
                          then addError (Some (errorText
                            ''cslb: hash key function can only be used with hash algorithm'')) cfg
                          else cfg)
              in if (cfg_algo cfg1 = AlgoHash \<or> cfg_algo cfg1 = AlgoHashConsistent) \<and>
                    cfg_hashFunc cfg1 = None
                 then addError (Some (errorText ''cslb: hash key function must not be nil'')) cfg1
                 else cfg1)"

section \<open>Registration\<close>

definition new_with :: "('a \<Rightarrow> Balancer) \<Rightarrow> 'a \<times> world \<Rightarrow> (Balancer \<times> world) outcome" where
  "new_with f r = Val (f (fst r), snd r)"

definition newBalancer ::
  "(nat \<Rightarrow> int \<Rightarrow> int) \<Rightarrow> AlgorithmType \<Rightarrow> peer_id option list \<Rightarrow> world \<Rightarrow> (Balancer \<times> world) outcome" where
  "newBalancer rand_Intn a ps w =
     (if a = AlgoLeastConn then new_with balLeastConn (NewLeastConn ps w)
      else if a = AlgoIPHash then new_with balIPHash (NewIPHash ps w)
      else if a = AlgoHash then new_with balHash (NewHash ps w)
      else if a = AlgoHashConsistent
      then (case NewHashConsistent ps w of
              Panic \<Rightarrow> Panic
            | Val (b, w1) \<Rightarrow> Val (balHashConsistent b, w1))
      else if a = AlgoRandom then new_with balRandom (NewRandom rand_Intn ps w)
      else if a = AlgoRandomTwo then new_with balRandom (NewRandomTwo rand_Intn ps w)
      else new_with balRoundRobin (NewRoundRobin ps w))"

definition newUpstreamConfig :: "string \<Rightarrow> upstreamConfig" where
  "newUpstreamConfig scheme =
     \<lparr>defaultScheme = scheme, cfg_peers = [], cfg_addrs = [], cfg_algo = AlgoRoundRobin,
      cfg_hashFunc = None, cfg_sslName = '''', cfg_err = None\<rparr>"

text \<open>The backends whose address names no scheme inherit the one of the pattern.\<close>

definition inherit_scheme :: "string \<Rightarrow> (peer_id \<Rightarrow> Peer) \<Rightarrow> upstreamConfig \<Rightarrow> upstreamConfig" where
  "inherit_scheme scheme h cfg =
     (if defaultScheme cfg = ''''
      then cfg\<lparr>defaultScheme := scheme,
               cfg_addrs := map (\<lambda>(p, a). if strings_Contains (Addr (h p)) ''://'' then (p, a)
                                           else (p, a\<lparr>ba_scheme := scheme\<rparr>)) (cfg_addrs cfg)\<rparr>
      else cfg)"

definition usable_peers :: "(peer_id \<Rightarrow> Peer) \<Rightarrow> peer_id list \<Rightarrow> nat" where
  "usable_peers h ps = length (filter (\<lambda>p. \<not> Down (h p)) ps)"

definition registerUpstream ::
  "(nat \<Rightarrow> int \<Rightarrow> int) \<Rightarrow> string \<Rightarrow> upstreamConfig \<Rightarrow> Transport \<Rightarrow> build \<Rightarrow> (Transport \<times> build) outcome" where
  "registerUpstream rand_Intn pattern cfg0 t b =
     (case parse_full pattern of
        None \<Rightarrow> Val (addInitError (Some (errorText ''cslb: invalid upstream pattern: %q'')) t, b)
      | Some u \<Rightarrow>
          let cfg = normalize (inherit_scheme (Scheme u) (heap (bld b)) cfg0);
              usablePeers = usable_peers (heap (bld b)) (cfg_peers cfg);
              key = \<lparr>key_scheme = Scheme u, key_host = Host_of u\<rparr>
          in (case cfg_err cfg of
                Some e \<Rightarrow> Val (addInitError (Some (wrapError ''cslb: upstream %q: %w'' e)) t, b)
              | None \<Rightarrow>
                  if cfg_peers cfg = []
                  then Val (addInitError (Some (errorText ''cslb: upstream %q has no backends'')) t, b)
                  else if usablePeers = 0
                  then Val (addInitError (Some (errorText
                         ''cslb: upstream %q has no usable backends: all servers are down'')) t, b)
                  else if map_of (upstreams t) key \<noteq> None
                  then Val (addInitError (Some (errorText ''cslb: duplicate upstream for %s://%s'')) t, b)
                  else (case newBalancer rand_Intn (cfg_algo cfg) (map Some (cfg_peers cfg)) (bld b) of
                          Panic \<Rightarrow> Panic
                        | Val (bal, w1) \<Rightarrow>
                            Val (t\<lparr>upstreams := upstreams t @
                                   [(key, \<lparr>balancer = Some bal, backends = cfg_addrs cfg,
                                           hashFunc = cfg_hashFunc cfg, algo = cfg_algo cfg,
                                           multipleUsablePeers = (1 < usablePeers),
                                           sslName = cfg_sslName cfg, ups_transport = None\<rparr>)]\<rparr>,
                                 b\<lparr>bld := w1\<rparr>))))"

definition server_peer :: "ServerConfig \<Rightarrow> Peer" where
  "server_peer server =
     zero_Peer\<lparr>Addr := Address server, Weight := sc_Weight server, Down := sc_Down server,
       MaxConns := sc_MaxConns server, MaxFails := sc_MaxFails server,
       FailTimeout := sc_FailTimeout server, Backup := sc_Backup server,
       explicit := sc_explicit server\<rparr>"

definition alloc_peer :: "Peer \<Rightarrow> build \<Rightarrow> peer_id \<times> build" where
  "alloc_peer p b =
     (next_peer b,
      b\<lparr>bld := (bld b)\<lparr>heap := (heap (bld b))(next_peer b := p)\<rparr>, next_peer := Suc (next_peer b)\<rparr>)"

fun add_servers :: "ServerConfig list \<Rightarrow> upstreamConfig \<Rightarrow> build \<Rightarrow> upstreamConfig \<times> build" where
  "add_servers [] cfg b = (cfg, b)"
| "add_servers (server # servers) cfg b =
     (case validate server of
        Some e \<Rightarrow> add_servers servers (addError (Some (wrapError ''server %q: %w'' e)) cfg) b
      | None \<Rightarrow>
          (case alloc_peer (server_peer server) b of
             (p, b1) \<Rightarrow> add_servers servers (addPeer p (Address server) cfg) b1))"

definition registerExplicitUpstream ::
  "(nat \<Rightarrow> int \<Rightarrow> int) \<Rightarrow> UpstreamConfig \<Rightarrow> Transport \<Rightarrow> build \<Rightarrow> (Transport \<times> build) outcome" where
  "registerExplicitUpstream rand_Intn ups t b =
     (let cfg0 = (newUpstreamConfig '''')\<lparr>cfg_algo := Algorithm ups, cfg_hashFunc := HashFunc ups,
                    cfg_sslName := SSLName ups\<rparr>
      in case add_servers (Servers ups) cfg0 b of
           (cfg, b1) \<Rightarrow> registerUpstream rand_Intn (Pattern ups) cfg t b1)"

section \<open>Transport options\<close>

type_synonym TransportOption = "Transport \<Rightarrow> build \<Rightarrow> (Transport \<times> build) outcome"

definition WithRoundTripper :: "RoundTripper option \<Rightarrow> TransportOption" where
  "WithRoundTripper rt t b =
     Val (case rt of
            None \<Rightarrow> addInitError (Some (sentinelError ErrNilRoundTripper)) t
          | Some r \<Rightarrow> t\<lparr>transport := Some r\<rparr>, b)"

definition WithTimeout :: "duration \<Rightarrow> TransportOption" where
  "WithTimeout d t b =
     Val (if d < 0
          then addInitError (Some (errorText ''cslb: attempt timeout must be non-negative'')) t
          else t\<lparr>timeout := d\<rparr>, b)"

definition WithConnectTimeout :: "duration \<Rightarrow> TransportOption" where
  "WithConnectTimeout d t b =
     Val (if d < 0
          then addInitError (Some (errorText ''cslb: connect timeout must be non-negative'')) t
          else t\<lparr>connectTimeout := d\<rparr>, b)"

definition WithMaxBodyBuffer :: "int \<Rightarrow> TransportOption" where
  "WithMaxBodyBuffer bytes t b =
     Val (if bytes < 0
          then addInitError (Some (errorText ''cslb: max body buffer must be non-negative'')) t
          else t\<lparr>maxBodyBuffer := bytes\<rparr>, b)"

definition WithNextUpstream :: "NextUpstreamCondition option \<Rightarrow> TransportOption" where
  "WithNextUpstream cond t b =
     Val (if cond = None
          then addInitError (Some (errorText ''cslb: next upstream condition must not be nil'')) t
          else t\<lparr>nextUpstream := cond\<rparr>, b)"

text \<open>
  The closure of \<open>WithNextUpstreamCodes\<close> reads the status of a response whenever there is no
  error; every response that reaches it is present.
\<close>

definition codes_condition :: "int list \<Rightarrow> NextUpstreamCondition" where
  "codes_condition codes resp err \<longleftrightarrow>
     err \<noteq> None \<or> (case resp of None \<Rightarrow> False | Some r \<Rightarrow> StatusCode r \<in> set codes)"

definition WithNextUpstreamCodes :: "int list \<Rightarrow> TransportOption" where
  "WithNextUpstreamCodes codes = WithNextUpstream (Some (codes_condition codes))"

definition WithNonIdempotentRetries :: TransportOption where
  "WithNonIdempotentRetries t b = Val (t\<lparr>retryNonIdempotent := True\<rparr>, b)"

fun WithUpstreams :: "(nat \<Rightarrow> int \<Rightarrow> int) \<Rightarrow> UpstreamConfig list \<Rightarrow> TransportOption" where
  "WithUpstreams rand_Intn [] t b = Val (t, b)"
| "WithUpstreams rand_Intn (u # us) t b =
     (case registerExplicitUpstream rand_Intn u t b of
        Panic \<Rightarrow> Panic
      | Val (t1, b1) \<Rightarrow> WithUpstreams rand_Intn us t1 b1)"

section \<open>The constructor\<close>

definition defaultMaxBodyBuffer :: int where
  "defaultMaxBodyBuffer = 32 * 2 ^ 20"

fun apply_options :: "TransportOption option list \<Rightarrow> TransportOption" where
  "apply_options [] t b = Val (t, b)"
| "apply_options (None # opts) t b =
     apply_options opts (addInitError (Some (errorText ''cslb: nil transport option'')) t) b"
| "apply_options (Some opt # opts) t b =
     (case opt t b of Panic \<Rightarrow> Panic | Val (t1, b1) \<Rightarrow> apply_options opts t1 b1)"

definition empty_Transport :: Transport where
  "empty_Transport =
     \<lparr>transport = None, upstreams = [], timeout = 0, connectTimeout = 0,
      maxBodyBuffer = defaultMaxBodyBuffer, nextUpstream = None, retryNonIdempotent = False,
      initErr = None\<rparr>"

definition default_transport :: "Transport \<Rightarrow> RoundTripper" where
  "default_transport t =
     stdTransport
       \<lparr>DialTimeout = (if connectTimeout t = 0 then 30 * time_Second else connectTimeout t),
        DialKeepAlive = 30 * time_Second, ForceAttemptHTTP2 = True, MaxIdleConns = 100,
        MaxIdleConnsPerHost = 100, IdleConnTimeout = 90 * time_Second,
        TLSHandshakeTimeout = 10 * time_Second, ExpectContinueTimeout = 1 * time_Second,
        TLS_ServerName = None\<rparr>"

text \<open>The clone of a standard transport that presents the upstream's TLS name.\<close>

definition ssl_upstream :: "RoundTripper \<Rightarrow> upstream \<Rightarrow> upstream" where
  "ssl_upstream rt ups =
     (if sslName ups = '''' then ups
      else case rt of
             stdTransport ht \<Rightarrow>
               ups\<lparr>ups_transport := Some (stdTransport (ht\<lparr>TLS_ServerName := Some (sslName ups)\<rparr>))\<rparr>
           | otherTransport _ \<Rightarrow> ups)"

fun ssl_errors :: "RoundTripper \<Rightarrow> (upstreamKey \<times> upstream) list \<Rightarrow> Transport \<Rightarrow> Transport" where
  "ssl_errors rt [] t = t"
| "ssl_errors rt ((k, ups) # us) t =
     ssl_errors rt us
       (if sslName ups = '''' then t
        else case rt of
               stdTransport _ \<Rightarrow> t
             | otherTransport _ \<Rightarrow>
                 addInitError (Some (errorText
                   ''cslb: ProxySSLName requires the underlying transport to be *http.Transport'')) t)"

definition NewTransportE ::
  "TransportOption option list \<Rightarrow> build \<Rightarrow> ((Transport \<times> error option) \<times> build) outcome" where
  "NewTransportE opts b =
     (case apply_options opts empty_Transport b of
        Panic \<Rightarrow> Panic
      | Val (t, b1) \<Rightarrow>
          let rt = (case transport t of None \<Rightarrow> default_transport t | Some r \<Rightarrow> r);
              t1 = t\<lparr>transport := Some rt\<rparr>;
              t2 = ssl_errors rt (upstreams t1) t1;
              t3 = t2\<lparr>upstreams := map (\<lambda>(k, ups). (k, ssl_upstream rt ups)) (upstreams t2)\<rparr>
          in Val ((t3, initErr t3), b1))"

definition NewTransport :: "TransportOption option list \<Rightarrow> build \<Rightarrow> (Transport \<times> build) outcome" where
  "NewTransport opts b =
     (case NewTransportE opts b of Panic \<Rightarrow> Panic | Val ((t, _), b1) \<Rightarrow> Val (t, b1))"

end
