(* ===== verification/Registration.thy ===== *)
theory Registration
  imports Config
begin

text \<open>
  What the registration of an upstream promises, stated without its loops, and the proof that
  the code of \<open>src/transport.go\<close> keeps the promise: a configuration is accepted as a whole or
  rejected with an error, and no server is ever dropped silently.
\<close>

section \<open>The specification\<close>

definition good_settings :: "ServerConfig \<Rightarrow> bool" where
  "good_settings s \<longleftrightarrow>
     \<not> nilOption s \<and> 0 \<le> sc_Weight s \<and>
     (has (sc_explicit s) serverFieldWeight \<longrightarrow> 0 < sc_Weight s) \<and>
     0 \<le> sc_MaxConns s \<and> 0 \<le> sc_MaxFails s \<and> 0 \<le> sc_FailTimeout s"

text \<open>Where the requests for a server address go, under a default scheme.\<close>

definition backend_of :: "string \<Rightarrow> string \<Rightarrow> backendAddr option" where
  "backend_of scheme addr =
     (if addr = '''' then None
      else if strings_Contains addr ''://''
      then map_option (\<lambda>u. \<lparr>ba_scheme = Scheme u, ba_host = Host_of u\<rparr>) (parse_full addr)
      else Some \<lparr>ba_scheme = scheme, ba_host = addr\<rparr>)"

definition good_server :: "ServerConfig \<Rightarrow> bool" where
  "good_server s \<longleftrightarrow> good_settings s \<and> backend_of '''' (Address s) \<noteq> None"

definition effective_algo :: "UpstreamConfig \<Rightarrow> AlgorithmType" where
  "effective_algo u =
     (if HashFunc u \<noteq> None \<and> Algorithm u = AlgoRoundRobin then AlgoHash else Algorithm u)"

definition keyed :: "AlgorithmType \<Rightarrow> bool" where
  "keyed a \<longleftrightarrow> a = AlgoHash \<or> a = AlgoHashConsistent"

definition key_of :: "'a url_scheme \<Rightarrow> upstreamKey" where
  "key_of u = \<lparr>key_scheme = Scheme u, key_host = Host_of u\<rparr>"

definition acceptable :: "UpstreamConfig \<Rightarrow> url \<Rightarrow> upstreamKey set \<Rightarrow> bool" where
  "acceptable c u keys \<longleftrightarrow>
     parse_full (Pattern c) = Some u \<and> key_of u \<notin> keys \<and>
     (\<forall>s \<in> set (Servers c). good_server s) \<and> (\<exists>s \<in> set (Servers c). \<not> sc_Down s) \<and>
     supportedAlgorithm (effective_algo c) \<and> (HashFunc c \<noteq> None \<longleftrightarrow> keyed (effective_algo c))"

section \<open>Errors are never lost\<close>

declare not_None_eq [simp del]

lemma errors_Join_last [simp]: "errors_Join [e, Some x] \<noteq> None"
  using errors_Join_None_iff [of "[e, Some x]"] by auto

lemma addError_Some [simp]: "cfg_err (addError (Some e) cfg) \<noteq> None"
  by (simp add: addError_def)

lemma addError_sel [simp]:
  "defaultScheme (addError e cfg) = defaultScheme cfg" "cfg_peers (addError e cfg) = cfg_peers cfg"
  "cfg_addrs (addError e cfg) = cfg_addrs cfg" "cfg_algo (addError e cfg) = cfg_algo cfg"
  "cfg_hashFunc (addError e cfg) = cfg_hashFunc cfg" "cfg_sslName (addError e cfg) = cfg_sslName cfg"
  by (simp_all add: addError_def)

lemma addError_keeps: "cfg_err cfg \<noteq> None \<Longrightarrow> cfg_err (addError e cfg) \<noteq> None"
  by (cases e) (simp_all, simp add: addError_def)

lemma addInitError_Some [simp]: "initErr (addInitError (Some e) t) \<noteq> None"
  by (simp add: addInitError_def)

lemma addInitError_sel [simp]:
  "transport (addInitError e t) = transport t" "upstreams (addInitError e t) = upstreams t"
  "timeout (addInitError e t) = timeout t" "connectTimeout (addInitError e t) = connectTimeout t"
  "maxBodyBuffer (addInitError e t) = maxBodyBuffer t" "nextUpstream (addInitError e t) = nextUpstream t"
  "retryNonIdempotent (addInitError e t) = retryNonIdempotent t"
  by (simp_all add: addInitError_def)

lemma addInitError_keeps: "initErr t \<noteq> None \<Longrightarrow> initErr (addInitError e t) \<noteq> None"
  by (cases e) (simp_all, simp add: addInitError_def)

lemma validate_None_iff: "validate s = None \<longleftrightarrow> good_settings s"
  by (auto simp: validate_def Let_def good_settings_def not_less)

section \<open>Servers\<close>

text \<open>The peers of the servers, at successive addresses.\<close>

fun place :: "Peer list \<Rightarrow> peer_id \<Rightarrow> (peer_id \<Rightarrow> Peer) \<Rightarrow> peer_id \<Rightarrow> Peer" where
  "place [] n h = h"
| "place (p # ps) n h = place ps (Suc n) (h(n := p))"

lemma place_eq: "place ps n h q = (if n \<le> q \<and> q < n + length ps then ps ! (q - n) else h q)"
  by (induction ps arbitrary: n h) (auto simp: nth_Cons')

lemma addPeer_good:
  "backend_of (defaultScheme cfg) addr = Some a \<Longrightarrow>
     addPeer p addr cfg = cfg\<lparr>cfg_peers := cfg_peers cfg @ [p], cfg_addrs := cfg_addrs cfg @ [(p, a)]\<rparr>"
  by (auto simp: backend_of_def addPeer_def split: if_splits option.splits)

lemma addPeer_bad: "backend_of scheme addr = None \<Longrightarrow> cfg_err (addPeer p addr cfg) \<noteq> None"
  by (auto simp: backend_of_def addPeer_def split: if_splits option.splits)

lemma addPeer_keeps: "cfg_err cfg \<noteq> None \<Longrightarrow> cfg_err (addPeer p addr cfg) \<noteq> None"
  by (auto simp: addPeer_def dest: addError_keeps split: if_splits option.splits)

lemma addPeer_sel [simp]:
  "cfg_algo (addPeer p addr cfg) = cfg_algo cfg" "cfg_hashFunc (addPeer p addr cfg) = cfg_hashFunc cfg"
  "cfg_sslName (addPeer p addr cfg) = cfg_sslName cfg"
  "defaultScheme (addPeer p addr cfg) = defaultScheme cfg"
  by (auto simp: addPeer_def split: option.splits)

lemma backend_of_None_iff: "backend_of s addr = None \<longleftrightarrow> backend_of s' addr = None"
  by (simp add: backend_of_def)

lemma add_servers_keeps_error:
  "cfg_err cfg \<noteq> None \<Longrightarrow> cfg_err (fst (add_servers ss cfg b)) \<noteq> None"
  by (induction ss cfg b rule: add_servers.induct)
    (auto simp: alloc_peer_def addError_keeps addPeer_keeps split: option.splits)

lemma add_servers_sel [simp]:
  "cfg_algo (fst (add_servers ss cfg b)) = cfg_algo cfg"
  "cfg_hashFunc (fst (add_servers ss cfg b)) = cfg_hashFunc cfg"
  "cfg_sslName (fst (add_servers ss cfg b)) = cfg_sslName cfg"
  "defaultScheme (fst (add_servers ss cfg b)) = defaultScheme cfg"
  by (induction ss cfg b rule: add_servers.induct) (auto simp: alloc_peer_def split: option.splits)

lemma add_servers_bad:
  assumes "s \<in> set ss" and "\<not> good_server s"
  shows "cfg_err (fst (add_servers ss cfg b)) \<noteq> None"
  using assms
proof (induction ss cfg b rule: add_servers.induct)
  case (2 server ss cfg b)
  show ?case
  proof (cases "s = server")
    case True
    show ?thesis
    proof (cases "validate server")
      case None
      with True "2.prems" have "backend_of '''' (Address server) = None"
        by (simp add: good_server_def validate_None_iff)
      with None show ?thesis
        by (simp add: alloc_peer_def add_servers_keeps_error addPeer_bad)
    next
      case (Some e)
      then show ?thesis by (simp add: add_servers_keeps_error)
    qed
  next
    case False
    with "2.prems" "2.IH" show ?thesis by (auto simp: alloc_peer_def split: option.splits)
  qed
qed simp

lemma add_servers_good:
  assumes "\<forall>s \<in> set ss. good_server s"
  shows "add_servers ss cfg b =
    (cfg\<lparr>cfg_peers := cfg_peers cfg @ [next_peer b..<next_peer b + length ss],
         cfg_addrs := cfg_addrs cfg @
           zip [next_peer b..<next_peer b + length ss]
               (map (\<lambda>s. the (backend_of (defaultScheme cfg) (Address s))) ss)\<rparr>,
     b\<lparr>bld := (bld b)\<lparr>heap := place (map server_peer ss) (next_peer b) (heap (bld b))\<rparr>,
       next_peer := next_peer b + length ss\<rparr>)"
  using assms
proof (induction ss arbitrary: cfg b)
  case (Cons s ss)
  have v: "validate s = None" using Cons.prems by (simp add: good_server_def validate_None_iff)
  obtain a where a: "backend_of (defaultScheme cfg) (Address s) = Some a"
    using Cons.prems backend_of_None_iff [of "''''" "Address s" "defaultScheme cfg"]
    by (cases "backend_of (defaultScheme cfg) (Address s)") (auto simp: good_server_def)
  have u: "[n..<n + length (s # ss)] = n # [Suc n..<Suc n + length ss]" for n :: nat
    by (simp add: upt_rec)
  show ?case
    using Cons.prems unfolding u
    by (simp add: v a alloc_peer_def addPeer_good [OF a] Cons.IH fun_upd_def)
qed simp

section \<open>Algorithm and scheme\<close>

definition effective :: "upstreamConfig \<Rightarrow> AlgorithmType" where
  "effective cfg =
     (if cfg_hashFunc cfg \<noteq> None \<and> cfg_algo cfg = AlgoRoundRobin then AlgoHash else cfg_algo cfg)"

lemma normalize_eq:
  "normalize cfg =
     (let cfg1 = cfg\<lparr>cfg_algo := effective cfg\<rparr>;
          cfg2 = (if cfg_hashFunc cfg \<noteq> None \<and> effective cfg \<noteq> AlgoHash \<and>
                     effective cfg \<noteq> AlgoHashConsistent
                  then addError (Some (errorText
                    ''cslb: hash key function can only be used with hash algorithm'')) cfg1
                  else cfg1)
      in if \<not> supportedAlgorithm (effective cfg)
         then addError (Some (errorText ''unsupported load-balancing algorithm: %d'')) cfg1
         else if (effective cfg = AlgoHash \<or> effective cfg = AlgoHashConsistent) \<and> cfg_hashFunc cfg = None
         then addError (Some (errorText ''cslb: hash key function must not be nil'')) cfg2
         else cfg2)"
proof -
  have "(if cfg_hashFunc cfg \<noteq> None \<and> cfg_algo cfg = AlgoRoundRobin
      then cfg\<lparr>cfg_algo := AlgoHash\<rparr> else cfg) = cfg\<lparr>cfg_algo := effective cfg\<rparr>"
    by (simp add: effective_def)
  then show ?thesis by (simp add: normalize_def Let_def del: algo_consts)
qed

lemma normalize_good:
  assumes "supportedAlgorithm (effective cfg)" and "cfg_hashFunc cfg \<noteq> None \<longleftrightarrow> keyed (effective cfg)"
  shows "normalize cfg = cfg\<lparr>cfg_algo := effective cfg\<rparr>"
  using assms unfolding normalize_eq keyed_def
  by (cases "cfg_hashFunc cfg = None") (auto simp: Let_def simp del: algo_consts)

lemma normalize_bad:
  assumes "\<not> (supportedAlgorithm (effective cfg) \<and> (cfg_hashFunc cfg \<noteq> None \<longleftrightarrow> keyed (effective cfg)))"
  shows "cfg_err (normalize cfg) \<noteq> None"
  using assms unfolding normalize_eq keyed_def
  by (cases "cfg_hashFunc cfg = None") (auto simp: Let_def addError_keeps simp del: algo_consts)

lemma normalize_keeps: "cfg_err cfg \<noteq> None \<Longrightarrow> cfg_err (normalize cfg) \<noteq> None"
  unfolding normalize_eq by (simp add: Let_def addError_keeps del: algo_consts)

lemma normalize_peers [simp]: "cfg_peers (normalize cfg) = cfg_peers cfg"
  unfolding normalize_eq by (simp add: Let_def del: algo_consts)

lemma inherit_scheme_sel [simp]:
  "cfg_err (inherit_scheme sch h cfg) = cfg_err cfg" "cfg_peers (inherit_scheme sch h cfg) = cfg_peers cfg"
  "cfg_algo (inherit_scheme sch h cfg) = cfg_algo cfg"
  "cfg_hashFunc (inherit_scheme sch h cfg) = cfg_hashFunc cfg"
  "cfg_sslName (inherit_scheme sch h cfg) = cfg_sslName cfg"
  "effective (inherit_scheme sch h cfg) = effective cfg"
  by (simp_all add: inherit_scheme_def effective_def)

text \<open>A server whose address names no scheme ends up with the scheme of the pattern.\<close>

lemma inherit_backend:
  assumes "backend_of '''' addr \<noteq> None"
  shows "(if strings_Contains addr ''://'' then the (backend_of '''' addr)
          else (the (backend_of '''' addr))\<lparr>ba_scheme := sch\<rparr>) = the (backend_of sch addr)"
  using assms by (auto simp: backend_of_def)

lemma inherit_servers:
  assumes "\<forall>s \<in> set ss. good_server s"
    and "\<And>i. i < length ss \<Longrightarrow> Addr (h (n + i)) = Address (ss ! i)"
  shows "map (\<lambda>(p, a). if strings_Contains (Addr (h p)) ''://'' then (p, a) else (p, a\<lparr>ba_scheme := sch\<rparr>))
      (zip [n..<n + length ss] (map (\<lambda>s. the (backend_of '''' (Address s))) ss)) =
    zip [n..<n + length ss] (map (\<lambda>s. the (backend_of sch (Address s))) ss)"
proof (rule nth_equalityI)
  fix i assume "i < length (map (\<lambda>(p, a). if strings_Contains (Addr (h p)) ''://'' then (p, a)
      else (p, a\<lparr>ba_scheme := sch\<rparr>))
      (zip [n..<n + length ss] (map (\<lambda>s. the (backend_of '''' (Address s))) ss)))"
  then have i: "i < length ss" by simp
  with assms(1) have "backend_of '''' (Address (ss ! i)) \<noteq> None" by (simp add: good_server_def)
  from inherit_backend [OF this, of sch] i assms(2) [OF i]
  show "map (\<lambda>(p, a). if strings_Contains (Addr (h p)) ''://'' then (p, a)
      else (p, a\<lparr>ba_scheme := sch\<rparr>))
      (zip [n..<n + length ss] (map (\<lambda>s. the (backend_of '''' (Address s))) ss)) ! i =
    zip [n..<n + length ss] (map (\<lambda>s. the (backend_of sch (Address s))) ss) ! i"
    by (auto split: if_splits)
qed simp

section \<open>Registration is all or nothing\<close>

text \<open>The state of the store once the peers of the servers exist.\<close>

definition with_peers :: "ServerConfig list \<Rightarrow> build \<Rightarrow> build" where
  "with_peers ss b =
     b\<lparr>bld := (bld b)\<lparr>heap := place (map server_peer ss) (next_peer b) (heap (bld b))\<rparr>,
       next_peer := next_peer b + length ss\<rparr>"

definition server_ids :: "ServerConfig list \<Rightarrow> build \<Rightarrow> peer_id list" where
  "server_ids ss b = [next_peer b..<next_peer b + length ss]"

text \<open>The upstream that the specification asks for, around a balancer.\<close>

definition registered :: "UpstreamConfig \<Rightarrow> url \<Rightarrow> build \<Rightarrow> Balancer \<Rightarrow> upstream" where
  "registered c u b bal =
     \<lparr>balancer = Some bal,
      backends = zip (server_ids (Servers c) b)
                     (map (\<lambda>s. the (backend_of (Scheme u) (Address s))) (Servers c)),
      hashFunc = HashFunc c, algo = effective_algo c,
      multipleUsablePeers = (1 < length (filter (\<lambda>s. \<not> sc_Down s) (Servers c))),
      sslName = SSLName c, ups_transport = None\<rparr>"

definition start_config :: "UpstreamConfig \<Rightarrow> upstreamConfig" where
  "start_config c =
     (newUpstreamConfig '''')\<lparr>cfg_algo := Algorithm c, cfg_hashFunc := HashFunc c,
       cfg_sslName := SSLName c\<rparr>"

lemma start_config_sel [simp]:
  "defaultScheme (start_config c) = ''''" "cfg_peers (start_config c) = []"
  "cfg_addrs (start_config c) = []" "cfg_err (start_config c) = None"
  "cfg_algo (start_config c) = Algorithm c" "cfg_hashFunc (start_config c) = HashFunc c"
  "cfg_sslName (start_config c) = SSLName c" "effective (start_config c) = effective_algo c"
  by (simp_all add: start_config_def newUpstreamConfig_def effective_def effective_algo_def)

lemma place_server:
  "i < length ss \<Longrightarrow> place (map server_peer ss) n h (n + i) = server_peer (ss ! i)"
  by (simp add: place_eq)

lemma server_peer_sel [simp]:
  "Addr (server_peer s) = Address s" "Down (server_peer s) = sc_Down s"
  "Backup (server_peer s) = sc_Backup s" "Weight (server_peer s) = sc_Weight s"
  "MaxConns (server_peer s) = sc_MaxConns s" "MaxFails (server_peer s) = sc_MaxFails s"
  "FailTimeout (server_peer s) = sc_FailTimeout s" "explicit (server_peer s) = sc_explicit s"
  "conns (server_peer s) = 0" "fails (server_peer s) = 0"
  by (simp_all add: server_peer_def zero_Peer_def)

lemma usable_servers:
  "usable_peers (place (map server_peer ss) n h) [n..<n + length ss] =
     length (filter (\<lambda>s. \<not> sc_Down s) ss)"
proof -
  have "map (place (map server_peer ss) n h) [n..<n + length ss] = map server_peer ss"
    by (rule nth_equalityI) (simp_all add: place_server)
  then have "filter (\<lambda>q. \<not> Down q) (map (place (map server_peer ss) n h) [n..<n + length ss]) =
      filter (\<lambda>q. \<not> Down q) (map server_peer ss)" by simp
  from arg_cong [OF this, of length] show ?thesis
    by (simp add: usable_peers_def filter_map comp_def)
qed

lemma key_present: "map_of m k \<noteq> None \<longleftrightarrow> k \<in> fst ` set m"
  by (simp add: map_of_eq_None_iff)

lemma register_accepts:
  assumes "acceptable c u (fst ` set (upstreams t))"
  shows "registerExplicitUpstream r c t b =
    (case newBalancer r (effective_algo c) (map Some (server_ids (Servers c) b))
            (bld (with_peers (Servers c) b)) of
       Panic \<Rightarrow> Panic
     | Val (bal, w) \<Rightarrow>
         Val (t\<lparr>upstreams := upstreams t @ [(key_of u, registered c u b bal)]\<rparr>,
              (with_peers (Servers c) b)\<lparr>bld := w\<rparr>))"
proof -
  let ?ss = "Servers c" and ?n = "next_peer b"
  from assms have good: "\<forall>s \<in> set ?ss. good_server s" and u: "parse_full (Pattern c) = Some u"
    and key: "map_of (upstreams t) (key_of u) = None" and up: "\<exists>s \<in> set ?ss. \<not> sc_Down s"
    and alg: "supportedAlgorithm (effective_algo c)" "HashFunc c \<noteq> None \<longleftrightarrow> keyed (effective_algo c)"
    by (auto simp: acceptable_def map_of_eq_None_iff)
  define cfg where "cfg = fst (add_servers ?ss (start_config c) b)"
  have add: "add_servers ?ss (start_config c) b = (cfg, with_peers ?ss b)"
    unfolding cfg_def by (simp add: add_servers_good [OF good] with_peers_def)
  have cfg: "cfg = (start_config c)\<lparr>cfg_peers := server_ids ?ss b,
      cfg_addrs := zip (server_ids ?ss b) (map (\<lambda>s. the (backend_of '''' (Address s))) ?ss)\<rparr>"
    unfolding cfg_def by (simp add: add_servers_good [OF good] server_ids_def)
  have h: "heap (bld (with_peers ?ss b)) = place (map server_peer ?ss) ?n (heap (bld b))"
    by (simp add: with_peers_def)
  have inh: "normalize (inherit_scheme (Scheme u) (heap (bld (with_peers ?ss b))) cfg) =
      cfg\<lparr>defaultScheme := Scheme u, cfg_algo := effective_algo c,
        cfg_addrs := zip (server_ids ?ss b)
          (map (\<lambda>s. the (backend_of (Scheme u) (Address s))) ?ss)\<rparr>"
  proof -
    let ?i = "inherit_scheme (Scheme u) (heap (bld (with_peers ?ss b))) cfg"
    have e: "effective ?i = effective_algo c" by (simp add: cfg effective_def effective_algo_def)
    have hf: "cfg_hashFunc ?i = HashFunc c" by (simp add: cfg)
    note normalize_good [of ?i, unfolded e hf, OF alg]
    with inherit_servers [OF good, of "heap (bld (with_peers ?ss b))" ?n "Scheme u"]
    show ?thesis by (simp add: cfg inherit_scheme_def server_ids_def h place_server)
  qed
  have use: "usable_peers (heap (bld (with_peers ?ss b))) (server_ids ?ss b) =
      length (filter (\<lambda>s. \<not> sc_Down s) ?ss)"
    unfolding h server_ids_def by (rule usable_servers)
  have "length (filter (\<lambda>s. \<not> sc_Down s) ?ss) \<noteq> 0" "server_ids ?ss b \<noteq> []"
    using up by (auto simp: filter_empty_conv server_ids_def)
  moreover define N where "N = normalize (inherit_scheme (Scheme u) (heap (bld (with_peers ?ss b))) cfg)"
  have "cfg_err N = None" "cfg_peers N = server_ids ?ss b" "cfg_algo N = effective_algo c"
    "cfg_addrs N = zip (server_ids ?ss b) (map (\<lambda>s. the (backend_of (Scheme u) (Address s))) ?ss)"
    "cfg_hashFunc N = HashFunc c" "cfg_sslName N = SSLName c"
    unfolding N_def inh by (simp_all add: cfg)
  ultimately show ?thesis
    using u key use
    unfolding registerExplicitUpstream_def start_config_def [symmetric] Let_def registerUpstream_def
      add prod.case
    by (simp add: N_def [symmetric] registered_def key_of_def split: outcome.split)
qed

lemma register_rejects:
  assumes "\<forall>u. \<not> acceptable c u (fst ` set (upstreams t))"
  shows "\<exists>e. registerExplicitUpstream r c t b =
    Val (addInitError (Some e) t, snd (add_servers (Servers c) (start_config c) b))"
proof -
  obtain cfg b1 where add: "add_servers (Servers c) (start_config c) b = (cfg, b1)" by fastforce
  show ?thesis
  proof (cases "parse_full (Pattern c)")
    case None
    with add show ?thesis
      unfolding registerExplicitUpstream_def start_config_def [symmetric] Let_def registerUpstream_def
      by auto
  next
    case (Some u)
    let ?cfg = "normalize (inherit_scheme (Scheme u) (heap (bld b1)) cfg)"
    have "usable_peers (heap (bld b1)) (cfg_peers ?cfg) = 0 \<or> map_of (upstreams t) (key_of u) \<noteq> None"
      if ok: "cfg_err ?cfg = None"
    proof -
      have "cfg_err cfg = None" using ok normalize_keeps by (metis inherit_scheme_sel(1))
      then have good: "\<forall>s \<in> set (Servers c). good_server s" using add add_servers_bad by (metis fst_conv)
      have sel: "effective cfg = effective_algo c" "cfg_hashFunc cfg = HashFunc c"
        using add_servers_sel [of "Servers c" "start_config c" b] add
        by (simp_all add: effective_def effective_algo_def)
      have "supportedAlgorithm (effective_algo c) \<and> (HashFunc c \<noteq> None \<longleftrightarrow> keyed (effective_algo c))"
        by (rule ccontr)
          (use ok normalize_bad [of "inherit_scheme (Scheme u) (heap (bld b1)) cfg"] in \<open>simp add: sel\<close>)
      with assms Some good have "(\<forall>s \<in> set (Servers c). sc_Down s) \<or> key_of u \<in> fst ` set (upstreams t)"
        by (auto simp: acceptable_def)
      moreover have "usable_peers (heap (bld b1)) (cfg_peers cfg) =
          length (filter (\<lambda>s. \<not> sc_Down s) (Servers c))"
        using add usable_servers by (auto simp: add_servers_good [OF good])
      ultimately show ?thesis by (auto simp: key_present)
    qed
    with add Some show ?thesis
      unfolding registerExplicitUpstream_def start_config_def [symmetric] Let_def registerUpstream_def
      by (auto simp: key_of_def split: option.split)
  qed
qed

end
