(* ===== verification/Transport_Build.thy ===== *)
theory Transport_Build
  imports Registration Ring
begin

text \<open>
  What the constructor of a transport establishes (\<open>NewTransportE\<close> of \<open>src/transport.go\<close>):
  every registered upstream has a well-formed balancer over a fresh store and an address for
  every peer the balancer can return, so that the results on the balancers apply to it.
\<close>

section \<open>Constructing a balancer\<close>

lemma NewRoundRobin_build:
  "NewRoundRobin ps w = (rr, w') \<longleftrightarrow> BuildGroups ps w = (primary rr, backup rr, w')"
  by (cases "BuildGroups ps w") (auto simp: NewRoundRobin_def)

fun algo_matches :: "AlgorithmType \<Rightarrow> Balancer \<Rightarrow> bool" where
  "algo_matches a (balRoundRobin _) = (a = AlgoRoundRobin)"
| "algo_matches a (balLeastConn _) = (a = AlgoLeastConn)"
| "algo_matches a (balIPHash _) = (a = AlgoIPHash)"
| "algo_matches a (balHash _) = (a = AlgoHash)"
| "algo_matches a (balHashConsistent _) = (a = AlgoHashConsistent)"
| "algo_matches a (balRandom _) = (a = AlgoRandom \<or> a = AlgoRandomTwo)"

text \<open>Every balancer is built on the groups of its servers.\<close>

lemma newBalancer_base:
  assumes "newBalancer r a ps w = Val (bal, w')" and "supportedAlgorithm a"
  shows "BuildGroups ps w = (primary (base bal), backup (base bal), w')" and "algo_matches a bal"
proof -
  have "NewRoundRobin ps w = (base bal, w') \<and> algo_matches a bal"
    using assms
    by (auto simp: newBalancer_def new_with_def supportedAlgorithm_def NewLeastConn_def NewIPHash_def
        NewHash_def NewHashConsistent_def NewRandom_def NewRandomTwo_def newRandom_def
        split: if_splits prod.splits outcome.splits)
  then show "BuildGroups ps w = (primary (base bal), backup (base bal), w')" "algo_matches a bal"
    by (simp_all add: NewRoundRobin_build)
qed

text \<open>The hashes of a ring are pairwise different 32-bit words.\<close>

lemma ring_length:
  assumes "buildChashRing h ps = Val pts"
  shows "length pts \<le> 2 ^ 32"
proof -
  have "distinct (map pt_hash pts)"
    using ring_mem(2) [OF assms]
    by (auto simp: strict_ring_def distinct_conv_nth sorted_wrt_iff_nth_less)
      (metis less_irrefl nat_neq_iff)
  then have "length pts = card (set (map pt_hash pts))" by (simp only: distinct_card length_map)
  also have "\<dots> \<le> card (UNIV :: u32 set)" by (rule card_mono) simp_all
  also have "\<dots> = 2 ^ 32" by (simp add: card_word)
  finally show ?thesis .
qed

lemma ranges_peers: "map wr_peer (build_ranges h ps n) = ps"
  by (induction h ps n rule: build_ranges.induct) (simp_all add: Let_def)

section \<open>Weights\<close>

definition small_weights :: "peer_id list \<Rightarrow> (peer_id \<Rightarrow> Peer) \<Rightarrow> bool" where
  "small_weights ps h \<longleftrightarrow> (\<Sum>p\<leftarrow>ps. Weight (peer_init (h p))) < 2 ^ 31"

lemma init_weight_ge: "int (length ps) \<le> (\<Sum>p\<leftarrow>ps. Weight (peer_init (h p)))"
proof (induction ps)
  case (Cons p ps)
  have "1 \<le> Weight (peer_init (h p))" using peer_init_ready(4) [of "h p"] by linarith
  with Cons show ?case by simp
qed simp

lemma small_weights_filter:
  assumes "small_weights ps h"
  shows "small_weights (filter P ps) h"
proof -
  have "(\<Sum>p\<leftarrow>filter P ps. Weight (peer_init (h p))) \<le> (\<Sum>p\<leftarrow>ps. Weight (peer_init (h p)))"
    by (induction ps) (auto intro: add_mono order_trans [OF _ add_mono [OF less_imp_le [OF peer_init_ready(4)]]])
  with assms show ?thesis by (simp add: small_weights_def)
qed

lemma small_weight_sum:
  assumes "small_weights qs h" and "distinct qs" and "set qs \<subseteq> set ps"
  shows "weight_sum qs (init_all ps h) = (\<Sum>p\<leftarrow>qs. Weight (peer_init (h p)))"
    and "weights_fit qs (init_all ps h)"
proof -
  show eq: "weight_sum qs (init_all ps h) = (\<Sum>p\<leftarrow>qs. Weight (peer_init (h p)))"
    unfolding weight_sum_def using assms(2,3)
    by (auto simp: sum_list_distinct_conv_sum_set init_all_def intro!: sum.cong)
  let ?W = "\<Sum>p\<leftarrow>qs. Weight (peer_init (h p))"
  have W: "?W < 2 ^ 31" "0 \<le> ?W" "int (length qs) \<le> ?W"
    using assms(1) init_weight_ge [where ps = qs and h = h] by (simp_all add: small_weights_def)
  have "int (card (set qs)) * ?W \<le> ?W * ?W"
    using W by (intro mult_right_mono) (simp_all add: distinct_card [OF assms(2)])
  also have "\<dots> \<le> 2 ^ 31 * 2 ^ 31" using W by (intro mult_mono) simp_all
  finally show "weights_fit qs (init_all ps h)" by (simp add: weights_fit_def eq)
qed

lemma small_divisor:
  assumes "small_weights qs h"
  shows "divisor_ok (extend_group qs h empty_group)"
    and "divisor_ok ((extend_group qs h empty_group)\<lparr>single := x\<rparr>)"
proof -
  let ?W = "\<Sum>p\<leftarrow>qs. Weight (peer_init (h p))"
  have W: "?W < 2 ^ 31" "int (length qs) \<le> ?W"
    using assms init_weight_ge [where ps = qs and h = h] by (simp_all add: small_weights_def)
  then have "TotalWeight (extend_group qs h empty_group) = ?W"
    by (simp add: extend_group_def empty_group_def i64_id in_i64_def)
  with W show d: "divisor_ok (extend_group qs h empty_group)"
    using total_u32_small [of "extend_group qs h empty_group"] by (auto simp: divisor_ok_def)
  then show "divisor_ok ((extend_group qs h empty_group)\<lparr>single := x\<rparr>)"
    by (simp add: divisor_ok_def total_u32_def)
qed

lemma total_points_exact:
  assumes "0 \<le> n" and "n + 160 * (\<Sum>p\<leftarrow>qs. Weight (h p)) < 2 ^ 63" and "\<forall>p \<in> set qs. 0 < Weight (h p)"
  shows "total_points h (map Some qs) n = n + 160 * (\<Sum>p\<leftarrow>qs. Weight (h p))"
  using assms
proof (induction qs arbitrary: n)
  case (Cons p qs)
  have pos: "0 \<le> (\<Sum>p\<leftarrow>qs. Weight (h p))" using Cons.prems(3) by (intro sum_list_nonneg) fastforce
  have p: "0 < Weight (h p)" using Cons.prems(3) by simp
  have "i64 (n + i64 (Weight (h p) * consistentReplicas)) = n + 160 * Weight (h p)"
    using Cons.prems(1,2) pos p by (simp add: consistentReplicas_def i64_id in_i64_def)
  with Cons p show ?case by (simp add: algebra_simps)
qed simp

lemma small_ring:
  assumes "small_weights qs h" and "set qs \<subseteq> set ps"
  shows "\<exists>pts. buildChashRing (init_all ps h) (map Some qs) = Val pts"
proof -
  have eq: "(\<Sum>p\<leftarrow>qs. Weight (init_all ps h p)) = (\<Sum>p\<leftarrow>qs. Weight (peer_init (h p)))"
    using assms(2) by (intro arg_cong [where f = sum_list] map_cong) (auto simp: init_all_def)
  have W: "(\<Sum>p\<leftarrow>qs. Weight (peer_init (h p))) < 2 ^ 31"
    "int (length qs) \<le> (\<Sum>p\<leftarrow>qs. Weight (peer_init (h p)))"
    using assms(1) init_weight_ge [where ps = qs and h = h] by (simp_all add: small_weights_def)
  have "total_points (init_all ps h) (map Some qs) 0 = 0 + 160 * (\<Sum>p\<leftarrow>qs. Weight (init_all ps h p))"
    by (rule total_points_exact) (use assms(2) W eq in \<open>auto simp: init_all_def\<close>)
  with W eq show ?thesis by (simp add: buildChashRing_def)
qed

section \<open>A new balancer is ready\<close>

text \<open>The peers of a balancer, and a store that suits its groups.\<close>

definition balancer_peers :: "Balancer \<Rightarrow> peer_id set" where
  "balancer_peers bal = pool (embedded (NewPicker bal))"

definition groups_ready :: "Balancer \<Rightarrow> (peer_id \<Rightarrow> Peer) \<Rightarrow> bool" where
  "groups_ready bal h \<longleftrightarrow> (\<forall>ps \<in> group_lists bal. balanced ps h \<and> weights_fit ps h)"

lemma group_lists_pool: "ps \<in> group_lists bal \<Longrightarrow> set ps \<subseteq> balancer_peers bal"
  by (auto simp: group_lists_def balancer_peers_def pool_def backup_peers_def NewRRPicker_def
      split: option.splits)

lemma newBalancer_returns:
  assumes "small_weights ids (heap w)"
  shows "\<exists>bal w'. newBalancer r a (map Some ids) w = Val (bal, w')"
proof -
  obtain rr w1 where rr: "NewRoundRobin (map Some ids) w = (rr, w1)" by fastforce
  have eq: "heap w1 = init_all ids (heap w)" "Peers (primary rr) = filter (\<lambda>p. \<not> Backup (heap w p)) ids"
    using rr [unfolded NewRoundRobin_build, symmetric]
    by (auto simp: BuildGroups_eq Let_def primaries_def split: if_splits)
  have "\<exists>pts. buildChashRing (heap w1) (map Some (Peers (primary rr))) = Val pts"
    unfolding eq using small_ring [OF small_weights_filter [OF assms]] by auto
  with rr show ?thesis
    by (auto simp: newBalancer_def new_with_def NewHashConsistent_def)
qed

lemma newBalancer_ready:
  assumes new: "newBalancer r a (map Some ids) w = Val (bal, w')" and a: "supportedAlgorithm a"
    and d: "distinct ids" and small: "small_weights ids (heap w)"
  shows "balancer_wf bal" and "groups_ready bal (heap w')" and "balancer_peers bal = set ids"
    and "w' = w\<lparr>heap := init_all ids (heap w)\<rparr>"
proof -
  note base = newBalancer_base [OF new a]
  let ?P = "filter (\<lambda>p. \<not> Backup (heap w p)) ids" and ?B = "filter (\<lambda>p. Backup (heap w p)) ids"
  note eq = base(1) [symmetric, unfolded BuildGroups_eq primaries_def backups_def pointers_map_Some Let_def]
  show w': "w' = w\<lparr>heap := init_all ids (heap w)\<rparr>" using eq by (auto split: if_splits)
  have gl: "group_lists bal = {?P, ?B}"
    using eq by (auto simp: group_lists_def split: if_splits)
  show "balancer_peers bal = set ids"
    using eq by (auto simp: balancer_peers_def pool_def backup_peers_def NewRRPicker_def
        filter_empty_conv split: if_splits)
  show "groups_ready bal (heap w')"
    unfolding groups_ready_def gl w'
    using d balanced_init small_weight_sum(2) [OF small_weights_filter [OF small]] by auto
  have "divisors_ok (NewRRPicker (primary (base bal)) (backup (base bal)))"
    using eq small_divisor [OF small_weights_filter [OF small]]
    by (auto simp: divisors_ok_def NewRRPicker_def split: if_splits)
  moreover have "groups_wf (primary (base bal)) (backup (base bal))"
    using BuildGroups_groups_wf [OF base(1)] d by simp
  moreover have "int (length (points b)) + 21 < 2 ^ 63" if "bal = balHashConsistent b" for b
  proof -
    have "\<exists>h ps. buildChashRing h ps = Val (points b)"
      using new that by (auto simp: newBalancer_def new_with_def NewHashConsistent_def
          split: if_splits prod.splits outcome.splits) blast
    then have "length (points b) \<le> 2 ^ 32" using ring_length by blast
    then show ?thesis by simp
  qed
  moreover have "map wr_peer (ranges b) = Peers (primary (rd_rr b))" if "bal = balRandom b" for b
    using new that by (auto simp: newBalancer_def new_with_def NewRandom_def NewRandomTwo_def
        newRandom_def ranges_peers split: if_splits prod.splits outcome.splits)
  ultimately show "balancer_wf bal" by (cases bal) (simp_all add: balancer_wf_def)
qed

section \<open>The invariant of a transport under construction\<close>

text \<open>
  An upstream is ready in a store if its balancer is well formed, suits the store, has an
  address for each of its peers, is of the type its algorithm asks for, has a key function
  where the algorithm needs one, and can reach a server that is not down.
\<close>

definition upstream_ready :: "(peer_id \<Rightarrow> Peer) \<Rightarrow> upstream \<Rightarrow> bool" where
  "upstream_ready h ups \<longleftrightarrow>
     (\<exists>bal. balancer ups = Some bal \<and> balancer_wf bal \<and> groups_ready bal h \<and>
        balancer_peers bal = fst ` set (backends ups) \<and> algo_matches (algo ups) bal \<and>
        (hashFunc ups \<noteq> None \<longleftrightarrow> keyed (algo ups)) \<and>
        (\<exists>p \<in> balancer_peers bal. \<not> Down (h p)))"

definition idle_store :: "(peer_id \<Rightarrow> Peer) \<Rightarrow> bool" where
  "idle_store h \<longleftrightarrow> (\<forall>p. conns (h p) = 0 \<and> MaxConns (h p) < 2 ^ 63)"

definition build_inv :: "Transport \<Rightarrow> build \<Rightarrow> bool" where
  "build_inv t b \<longleftrightarrow>
     idle_store (heap (bld b)) \<and> distinct (map fst (upstreams t)) \<and>
     (\<forall>(k, ups) \<in> set (upstreams t).
        upstream_ready (heap (bld b)) ups \<and> (\<forall>p \<in> fst ` set (backends ups). p < next_peer b))"

text \<open>The weights a configuration asks for; \<open>MaxConns\<close> is a 64-bit integer.\<close>

definition server_weight :: "ServerConfig \<Rightarrow> int" where
  "server_weight s = (if sc_Weight s \<le> 0 then 1 else sc_Weight s)"

definition moderate :: "UpstreamConfig \<Rightarrow> bool" where
  "moderate c \<longleftrightarrow>
     (\<Sum>s\<leftarrow>Servers c. server_weight s) < 2 ^ 31 \<and> (\<forall>s \<in> set (Servers c). sc_MaxConns s < 2 ^ 63)"

lemma ready_cong:
  assumes "upstream_ready h ups" and "\<forall>p \<in> fst ` set (backends ups). h' p = h p"
  shows "upstream_ready h' ups"
proof -
  from assms(1) obtain bal where bal: "balancer ups = Some bal" "balancer_wf bal" "groups_ready bal h"
    "balancer_peers bal = fst ` set (backends ups)" "algo_matches (algo ups) bal"
    "hashFunc ups \<noteq> None \<longleftrightarrow> keyed (algo ups)" "\<exists>p \<in> balancer_peers bal. \<not> Down (h p)"
    unfolding upstream_ready_def by blast
  have same: "h' p = h p" if "p \<in> balancer_peers bal" for p using that assms(2) bal(4) by blast
  have "balanced ps h' = balanced ps h \<and> weights_fit ps h' = weights_fit ps h"
    if "ps \<in> group_lists bal" for ps
  proof -
    have eq: "\<forall>p \<in> set ps. h' p = h p" using same group_lists_pool [OF that] by blast
    then have "weight_sum ps h' = weight_sum ps h" unfolding weight_sum_def by (intro sum.cong) auto
    moreover have "(\<Sum>p\<in>K. currentWeight (h' p)) = (\<Sum>p\<in>K. currentWeight (h p))" if "K \<subseteq> set ps" for K
      using that eq by (intro sum.cong) auto
    ultimately show ?thesis using eq by (auto simp: balanced_def weights_fit_def ledger_ok_def)
  qed
  with bal(3) have "groups_ready bal h'" by (simp add: groups_ready_def)
  with bal same show ?thesis by (auto simp: upstream_ready_def)
qed

lemma server_ids_weights:
  "(\<Sum>p\<leftarrow>server_ids ss b. Weight (peer_init (heap (bld (with_peers ss b)) p))) =
     (\<Sum>s\<leftarrow>ss. server_weight s)"
proof -
  have "map (\<lambda>p. Weight (peer_init (heap (bld (with_peers ss b)) p))) (server_ids ss b) =
      map server_weight ss"
    by (rule nth_equalityI)
      (simp_all add: server_ids_def with_peers_def place_server peer_init_Weight server_weight_def)
  then show ?thesis by simp
qed

lemma server_ids_nth: "p \<in> set (server_ids ss b) \<longleftrightarrow> (\<exists>i < length ss. p = next_peer b + i)"
  by (auto simp: server_ids_def) presburger

lemma register_ready:
  assumes inv: "build_inv t b" and acc: "acceptable c u (fst ` set (upstreams t))" and m: "moderate c"
    and new: "newBalancer r (effective_algo c) (map Some (server_ids (Servers c) b))
        (bld (with_peers (Servers c) b)) = Val (bal, w)"
  shows "build_inv (t\<lparr>upstreams := upstreams t @ [(key_of u, registered c u b bal)]\<rparr>)
    ((with_peers (Servers c) b)\<lparr>bld := w\<rparr>)"
proof -
  let ?ss = "Servers c" and ?h0 = "heap (bld (with_peers (Servers c) b))"
  let ?ids = "server_ids ?ss b"
  have small: "small_weights ?ids ?h0"
    using m by (simp add: small_weights_def server_ids_weights moderate_def)
  have alg: "supportedAlgorithm (effective_algo c)" using acc by (simp add: acceptable_def)
  have d: "distinct ?ids" by (simp add: server_ids_def)
  note ok = newBalancer_ready [OF new alg d small]
  have h: "heap w = init_all ?ids ?h0" using ok(4) by simp
  have ids: "?h0 (next_peer b + i) = server_peer (?ss ! i)" if "i < length ?ss" for i
    using that by (simp add: with_peers_def place_server)
  have old: "heap w p = heap (bld b) p" if "p \<notin> set ?ids" for p
    using that by (auto simp: h init_all_def with_peers_def place_eq server_ids_nth)
      (metis le_add_diff_inverse nat_add_left_cancel_less)
  have idle: "conns (heap w p) = 0 \<and> MaxConns (heap w p) < 2 ^ 63" for p
  proof (cases "p \<in> set ?ids")
    case True
    then obtain i where i: "i < length ?ss" "p = next_peer b + i" by (auto simp: server_ids_nth)
    with True m nth_mem [OF i(1)] show ?thesis by (simp add: h init_all_def ids moderate_def)
  next
    case False
    with inv old show ?thesis by (simp add: build_inv_def idle_store_def)
  qed
  have keep: "upstream_ready (heap w) ups \<and> (\<forall>p \<in> fst ` set (backends ups). p < next_peer b)"
    if "(k, ups) \<in> set (upstreams t)" for k ups
  proof -
    from inv that have r: "upstream_ready (heap (bld b)) ups" "\<forall>p \<in> fst ` set (backends ups). p < next_peer b"
      by (auto simp: build_inv_def)
    have "\<forall>p \<in> fst ` set (backends ups). heap w p = heap (bld b) p"
      using r(2) old by (metis leD le_add1 server_ids_nth)
    with r ready_cong show ?thesis by blast
  qed
  have "\<exists>p \<in> set ?ids. \<not> Down (heap w p)"
  proof -
    from acc obtain i where "i < length ?ss" "\<not> sc_Down (?ss ! i)"
      by (auto simp: acceptable_def in_set_conv_nth)
    with ids show ?thesis by (auto simp: h init_all_def server_ids_nth intro!: bexI [of _ "next_peer b + i"])
  qed
  moreover have "fst ` set (backends (registered c u b bal)) = set ?ids"
    by (simp add: registered_def server_ids_def set_map [symmetric] del: set_map)
  ultimately have "upstream_ready (heap w) (registered c u b bal)"
    "\<forall>p \<in> fst ` set (backends (registered c u b bal)). p < next_peer b + length ?ss"
    using ok(1-3) acc newBalancer_base(2) [OF new alg]
    by (auto simp: upstream_ready_def registered_def acceptable_def server_ids_nth)
  moreover have "key_of u \<notin> fst ` set (upstreams t)" using acc by (simp add: acceptable_def)
  moreover have "distinct (map fst (upstreams t))" using inv by (simp add: build_inv_def)
  moreover have "upstream_ready (heap w) ups \<and>
      (\<forall>p \<in> fst ` set (backends ups). p < next_peer b + length ?ss)"
    if "(k, ups) \<in> set (upstreams t)" for k ups
    using keep [OF that] by (meson trans_less_add1)
  ultimately show ?thesis
    using idle unfolding build_inv_def idle_store_def
    by (auto simp: with_peers_def) fastforce
qed

lemma build_inv_error: "build_inv t b \<Longrightarrow> build_inv (addInitError e t) b"
  by (simp add: build_inv_def)

text \<open>A rejected upstream may leave unused peers behind, and nothing else.\<close>

lemma add_servers_build:
  assumes "\<forall>s \<in> set ss. sc_MaxConns s < 2 ^ 63" and "build_inv t b"
  shows "build_inv t (snd (add_servers ss cfg b))"
  using assms
proof (induction ss cfg b rule: add_servers.induct)
  case (2 s ss cfg b)
  have "build_inv t (snd (alloc_peer (server_peer s) b))"
  proof -
    let ?h = "heap (bld (snd (alloc_peer (server_peer s) b)))"
    have h: "?h = (heap (bld b))(next_peer b := server_peer s)" by (simp add: alloc_peer_def)
    have "upstream_ready ?h ups \<and> (\<forall>p \<in> fst ` set (backends ups). p < Suc (next_peer b))"
      if "(k, ups) \<in> set (upstreams t)" for k ups
    proof -
      from that "2.prems"(2) have r: "upstream_ready (heap (bld b)) ups"
        "\<forall>p \<in> fst ` set (backends ups). p < next_peer b" by (auto simp: build_inv_def)
      have "upstream_ready ?h ups" by (rule ready_cong [OF r(1)]) (use r(2) h in auto)
      with r(2) show ?thesis by (meson less_SucI)
    qed
    moreover have "idle_store ?h"
      using "2.prems" by (simp add: h build_inv_def idle_store_def)
    ultimately show ?thesis
      using "2.prems"(2) unfolding build_inv_def by (auto simp: alloc_peer_def)
  qed
  with "2.IH" "2.prems" show ?case by (auto split: option.split prod.split)
qed simp

lemma registerExplicit_inv:
  assumes inv: "build_inv t b" and m: "moderate c"
  shows "\<exists>t' b'. registerExplicitUpstream r c t b = Val (t', b') \<and> build_inv t' b'"
proof (cases "\<exists>u. acceptable c u (fst ` set (upstreams t))")
  case True
  then obtain u where acc: "acceptable c u (fst ` set (upstreams t))" by blast
  have "small_weights (server_ids (Servers c) b) (heap (bld (with_peers (Servers c) b)))"
    using m by (simp add: small_weights_def server_ids_weights moderate_def)
  from newBalancer_returns [OF this] obtain bal w where
    new: "newBalancer r (effective_algo c) (map Some (server_ids (Servers c) b))
      (bld (with_peers (Servers c) b)) = Val (bal, w)" by blast
  with register_accepts [OF acc, of r b] register_ready [OF inv acc m new] show ?thesis by simp
next
  case False
  then obtain e where "registerExplicitUpstream r c t b =
      Val (addInitError (Some e) t, snd (add_servers (Servers c) (start_config c) b))"
    using register_rejects [of c t r b] by blast
  with build_inv_error [OF add_servers_build [OF _ inv]] m show ?thesis by (auto simp: moderate_def)
qed

section \<open>The constructor\<close>

text \<open>
  The options of the package, whose upstream blocks satisfy a condition \<open>P\<close>. The properties use
  \<open>moderate\<close>: the weights of a block sum up to less than \<open>2 ^ 31\<close>. The code has no such limit; for
  larger weights the hash balancers may divide by zero and the ring may ask for a negative
  capacity.
\<close>

inductive package_option ::
  "(UpstreamConfig \<Rightarrow> bool) \<Rightarrow> (nat \<Rightarrow> int \<Rightarrow> int) \<Rightarrow> TransportOption \<Rightarrow> bool" for P r where
  round_tripper: "package_option P r (WithRoundTripper rt)"
| timeout: "package_option P r (WithTimeout d)"
| connect_timeout: "package_option P r (WithConnectTimeout d)"
| body_buffer: "package_option P r (WithMaxBodyBuffer n)"
| next_upstream: "package_option P r (WithNextUpstream cond)"
| codes: "package_option P r (WithNextUpstreamCodes cs)"
| non_idempotent: "package_option P r WithNonIdempotentRetries"
| upstreams: "\<forall>c \<in> set cs. P c \<Longrightarrow> package_option P r (WithUpstreams r cs)"

lemma WithUpstreams_inv:
  assumes "\<forall>c \<in> set cs. moderate c" and "build_inv t b"
  shows "\<exists>t' b'. WithUpstreams r cs t b = Val (t', b') \<and> build_inv t' b'"
  using assms
proof (induction r cs t b rule: WithUpstreams.induct)
  case (2 r c cs t b)
  obtain t1 b1 where s: "registerExplicitUpstream r c t b = Val (t1, b1)" "build_inv t1 b1"
    using registerExplicit_inv [of t b c r] "2.prems" by auto
  with "2.IH" [OF s(1) refl] "2.prems"(1) show ?case by simp
qed simp

lemma package_option_inv:
  assumes "package_option moderate r opt" and "build_inv t b"
  shows "\<exists>t' b'. opt t b = Val (t', b') \<and> build_inv t' b'"
  using assms(1)
proof cases
  case (upstreams cs)
  with assms(2) WithUpstreams_inv show ?thesis by simp
qed (use assms(2) build_inv_error in
    \<open>auto simp: WithRoundTripper_def WithTimeout_def WithConnectTimeout_def WithMaxBodyBuffer_def
       WithNextUpstream_def WithNextUpstreamCodes_def WithNonIdempotentRetries_def build_inv_def
       split: option.split\<close>)

lemma apply_options_inv:
  assumes "\<forall>opt. Some opt \<in> set opts \<longrightarrow> package_option moderate r opt" and "build_inv t b"
  shows "\<exists>t' b'. apply_options opts t b = Val (t', b') \<and> build_inv t' b'"
  using assms
proof (induction opts t b rule: apply_options.induct)
  case (3 opt opts t b)
  obtain t1 b1 where s: "opt t b = Val (t1, b1)" "build_inv t1 b1"
    using package_option_inv [of r opt t b] "3.prems" by auto
  with "3.IH" [OF s(1) refl] "3.prems"(1) show ?case by simp
qed (auto simp: build_inv_error)

lemma ssl_errors_sel [simp]:
  "upstreams (ssl_errors rt us t) = upstreams t" "transport (ssl_errors rt us t) = transport t"
  by (induction rt us t rule: ssl_errors.induct) (auto split: RoundTripper.split)

lemma ssl_upstream_sel [simp]:
  "balancer (ssl_upstream rt ups) = balancer ups" "backends (ssl_upstream rt ups) = backends ups"
  "hashFunc (ssl_upstream rt ups) = hashFunc ups" "algo (ssl_upstream rt ups) = algo ups"
  "multipleUsablePeers (ssl_upstream rt ups) = multipleUsablePeers ups"
  "sslName (ssl_upstream rt ups) = sslName ups"
  by (auto simp: ssl_upstream_def split: RoundTripper.split)

lemma upstream_ready_ssl [simp]: "upstream_ready h (ssl_upstream rt ups) = upstream_ready h ups"
  by (simp add: upstream_ready_def)

lemma build_inv_ssl:
  assumes "build_inv t b" and "upstreams t' = map (\<lambda>(k, ups). (k, ssl_upstream rt ups)) (upstreams t)"
  shows "build_inv t' b"
proof -
  have "map fst (upstreams t') = map fst (upstreams t)" by (simp add: assms(2) case_prod_unfold)
  moreover have "\<exists>ups'. (k, ups') \<in> set (upstreams t) \<and> ups = ssl_upstream rt ups'"
    if "(k, ups) \<in> set (upstreams t')" for k ups
    using that by (auto simp: assms(2))
  ultimately show ?thesis using assms(1) unfolding build_inv_def by fastforce
qed

lemma NewTransportE_inv:
  assumes "\<forall>opt. Some opt \<in> set opts \<longrightarrow> package_option moderate r opt" and "idle_store (heap (bld b))"
  shows "\<exists>t b'. NewTransportE opts b = Val ((t, initErr t), b') \<and> build_inv t b' \<and> transport t \<noteq> None"
proof -
  have "build_inv empty_Transport b" using assms(2) by (simp add: build_inv_def empty_Transport_def)
  from apply_options_inv [OF assms(1) this] obtain t b' where
    o: "apply_options opts empty_Transport b = Val (t, b')" "build_inv t b'" by blast
  have "build_inv (t'\<lparr>upstreams := map (\<lambda>(k, ups). (k, ssl_upstream rt ups)) (upstreams t)\<rparr>) b'" for t' rt
    by (rule build_inv_ssl [OF o(2), where rt = rt]) simp
  with o(1) show ?thesis unfolding NewTransportE_def by (simp add: Let_def)
qed

section \<open>Registration refines a specification\<close>

text \<open>
  What a configured transport is, seen from outside: the upstreams in order, each with the
  addresses its requests go to and its algorithm, and whether the configuration is valid so
  far. One upstream block extends this view or spoils it.
\<close>

type_synonym routes = "(upstreamKey \<times> backendAddr list \<times> AlgorithmType) list"

definition abs_transport :: "Transport \<Rightarrow> routes \<times> bool" where
  "abs_transport t =
     (map (\<lambda>(k, ups). (k, map snd (backends ups), algo ups)) (upstreams t), initErr t = None)"

definition spec_add :: "UpstreamConfig \<Rightarrow> routes \<times> bool \<Rightarrow> routes \<times> bool" where
  "spec_add c s =
     (case parse_full (Pattern c) of
        None \<Rightarrow> (fst s, False)
      | Some u \<Rightarrow>
          if acceptable c u (fst ` set (fst s))
          then (fst s @ [(key_of u, map (\<lambda>srv. the (backend_of (Scheme u) (Address srv))) (Servers c),
                          effective_algo c)], snd s)
          else (fst s, False))"

lemma abs_keys: "fst ` set (fst (abs_transport t)) = fst ` set (upstreams t)"
  by (force simp: abs_transport_def)

lemma register_refines:
  assumes "moderate c"
  shows "\<exists>t' b'. registerExplicitUpstream r c t b = Val (t', b') \<and>
    abs_transport t' = spec_add c (abs_transport t)"
proof (cases "\<exists>u. acceptable c u (fst ` set (upstreams t))")
  case True
  then obtain u where acc: "acceptable c u (fst ` set (upstreams t))" by blast
  have "small_weights (server_ids (Servers c) b) (heap (bld (with_peers (Servers c) b)))"
    using assms by (simp add: small_weights_def server_ids_weights moderate_def)
  from newBalancer_returns [OF this] obtain bal w where
    "newBalancer r (effective_algo c) (map Some (server_ids (Servers c) b))
      (bld (with_peers (Servers c) b)) = Val (bal, w)" by blast
  moreover have "parse_full (Pattern c) = Some u" using acc by (simp add: acceptable_def)
  moreover have "map snd (backends (registered c u b bal)) =
      map (\<lambda>srv. the (backend_of (Scheme u) (Address srv))) (Servers c)"
    by (simp add: registered_def server_ids_def)
  ultimately show ?thesis
    using register_accepts [OF acc, of r b] acc unfolding spec_add_def abs_keys
    by (simp add: abs_transport_def registered_def)
next
  case False
  then obtain e where "registerExplicitUpstream r c t b =
      Val (addInitError (Some e) t, snd (add_servers (Servers c) (start_config c) b))"
    using register_rejects [of c t r b] by blast
  moreover have "spec_add c (abs_transport t) = (fst (abs_transport t), False)"
    using False unfolding spec_add_def abs_keys by (simp split: option.split)
  ultimately show ?thesis by (simp add: abs_transport_def del: not_None_eq)
qed

lemma WithUpstreams_refines:
  assumes "\<forall>c \<in> set cs. moderate c"
  shows "\<exists>t' b'. WithUpstreams r cs t b = Val (t', b') \<and>
    abs_transport t' = fold spec_add cs (abs_transport t)"
  using assms
proof (induction cs arbitrary: t b)
  case (Cons c cs)
  obtain t1 b1 where s: "registerExplicitUpstream r c t b = Val (t1, b1)"
    "abs_transport t1 = spec_add c (abs_transport t)"
    using register_refines [of c r t b] Cons.prems by auto
  from Cons.IH [of t1 b1] Cons.prems s show ?case by simp
qed simp

end
