(* ===== verification/Body_Replay.thy ===== *)
theory Body_Replay
  imports Config
begin

text \<open>
  Request bodies that several attempts can send (\<open>prepareBody\<close> and \<open>readBody\<close> of
  \<open>src/transport.go\<close>): bodies that can be rewound, bodies buffered in memory, bodies spilled
  to a temporary file, and streams that only one attempt may consume.
\<close>

section \<open>Reading a body\<close>

definition body_read_limited :: "reqBody \<Rightarrow> int \<Rightarrow> net \<Rightarrow> (error + byte list) \<times> net" where
  "body_read_limited r lim n =
     (case body_stream r of None \<Rightarrow> (Inr [], n) | Some i \<Rightarrow> read_limited i lim n)"

definition body_copy :: "body_id \<Rightarrow> reqBody \<Rightarrow> net \<Rightarrow> error option \<times> net" where
  "body_copy f r n = (case body_stream r of None \<Rightarrow> (None, n) | Some i \<Rightarrow> io_Copy f i n)"

definition close_and_remove :: "body_id \<Rightarrow> net \<Rightarrow> net" where
  "close_and_remove f n = os_Remove f (stream_Close f n)"

type_synonym file_factory = "net \<Rightarrow> (error + body_id) \<times> net"

text \<open>The bytes of a small body, the temporary file of a large one, or the first error.\<close>

definition spill :: "byte list \<Rightarrow> reqBody \<Rightarrow> file_factory \<Rightarrow> net \<Rightarrow> (error + body_id) \<times> net" where
  "spill b r createFile n =
     (case createFile n of
        (Inl e, n1) \<Rightarrow> (Inl e, n1)
      | (Inr f, n1) \<Rightarrow>
          (case stream_Write f b n1 of
             (Some e, n2) \<Rightarrow> (Inl e, close_and_remove f n2)
           | (None, n2) \<Rightarrow>
               (case body_copy f r n2 of
                  (Some e, n3) \<Rightarrow> (Inl e, close_and_remove f n3)
                | (None, n3) \<Rightarrow>
                    (case stream_Seek f 0 SeekStart n3 of
                       (Inl e, n4) \<Rightarrow> (Inl e, close_and_remove f n4)
                     | (Inr _, n4) \<Rightarrow> (Inr f, n4)))))"

definition readBodyWithFactory ::
  "Transport \<Rightarrow> reqBody \<Rightarrow> file_factory \<Rightarrow> net \<Rightarrow> (error + (byte list + body_id)) \<times> net" where
  "readBodyWithFactory t r createFile n =
     (let limit = maxBodyBuffer t
      in case body_read_limited r (i64 (limit + 1)) n of
           (Inl e, n1) \<Rightarrow> (Inl e, n1)
         | (Inr b, n1) \<Rightarrow>
             if int (length b) \<le> limit then (Inr (Inl b), n1)
             else (case spill b r createFile n1 of
                     (Inl e, n2) \<Rightarrow> (Inl e, n2)
                   | (Inr f, n2) \<Rightarrow> (Inr (Inr f), n2)))"

definition createBodyTempFile :: "rt_env \<Rightarrow> file_factory" where
  "createBodyTempFile env = os_CreateTemp env"

definition readBody ::
  "rt_env \<Rightarrow> Transport \<Rightarrow> reqBody \<Rightarrow> net \<Rightarrow> (error + (byte list + body_id)) \<times> net" where
  "readBody env t r n = readBodyWithFactory t r (createBodyTempFile env) n"

section \<open>Preparing a body\<close>

type_synonym cleanup = "net \<Rightarrow> net"
type_synonym prepared = "(error + (get_body option \<times> cleanup option)) \<times> http_Request \<times> net"

text \<open>The closures that rewind a file or a seekable body, and that serve bytes.\<close>

definition rewind :: "body_id \<Rightarrow> nat \<Rightarrow> reqBody \<Rightarrow> get_body" where
  "rewind i start body n =
     (case stream_Seek i start SeekStart n of
        (Inl e, n1) \<Rightarrow> (Inl e, n1)
      | (Inr _, n1) \<Rightarrow> (Inr (nopCloser body), n1))"

definition serve_bytes :: "byte list \<Rightarrow> get_body" where
  "serve_bytes b n =
     (case bytes_NewReader b n of (i, n1) \<Rightarrow> (Inr (nopCloser (plainBody i)), n1))"

definition prepareSpilledBody :: "http_Request \<Rightarrow> body_id \<Rightarrow> net \<Rightarrow> prepared" where
  "prepareSpilledBody req f n =
     (case stat_error (streams n f) of
        Some e \<Rightarrow> (Inl e, req, close_and_remove f n)
      | None \<Rightarrow>
          (Inr (Some (rewind f 0 (plainBody f)), Some (close_and_remove f)),
           req\<lparr>ContentLength := int (length (contents (streams n f)))\<rparr>, n))"

text \<open>A body that can be rewound; its length is clamped when the end is known.\<close>

definition clamp_length :: "int \<Rightarrow> http_Request \<Rightarrow> http_Request" where
  "clamp_length remaining_bytes req =
     (if 0 < remaining_bytes \<and> remaining_bytes < ContentLength req
      then req\<lparr>ContentLength := remaining_bytes\<rparr> else req)"

definition prepareSeekable :: "body_id \<Rightarrow> reqBody \<Rightarrow> http_Request \<Rightarrow> net \<Rightarrow> prepared" where
  "prepareSeekable i initialBody req n =
     (case stream_Seek i 0 SeekCurrent n of
        (Inl e, n1) \<Rightarrow> (Inl e, req, reqBody_Close initialBody n1)
      | (Inr startPos, n1) \<Rightarrow>
          (case stream_Seek i 0 SeekEnd n1 of
             (Inl _, n2) \<Rightarrow>
               (Inr (Some (rewind i startPos initialBody), Some (reqBody_Close initialBody)), req, n2)
           | (Inr endPos, n2) \<Rightarrow>
               (case stream_Seek i startPos SeekStart n2 of
                  (Inl e, n3) \<Rightarrow> (Inl e, req, reqBody_Close initialBody n3)
                | (Inr _, n3) \<Rightarrow>
                    (let rem0 = int endPos - int startPos; rem1 = (if rem0 < 0 then 0 else rem0)
                     in if rem1 = 0 \<and> 0 < ContentLength req
                        then (Inr (Some (\<lambda>m. (Inr NoBody, m)), Some (reqBody_Close initialBody)),
                              req\<lparr>ContentLength := 0\<rparr>, n3)
                        else (Inr (Some (rewind i startPos initialBody),
                                   Some (reqBody_Close initialBody)),
                              clamp_length rem1 req, n3)))))"

definition as_Seeker :: "reqBody \<Rightarrow> net \<Rightarrow> body_id option" where
  "as_Seeker b n =
     (case b of plainBody i \<Rightarrow> if seekable (streams n i) then Some i else None | _ \<Rightarrow> None)"

definition prepareBuffered :: "rt_env \<Rightarrow> Transport \<Rightarrow> reqBody \<Rightarrow> http_Request \<Rightarrow> net \<Rightarrow> prepared" where
  "prepareBuffered env t body req n =
     (case readBody env t body n of
        (res, n1) \<Rightarrow>
          (let n2 = reqBody_Close body n1
           in case res of
                Inl e \<Rightarrow> (Inl e, req, n2)
              | Inr (Inr f) \<Rightarrow> prepareSpilledBody req f n2
              | Inr (Inl b) \<Rightarrow>
                  (Inr (Some (serve_bytes b), None), req\<lparr>ContentLength := int (length b)\<rparr>, n2)))"

definition prepareBody :: "rt_env \<Rightarrow> Transport \<Rightarrow> http_Request \<Rightarrow> bool \<Rightarrow> net \<Rightarrow> prepared" where
  "prepareBody env t req replayPossible n =
     (case GetBody req of
        Some g \<Rightarrow>
          (case Body req of
             None \<Rightarrow> (Inr (Some g, None), req, n)
           | Some initialBody \<Rightarrow> (Inr (Some g, Some (reqBody_Close initialBody)), req, n))
      | None \<Rightarrow>
          (case Body req of
             None \<Rightarrow> (Inr (None, None), req, n)
           | Some initialBody \<Rightarrow>
               (case as_Seeker initialBody n of
                  Some i \<Rightarrow> prepareSeekable i initialBody req n
                | None \<Rightarrow>
                    if \<not> replayPossible
                    then (Inr (None, Some (reqBody_Close initialBody)),
                          req\<lparr>Body := Some (nopCloser initialBody)\<rparr>, n)
                    else prepareBuffered env t initialBody req n)))"

section \<open>Frames\<close>

text \<open>
  Reading, writing and seeking leave alone what is outside the streams, how often streams
  were closed, how they answer, and which streams exist.
\<close>

definition outer :: "net \<Rightarrow> world \<times> nat \<times> nat \<times> nat list \<times> call list" where
  "outer n = (lb n, ctx_reads n, cancels n, canceled n, calls n)"

definition answers ::
  "stream \<Rightarrow> nat \<times> bool \<times> (nat \<Rightarrow> error option) \<times> error option \<times> error option" where
  "answers s = (closes s, seekable s, seek_result s, read_error s, stat_error s)"

lemma answers_upd [simp]:
  "answers (s\<lparr>pos := x\<rparr>) = answers s" "answers (s\<lparr>seeks := k\<rparr>) = answers s"
  "answers (s\<lparr>writes := k\<rparr>) = answers s" "answers (s\<lparr>contents := bs\<rparr>) = answers s"
  "answers (append_bytes bs s) = answers s"
  by (simp_all add: answers_def append_bytes_def)

definition steady :: "net \<Rightarrow> net \<Rightarrow> bool" where
  "steady n n' \<longleftrightarrow>
     outer n' = outer n \<and> next_stream n' = next_stream n \<and> removed n' = removed n \<and>
     (\<forall>c. answers (streams n' c) = answers (streams n c))"

lemma steady_refl [simp]: "steady n n"
  by (simp add: steady_def)

lemma steady_trans: "steady n n' \<Longrightarrow> steady n' n'' \<Longrightarrow> steady n n''"
  by (simp add: steady_def)

lemma steady_upd [simp]:
  "(\<And>s. answers (f s) = answers s) \<Longrightarrow> steady n (upd_stream i f m) = steady n m"
  "(\<And>s. answers (f s) = answers s) \<Longrightarrow> steady (upd_stream i f n) m = steady n m"
  by (auto simp: steady_def outer_def)

lemma steady_closes: "steady n n' \<Longrightarrow> closes (streams n' c) = closes (streams n c)"
  by (simp add: steady_def answers_def)

lemma read_limited_steady: "read_limited i lim n = (r, n') \<Longrightarrow> steady n n'"
  by (auto simp: read_limited_def Let_def split: if_splits option.splits)

lemma stream_Write_steady: "stream_Write i data n = (r, n') \<Longrightarrow> steady n n'"
  by (auto simp: stream_Write_def Let_def split: option.splits)

lemma stream_Seek_steady: "stream_Seek i off wh n = (r, n') \<Longrightarrow> steady n n'"
  by (auto simp: stream_Seek_def Let_def split: option.splits)

lemma io_Copy_steady: "io_Copy f i n = (r, n') \<Longrightarrow> steady n n'"
  unfolding io_Copy_def Let_def
  by (auto split: if_splits prod.splits option.splits dest!: stream_Write_steady)

lemma body_read_steady: "body_read_limited b lim n = (r, n') \<Longrightarrow> steady n n'"
  by (auto simp: body_read_limited_def split: option.splits dest: read_limited_steady)

lemma body_copy_steady: "body_copy f b n = (r, n') \<Longrightarrow> steady n n'"
  by (auto simp: body_copy_def split: option.splits dest: io_Copy_steady)

text \<open>What the operations do to the data.\<close>

lemma read_limited_data:
  assumes "read_limited i lim n = (Inr data, n')"
  shows "data = take (nat lim) (unread (streams n i))"
    and "unread (streams n' i) = drop (length data) (unread (streams n i))"
    and "\<And>c. c \<noteq> i \<Longrightarrow> streams n' c = streams n c" and "\<And>c. contents (streams n' c) = contents (streams n c)"
  using assms by (auto simp: read_limited_def Let_def unread_def add.commute split: if_splits option.splits)

lemma stream_Seek_data:
  assumes "stream_Seek i off wh n = (Inr t, n')"
  shows "t = seek_target (streams n i) wh + off" and "pos (streams n' i) = t"
    and "\<And>c. contents (streams n' c) = contents (streams n c)"
    and "\<And>c. c \<noteq> i \<Longrightarrow> streams n' c = streams n c"
  using assms by (auto simp: stream_Seek_def Let_def split: option.splits)

lemma stream_Seek_contents:
  "stream_Seek i off wh n = (r, n') \<Longrightarrow> contents (streams n' c) = contents (streams n c)"
  by (auto simp: stream_Seek_def Let_def split: option.splits)

lemma stream_Write_data:
  assumes "stream_Write f data n = (None, n')"
  shows "contents (streams n' f) = contents (streams n f) @ data"
    and "\<And>c. c \<noteq> f \<Longrightarrow> streams n' c = streams n c"
  using assms by (auto simp: stream_Write_def append_bytes_def Let_def split: option.splits)

lemma io_Copy_data:
  assumes "io_Copy f i n = (None, n')" and "i \<noteq> f"
  shows "contents (streams n' f) = contents (streams n f) @ unread (streams n i)"
proof (cases "unread (streams n i) = []")
  case True
  with assms show ?thesis by (auto simp: io_Copy_def Let_def)
next
  case False
  let ?n1 = "upd_stream i (\<lambda>s. s\<lparr>pos := pos s + length (unread (streams n i))\<rparr>) n"
  from False assms(1) have "stream_Write f (unread (streams n i)) ?n1 = (None, n')"
    by (auto simp: io_Copy_def Let_def split: prod.splits option.splits)
  from stream_Write_data(1) [OF this] assms(2) show ?thesis by simp
qed

section \<open>Temporary files\<close>

text \<open>A body that exists: its stream was opened before the round trip.\<close>

definition body_exists :: "reqBody \<Rightarrow> net \<Rightarrow> bool" where
  "body_exists b n \<longleftrightarrow> (\<forall>i. body_stream b = Some i \<longrightarrow> i < next_stream n)"

lemma os_CreateTemp_cases:
  assumes "os_CreateTemp env n = (r, n')"
  obtains e where "r = Inl e" "n' = n"
  | "r = Inr (next_stream n)" "next_stream n' = Suc (next_stream n)" "outer n' = outer n"
    "removed n' = removed n" "\<And>c. c \<noteq> next_stream n \<Longrightarrow> streams n' c = streams n c"
    "contents (streams n' (next_stream n)) = []" "closes (streams n' (next_stream n)) = 0"
proof (cases "temp_file env (next_stream n)")
  case (Inl e)
  with assms show thesis by (intro that(1) [of e]) (auto simp: os_CreateTemp_def)
next
  case (Inr s)
  with assms have "r = Inr (next_stream n)"
    and n': "n' = n\<lparr>streams := (streams n)(next_stream n := s\<lparr>contents := [], pos := 0,
      seekable := True, closes := 0\<rparr>), next_stream := Suc (next_stream n)\<rparr>"
    by (simp_all add: os_CreateTemp_def)
  then show thesis by (intro that(2)) (simp_all add: outer_def)
qed

lemma close_and_remove_sel [simp]:
  "outer (close_and_remove f n) = outer n" "next_stream (close_and_remove f n) = next_stream n"
  "removed (close_and_remove f n) = f # removed n"
  "closes (streams (close_and_remove f n) c) = (if c = f then Suc (closes (streams n f)) else closes (streams n c))"
  "contents (streams (close_and_remove f n) c) = contents (streams n c)"
  by (simp_all add: close_and_remove_def os_Remove_def outer_def)

text \<open>
  \<open>tidy n n'\<close>: the streams opened since \<open>n\<close> are temporary files that were closed once and
  removed; no other stream was closed.
\<close>

definition tidy :: "net \<Rightarrow> net \<Rightarrow> bool" where
  "tidy n n' \<longleftrightarrow>
     next_stream n \<le> next_stream n' \<and> outer n' = outer n \<and>
     (\<forall>c < next_stream n. closes (streams n' c) = closes (streams n c)) \<and>
     (\<forall>c. next_stream n \<le> c \<and> c < next_stream n' \<longrightarrow>
        closes (streams n' c) = 1 \<and> c \<in> set (removed n'))"

lemma steady_tidy: "steady n n' \<Longrightarrow> tidy n n'"
  by (auto simp: steady_def tidy_def answers_def)

lemma tidy_steady: "tidy n n1 \<Longrightarrow> steady n1 n2 \<Longrightarrow> tidy n n2"
  by (auto simp: steady_def tidy_def answers_def)

lemma tidy_new_file:
  assumes "next_stream n1 = Suc (next_stream n)" and "outer n1 = outer n"
    and "\<And>c. c \<noteq> next_stream n \<Longrightarrow> streams n1 c = streams n c"
    and "closes (streams n1 (next_stream n)) = 0" and "steady n1 n2"
  shows "tidy n (close_and_remove (next_stream n) n2)"
  using assms by (auto simp: tidy_def steady_def answers_def less_Suc_eq)

text \<open>A failing spill leaves no file behind; a successful one holds the whole rest.\<close>

lemma spill_cases:
  assumes "spill b r (createBodyTempFile env) n = (res, n')" and "body_exists r n"
  obtains e where "res = Inl e" "tidy n n'"
  | "res = Inr (next_stream n)" "next_stream n' = Suc (next_stream n)" "outer n' = outer n"
    "contents (streams n' (next_stream n)) = b @ readable r n"
    "pos (streams n' (next_stream n)) = 0" "closes (streams n' (next_stream n)) = 0"
    "\<And>c. c < next_stream n \<Longrightarrow> closes (streams n' c) = closes (streams n c)"
proof -
  let ?f = "next_stream n"
  obtain r0 n1 where c: "os_CreateTemp env n = (r0, n1)" by fastforce
  then show thesis
  proof (cases rule: os_CreateTemp_cases)
    case (1 e)
    with c assms(1) show ?thesis
      by (intro that(1) [of e]) (auto simp: spill_def createBodyTempFile_def steady_tidy)
  next
    case 2
    have tidy: "tidy n (close_and_remove ?f n2)" if "steady n1 n2" for n2
      by (rule tidy_new_file [OF 2(2,3) _ 2(7) that]) (rule 2(5))
    obtain r1 n2 where w: "stream_Write ?f b n1 = (r1, n2)" by fastforce
    obtain r2 n3 where cp: "body_copy ?f r n2 = (r2, n3)" by fastforce
    obtain r3 n4 where s: "stream_Seek ?f 0 SeekStart n3 = (r3, n4)" by fastforce
    note st = stream_Write_steady [OF w] body_copy_steady [OF cp] stream_Seek_steady [OF s]
    note st2 = steady_trans [OF st(1,2)] steady_trans [OF steady_trans [OF st(1,2)] st(3)]
    have sp: "spill b r (createBodyTempFile env) n =
      (case r1 of Some e \<Rightarrow> (Inl e, close_and_remove ?f n2)
       | None \<Rightarrow> (case r2 of Some e \<Rightarrow> (Inl e, close_and_remove ?f n3)
                | None \<Rightarrow> (case r3 of Inl e \<Rightarrow> (Inl e, close_and_remove ?f n4) | Inr _ \<Rightarrow> (Inr ?f, n4))))"
      using c 2(1) w cp s by (simp add: spill_def createBodyTempFile_def split: option.split sum.split)
    show ?thesis
    proof (cases "r1 = None \<and> r2 = None \<and> (\<exists>t. r3 = Inr t)")
      case False
      with sp assms(1) tidy [OF st(1)] tidy [OF st2(1)] tidy [OF st2(2)] that(1) show ?thesis
        by (auto split: option.splits sum.splits)
    next
      case True
      then obtain t where ok: "r1 = None" "r2 = None" "r3 = Inr t" by blast
      have "contents (streams n3 ?f) = b @ readable r n"
      proof (cases "body_stream r")
        case None
        with cp stream_Write_data [OF w [unfolded ok]] 2(6) show ?thesis
          by (simp add: body_copy_def readable_def)
      next
        case (Some i)
        then have "i < ?f" using assms(2) by (simp add: body_exists_def)
        with Some cp [unfolded ok] io_Copy_data [of ?f i n2 n3] stream_Write_data [OF w [unfolded ok]]
          2(5) [of i] 2(6)
        show ?thesis by (simp add: body_copy_def readable_def)
      qed
      with stream_Seek_data [OF s [unfolded ok]] have "contents (streams n4 ?f) = b @ readable r n"
        "pos (streams n4 ?f) = 0" by (simp_all add: seek_target_def)
      moreover have "next_stream n4 = Suc ?f" "outer n4 = outer n"
        "closes (streams n4 c) = closes (streams n1 c)" for c
        using st2(2) 2 by (simp_all add: steady_def answers_def)
      ultimately show ?thesis
        using sp assms(1) ok 2 by (intro that(2)) auto
    qed
  qed
qed

section \<open>No leaks\<close>

definition run_cleanup :: "cleanup option \<Rightarrow> net \<Rightarrow> net" where
  "run_cleanup cl n = (case cl of None \<Rightarrow> n | Some f \<Rightarrow> f n)"

lemma reqBody_Close_plain:
  "reqBody_Close b n = n \<or> (\<exists>i. b = plainBody i \<and> reqBody_Close b n = stream_Close i n)"
  by (cases b) (simp_all add: reqBody_Close_def)

lemma Close_outer [simp]: "outer (reqBody_Close b n) = outer n" "outer (stream_Close i n) = outer n"
  by (simp_all add: outer_def)

lemma tidy_close_body:
  assumes "tidy n n'" and "body_exists b n"
  shows "tidy (reqBody_Close b n) (reqBody_Close b n')"
  using assms by (cases b) (auto simp: tidy_def reqBody_Close_def body_exists_def outer_def)

lemma readBody_cases:
  assumes "readBody env t b n = (res, n')" and "body_exists b n"
  obtains e where "res = Inl e" "tidy n n'"
  | bs where "res = Inr (Inl bs)" "tidy n n'" "fst (body_read_limited b (i64 (maxBodyBuffer t + 1)) n) = Inr bs"
    "int (length bs) \<le> maxBodyBuffer t" "next_stream n' = next_stream n"
  | bs n1 where "body_read_limited b (i64 (maxBodyBuffer t + 1)) n = (Inr bs, n1)"
    "res = Inr (Inr (next_stream n))" "next_stream n' = Suc (next_stream n)" "outer n' = outer n"
    "contents (streams n' (next_stream n)) = bs @ readable b n1"
    "closes (streams n' (next_stream n)) = 0"
    "\<And>c. c < next_stream n \<Longrightarrow> closes (streams n' c) = closes (streams n c)"
proof -
  obtain r n1 where rd: "body_read_limited b (i64 (maxBodyBuffer t + 1)) n = (r, n1)" by fastforce
  note st = body_read_steady [OF rd]
  have ex: "body_exists b n1" using assms(2) st by (simp add: body_exists_def steady_def)
  show thesis
  proof (cases r)
    case (Inl e)
    with rd assms(1) st show ?thesis
      by (intro that(1) [of e]) (auto simp: readBody_def readBodyWithFactory_def steady_tidy)
  next
    case (Inr bs)
    show ?thesis
    proof (cases "int (length bs) \<le> maxBodyBuffer t")
      case True
      with rd Inr assms(1) st show ?thesis
        by (intro that(2) [of bs])
          (auto simp: readBody_def readBodyWithFactory_def steady_tidy, simp add: steady_def)
    next
      case False
      obtain r2 n2 where sp: "spill bs b (createBodyTempFile env) n1 = (r2, n2)" by fastforce
      have n1: "next_stream n1 = next_stream n" "outer n1 = outer n"
        "closes (streams n1 c) = closes (streams n c)" for c
        using st by (simp_all add: steady_def answers_def)
      have res: "(res, n') = (case r2 of Inl e \<Rightarrow> (Inl e, n2) | Inr f \<Rightarrow> (Inr (Inr f), n2))"
        using assms(1) rd Inr False sp by (auto simp: readBody_def readBodyWithFactory_def split: sum.splits)
      from sp ex show ?thesis
      proof (cases rule: spill_cases)
        case (1 e)
        with res n1 show ?thesis by (intro that(1) [of e]) (auto simp: tidy_def)
      next
        case 2
        with res n1 rd Inr show ?thesis by (intro that(3) [of bs n1]) auto
      qed
    qed
  qed
qed

lemma prepareSeekable_tidy:
  assumes "prepareSeekable i b req n = (res, req', n')" and "body_exists b n"
  shows "case res of Inl _ \<Rightarrow> tidy (reqBody_Close b n) n'
    | Inr (g, cl) \<Rightarrow> tidy (reqBody_Close b n) (run_cleanup cl n')"
proof -
  have "\<exists>n3. steady n n3 \<and> (case res of Inl _ \<Rightarrow> n' = reqBody_Close b n3
      | Inr (g, cl) \<Rightarrow> n' = n3 \<and> cl = Some (reqBody_Close b))"
    using assms(1) unfolding prepareSeekable_def Let_def
    by (auto split: prod.splits sum.splits if_splits dest!: stream_Seek_steady)
      (blast intro: steady_trans)+
  then obtain n3 where n3: "steady n n3" "case res of Inl _ \<Rightarrow> n' = reqBody_Close b n3
      | Inr (g, cl) \<Rightarrow> n' = n3 \<and> cl = Some (reqBody_Close b)" by blast
  have "tidy (reqBody_Close b n) (reqBody_Close b n3)"
    by (rule tidy_close_body [OF steady_tidy [OF n3(1)] assms(2)])
  with n3(2) show ?thesis by (cases res) (auto simp: run_cleanup_def)
qed

lemma prepareBuffered_tidy:
  assumes "prepareBuffered env t b req n = (res, req', n')" and "body_exists b n"
  shows "case res of Inl _ \<Rightarrow> tidy (reqBody_Close b n) n'
    | Inr (g, cl) \<Rightarrow> tidy (reqBody_Close b n) (run_cleanup cl n')"
proof -
  obtain r n1 where rd: "readBody env t b n = (r, n1)" by fastforce
  from rd assms(2) show ?thesis
  proof (cases rule: readBody_cases)
    case (1 e)
    with rd assms tidy_close_body show ?thesis by (auto simp: prepareBuffered_def)
  next
    case (2 bs)
    with rd assms tidy_close_body show ?thesis by (auto simp: prepareBuffered_def run_cleanup_def)
  next
    case (3 bs n0)
    let ?f = "next_stream n" and ?n2 = "reqBody_Close b n1"
    have "tidy (reqBody_Close b n) (close_and_remove ?f ?n2)"
      using 3 assms(2)
      by (cases b) (auto simp: tidy_def reqBody_Close_def body_exists_def less_Suc_eq)
    with rd 3 assms(1) show ?thesis
      by (auto simp: prepareBuffered_def prepareSpilledBody_def run_cleanup_def Let_def
          split: option.splits)
  qed
qed

lemma prepareBody_tidy:
  assumes "prepareBody env t req rp n = (res, req', n')" and "Body req = Some b" and "body_exists b n"
  shows "case res of Inl _ \<Rightarrow> tidy (reqBody_Close b n) n'
    | Inr (g, cl) \<Rightarrow> tidy (reqBody_Close b n) (run_cleanup cl n')"
  using assms prepareSeekable_tidy prepareBuffered_tidy steady_tidy [OF steady_refl]
  by (auto simp: prepareBody_def run_cleanup_def split: option.splits if_splits)

section \<open>Every attempt sends the same body\<close>

text \<open>
  A later state in which the streams that exist still hold their data and answer as before;
  reads, seeks and closes may have happened.
\<close>

definition undisturbed :: "net \<Rightarrow> net \<Rightarrow> bool" where
  "undisturbed n m \<longleftrightarrow>
     next_stream n \<le> next_stream m \<and>
     (\<forall>c < next_stream n. contents (streams m c) = contents (streams n c))"

text \<open>What a closure that produces bodies promises: the given bytes, or the error of a seek.\<close>

definition replays :: "get_body \<Rightarrow> byte list \<Rightarrow> net \<Rightarrow> bool" where
  "replays g data m \<longleftrightarrow>
     (case g m of
        (Inl e, _) \<Rightarrow> \<exists>i k. seek_result (streams m i) k = Some e
      | (Inr body, m') \<Rightarrow> readable body m' = data)"

lemma rewind_replays:
  assumes "body_stream b = Some i" and "drop start (contents (streams m i)) = data"
  shows "replays (rewind i start b) data m"
proof (cases "stream_Seek i start SeekStart m")
  case (Pair r m')
  show ?thesis
  proof (cases r)
    case (Inl e)
    with Pair have "seek_result (streams m i) (seeks (streams m i)) = Some e"
      by (auto simp: stream_Seek_def Let_def split: option.splits)
    with Pair Inl show ?thesis by (auto simp: replays_def rewind_def)
  next
    case (Inr t)
    with stream_Seek_data [of i start SeekStart m t m'] Pair assms show ?thesis
      by (simp add: replays_def rewind_def readable_def unread_def seek_target_def)
  qed
qed

lemma serve_bytes_replays: "replays (serve_bytes data) data m"
  by (simp add: replays_def serve_bytes_def bytes_NewReader_def readable_def unread_def)

lemma body_read_data:
  assumes "body_read_limited b lim n = (Inr bs, n1)"
  shows "bs = take (nat lim) (readable b n)" and "bs @ readable b n1 = readable b n"
proof -
  have "bs = take (nat lim) (readable b n) \<and> bs @ readable b n1 = readable b n"
  proof (cases "body_stream b")
    case None
    with assms show ?thesis by (simp add: body_read_limited_def readable_def)
  next
    case (Some i)
    with assms have "read_limited i lim n = (Inr bs, n1)" by (simp add: body_read_limited_def)
    note data = read_limited_data(1,2) [OF this]
    have "bs @ drop (length bs) (unread (streams n i)) = unread (streams n i)"
      unfolding data(1) by (simp add: min_def)
    with data Some show ?thesis by (simp add: readable_def)
  qed
  then show "bs = take (nat lim) (readable b n)" "bs @ readable b n1 = readable b n" by blast+
qed

text \<open>A buffered body is complete, whatever its size, unless the limit is the greatest integer.\<close>

lemma prepareBuffered_replays:
  assumes "prepareBuffered env t b req n = (Inr (Some g, cl), req', n')" and "body_exists b n"
    and "0 \<le> maxBodyBuffer t" and "maxBodyBuffer t < 2 ^ 63 - 1" and "undisturbed n' m"
  shows "replays g (readable b n) m" and "ContentLength req' = int (length (readable b n))"
proof -
  have lim: "i64 (maxBodyBuffer t + 1) = maxBodyBuffer t + 1"
    using assms(3,4) by (simp add: i64_id in_i64_def)
  obtain r n1 where rd: "readBody env t b n = (r, n1)" by fastforce
  from rd assms(2) have "replays g (readable b n) m \<and> ContentLength req' = int (length (readable b n))"
  proof (cases rule: readBody_cases)
    case (1 e)
    with rd assms(1) show ?thesis by (simp add: prepareBuffered_def)
  next
    case (2 bs)
    then obtain n0 where "body_read_limited b (maxBodyBuffer t + 1) n = (Inr bs, n0)"
      unfolding lim by (metis prod.collapse)
    from body_read_data(1) [OF this] 2(4) assms(3) have "bs = readable b n"
      by (auto simp: min_def nat_le_iff split: if_splits)
    with 2 rd assms(1) serve_bytes_replays show ?thesis by (auto simp: prepareBuffered_def)
  next
    case (3 bs n0)
    let ?f = "next_stream n" and ?n2 = "reqBody_Close b n1"
    have data: "contents (streams ?n2 ?f) = readable b n"
      using 3(5) body_read_data(2) [OF 3(1)] by (cases b) (simp_all add: reqBody_Close_def)
    have eq: "g = rewind ?f 0 (plainBody ?f)" "n' = ?n2" "ContentLength req' = int (length (readable b n))"
      using rd 3(2) assms(1) data
      by (auto simp: prepareBuffered_def prepareSpilledBody_def Let_def split: option.splits)
    have "contents (streams m ?f) = readable b n"
      using assms(5) data 3(3) by (simp add: undisturbed_def eq(2))
    then show ?thesis using eq rewind_replays [of "plainBody ?f" ?f 0 m] by simp
  qed
  then show "replays g (readable b n) m" "ContentLength req' = int (length (readable b n))" by simp_all
qed

lemma prepareSeekable_replays:
  assumes "prepareSeekable i (plainBody i) req n = (Inr (Some g, cl), req', n')"
    and "i < next_stream n" and "undisturbed n' m"
  shows "replays g (readable (plainBody i) n) m"
    and "(\<forall>k. seek_result (streams n i) k = None) \<Longrightarrow>
      ContentLength req' \<le> int (length (readable (plainBody i) n))"
proof -
  obtain r1 n1 where s1: "stream_Seek i 0 SeekCurrent n = (r1, n1)" by fastforce
  obtain start where r1: "r1 = Inr start"
    using assms(1) s1 by (cases r1) (auto simp: prepareSeekable_def)
  note d1 = stream_Seek_data [OF s1 [unfolded r1]]
  have start: "start = pos (streams n i)" using d1(1) by (simp add: seek_target_def)
  obtain r2 n2 where s2: "stream_Seek i 0 SeekEnd n1 = (r2, n2)" by fastforce
  obtain r3 n3 where s3: "stream_Seek i start SeekStart n2 = (r3, n3)" by fastforce
  note keep = d1(3) stream_Seek_contents [OF s2] stream_Seek_contents [OF s3]
  note st = stream_Seek_steady [OF s1] stream_Seek_steady [OF s2] stream_Seek_steady [OF s3]
  have left: "readable (plainBody i) n = drop start (contents (streams n i))"
    by (simp add: readable_def unread_def start)
  note form = assms(1) [unfolded prepareSeekable_def Let_def s1 r1 s2 prod.case sum.case s3]
  have m: "contents (streams m i) = contents (streams n i)"
    and g: "g = rewind i start (plainBody i) \<or> g = (\<lambda>m. (Inr NoBody, m)) \<and> length (contents (streams n i)) \<le> start"
  proof -
    have "n' = n2 \<or> n' = n3" using form by (auto split: sum.splits if_splits)
    then show "contents (streams m i) = contents (streams n i)"
      using assms(2,3) keep st by (auto simp: undisturbed_def steady_def)
    show "g = rewind i start (plainBody i) \<or>
        g = (\<lambda>m. (Inr NoBody, m)) \<and> length (contents (streams n i)) \<le> start"
    proof (cases r2)
      case (Inl e)
      with form show ?thesis by simp
    next
      case (Inr t)
      with stream_Seek_data(1) [of i 0 SeekEnd n1 t n2] s2 keep(1)
      have "t = length (contents (streams n i))" by (simp add: seek_target_def)
      with Inr form show ?thesis by (auto split: sum.splits if_splits)
    qed
  qed
  from g show "replays g (readable (plainBody i) n) m"
    using rewind_replays [of "plainBody i" i start m] m left by (auto simp: replays_def readable_def)
  show "ContentLength req' \<le> int (length (readable (plainBody i) n))"
    if ok: "\<forall>k. seek_result (streams n i) k = None"
  proof -
    have "seek_result (streams n1 i) = seek_result (streams n i)"
      using st(1) by (simp add: steady_def answers_def)
    with ok s2 obtain t where t: "r2 = Inr t"
      by (cases r2) (auto simp: stream_Seek_def Let_def split: option.splits)
    with stream_Seek_data(1) [of i 0 SeekEnd n1 t n2] s2 keep(1)
    have "t = length (contents (streams n i))" by (simp add: seek_target_def)
    with t form left show ?thesis by (auto simp: clamp_length_def split: sum.splits if_splits)
  qed
qed

lemma prepareBody_replays:
  assumes "prepareBody env t req True n = (Inr (Some g, cl), req', n')" and "GetBody req = None"
    and "Body req = Some b" and "body_exists b n"
    and "0 \<le> maxBodyBuffer t" and "maxBodyBuffer t < 2 ^ 63 - 1" and "undisturbed n' m"
  shows "replays g (readable b n) m"
    and "(\<And>i k. as_Seeker b n = Some i \<Longrightarrow> seek_result (streams n i) k = None) \<Longrightarrow>
      ContentLength req' \<le> int (length (readable b n))"
proof -
  have "replays g (readable b n) m \<and>
    ((\<forall>i k. as_Seeker b n = Some i \<longrightarrow> seek_result (streams n i) k = None) \<longrightarrow>
      ContentLength req' \<le> int (length (readable b n)))"
  proof (cases "as_Seeker b n")
    case None
    with assms(1-3) have "prepareBuffered env t b req n = (Inr (Some g, cl), req', n')"
      by (simp add: prepareBody_def)
    from prepareBuffered_replays [OF this assms(4-7)] show ?thesis by simp
  next
    case (Some i)
    then have b: "b = plainBody i" by (auto simp: as_Seeker_def split: reqBody.splits if_splits)
    with Some assms(1-3) have p: "prepareSeekable i (plainBody i) req n = (Inr (Some g, cl), req', n')"
      by (simp add: prepareBody_def)
    have "i < next_stream n" using assms(4) by (simp add: b body_exists_def)
    from prepareSeekable_replays [OF p this assms(7)] Some show ?thesis by (simp add: b)
  qed
  then show "replays g (readable b n) m"
    "(\<And>i k. as_Seeker b n = Some i \<Longrightarrow> seek_result (streams n i) k = None) \<Longrightarrow>
      ContentLength req' \<le> int (length (readable b n))" by blast+
qed

text \<open>
  With the greatest limit the sum \<open>limit + 1\<close> wraps around to the least integer, nothing is
  read, and every attempt sends an empty body.
\<close>

lemma prepareBody_overflow:
  assumes "maxBodyBuffer t = 2 ^ 63 - 1" and "GetBody req = None" and "Body req = Some b"
    and "as_Seeker b n = None"
  shows "\<exists>n'. prepareBody env t req True n =
    (Inr (Some (serve_bytes []), None), req\<lparr>ContentLength := 0\<rparr>, n')"
proof -
  have "i64 (maxBodyBuffer t + 1) = - (2 ^ 63)" by (simp add: assms(1) i64_def)
  then have "fst (body_read_limited b (i64 (maxBodyBuffer t + 1)) n) = Inr []"
    by (auto simp: body_read_limited_def read_limited_def Let_def split: option.split)
  then obtain n1 where "body_read_limited b (i64 (maxBodyBuffer t + 1)) n = (Inr [], n1)"
    by (metis prod.collapse)
  then have "readBody env t b n = (Inr (Inl []), n1)"
    using assms(1) by (simp add: readBody_def readBodyWithFactory_def)
  with assms(2-4) show ?thesis by (simp add: prepareBody_def prepareBuffered_def)
qed

text \<open>Preparing a body touches only streams, and so does the clean-up.\<close>

lemma cleanup_cases:
  assumes "prepareBody env t req rp n = (Inr (g, cl), req', n')"
  shows "cl = None \<or> (\<exists>b. cl = Some (reqBody_Close b)) \<or> (\<exists>f. cl = Some (close_and_remove f))"
  using assms
  by (auto simp: prepareBody_def prepareSeekable_def prepareBuffered_def prepareSpilledBody_def Let_def
      split: option.splits prod.splits sum.splits if_splits)

lemma cleanup_forms:
  assumes "prepareBody env t req rp n = (Inr (g, cl), req', n')"
  shows "outer (run_cleanup cl m) = outer m" and "next_stream (run_cleanup cl m) = next_stream m"
  using cleanup_cases [OF assms] by (auto simp: run_cleanup_def)

lemma prepareBody_outer:
  assumes "prepareBody env t req rp n = (res, req', n')" and "\<And>b. Body req = Some b \<Longrightarrow> body_exists b n"
  shows "outer n' = outer n" and "next_stream n \<le> next_stream n'"
proof -
  have "outer n' = outer n \<and> next_stream n \<le> next_stream n'"
  proof (cases "Body req")
    case None
    with assms(1) show ?thesis by (auto simp: prepareBody_def split: option.splits)
  next
    case (Some b)
    note tidy = prepareBody_tidy [OF assms(1) Some assms(2) [OF Some]]
    show ?thesis
    proof (cases res)
      case (Inl e)
      with tidy show ?thesis by (simp add: tidy_def)
    next
      case (Inr p)
      obtain g cl where p: "p = (g, cl)" by fastforce
      with Inr cleanup_forms [OF assms(1) [unfolded Inr p]] tidy show ?thesis
        by (auto simp: tidy_def)
    qed
  qed
  then show "outer n' = outer n" "next_stream n \<le> next_stream n'" by simp_all
qed

end
