(* ===== verification/Round_Trip.thy ===== *)
theory Round_Trip
  imports Transport_Build Body_Replay
begin

text \<open>
  \<open>RoundTrip\<close> of \<open>src/transport.go\<close>: match the request, pick a server, send the request there,
  judge the answer, report to the balancer, and try the next server if that is allowed.
\<close>

section \<open>Judging an attempt\<close>

definition error_Is :: "error option \<Rightarrow> sentinel \<Rightarrow> bool" where
  "error_Is err target = (case err of None \<Rightarrow> False | Some e \<Rightarrow> errors_Is e target)"

definition isRoundTripperContractError :: "error option \<Rightarrow> bool" where
  "isRoundTripperContractError err \<longleftrightarrow>
     error_Is err ErrNilResponseBody \<or> error_Is err ErrInvalidRoundTrip \<or>
     error_Is err ErrNilRoundTripper"

definition isNonIdempotentMethod :: "string \<Rightarrow> bool" where
  "isNonIdempotentMethod m \<longleftrightarrow> m \<in> {''POST'', ''LOCK'', ''PATCH''}"

record attemptDecision =
  dec_retry :: bool
  dec_failed :: bool
  dec_neutral :: bool

definition shouldRetry :: "Transport \<Rightarrow> http_Response option \<Rightarrow> error option \<Rightarrow> bool" where
  "shouldRetry t resp err =
     (case nextUpstream t of Some cond \<Rightarrow> cond resp err | None \<Rightarrow> err \<noteq> None)"

definition decideAttempt ::
  "Transport \<Rightarrow> http_Request \<Rightarrow> http_Response option \<Rightarrow> error option \<Rightarrow> bool \<Rightarrow> attemptDecision" where
  "decideAttempt t req resp err sent =
     (let neutral = isRoundTripperContractError err
      in if \<not> shouldRetry t resp err
         then \<lparr>dec_retry = False, dec_failed = False, dec_neutral = neutral\<rparr>
         else let blockedNonIdempotent =
                    (sent \<and> isNonIdempotentMethod (Method req) \<and> \<not> retryNonIdempotent t);
                  decision = \<lparr>dec_retry = \<not> blockedNonIdempotent, dec_failed = \<not> neutral,
                              dec_neutral = neutral\<rparr>
              in (case (err, resp) of
                    (None, Some r) \<Rightarrow>
                      (let d1 = (if StatusCode r = 403 \<or> StatusCode r = 404
                                 then decision\<lparr>dec_failed := False\<rparr> else decision)
                       in if blockedNonIdempotent then d1\<lparr>dec_failed := False\<rparr> else d1)
                  | _ \<Rightarrow> decision))"

definition requestBodyMayNeedReplay :: "Transport \<Rightarrow> upstream option \<Rightarrow> http_Request \<Rightarrow> bool" where
  "requestBodyMayNeedReplay t ups req =
     (case ups of
        None \<Rightarrow> False
      | Some u \<Rightarrow>
          if \<not> multipleUsablePeers u then False
          else \<not> isNonIdempotentMethod (Method req) \<or> retryNonIdempotent t)"

definition traceRequestSent :: "http_Request \<Rightarrow> http_Request" where
  "traceRequestSent req = req\<lparr>traced := True\<rparr>"

text \<open>\<open>wrote\<close> is the flag that the hooks of the trace set.\<close>

definition requestWasSent ::
  "RoundTripper option \<Rightarrow> bool \<Rightarrow> http_Response option \<Rightarrow> error option \<Rightarrow> bool" where
  "requestWasSent rt wrote resp err =
     (if resp \<noteq> None \<or> wrote then True
      else if err = None then False
      else (case rt of Some (stdTransport _) \<Rightarrow> False | _ \<Rightarrow> True))"

section \<open>One exchange with a round tripper\<close>

type_synonym rt_result = "http_Response option \<times> error option"

definition failRoundTrip :: "http_Request option \<Rightarrow> error option \<Rightarrow> net \<Rightarrow> rt_result \<times> net" where
  "failRoundTrip req err n =
     ((None, err),
      (case req of
         None \<Rightarrow> n
       | Some r \<Rightarrow> (case Body r of None \<Rightarrow> n | Some b \<Rightarrow> reqBody_Close b n)))"

text \<open>The call itself, recorded in the state.\<close>

definition call_RoundTripper ::
  "rt_env \<Rightarrow> RoundTripper \<Rightarrow> http_Request \<Rightarrow> net \<Rightarrow> (rt_result \<times> bool) \<times> net" where
  "call_RoundTripper env rt req n =
     (let a = rt_RoundTrip env rt req n
      in (((ans_resp a, ans_err a), ans_wrote a),
          n\<lparr>lb := ans_lb a, streams := ans_streams a, next_stream := ans_next a,
            calls := \<lparr>call_rt = rt, call_url = URL req, call_host = Host req, call_method = Method req,
                      call_resp = (ans_resp a \<noteq> None), call_err = ans_err a,
                      call_wrote = ans_wrote a\<rparr> # calls n\<rparr>))"

definition roundTrip ::
  "rt_env \<Rightarrow> RoundTripper option \<Rightarrow> http_Request \<Rightarrow> net \<Rightarrow> (rt_result \<times> bool) \<times> net" where
  "roundTrip env rt req n =
     (case rt of
        None \<Rightarrow>
          (case failRoundTrip (Some req) (Some (sentinelError ErrNilRoundTripper)) n of
             (res, n1) \<Rightarrow> ((res, False), n1))
      | Some r \<Rightarrow>
          (case call_RoundTripper env r req n of
             (((resp, err), wrote), n1) \<Rightarrow>
               if resp = None \<and> err = None
               then (case failRoundTrip (Some req) (Some (sentinelError ErrInvalidRoundTrip)) n1 of
                       (res, n2) \<Rightarrow> ((res, wrote), n2))
               else if (case resp of None \<Rightarrow> False | Some x \<Rightarrow> resp_Body x = None)
               then (case failRoundTrip (Some req) (Some (sentinelError ErrNilResponseBody)) n1 of
                       (res, n2) \<Rightarrow> ((res, wrote), n2))
               else (((resp, err), wrote), n1)))"

section \<open>Picking\<close>

definition transport_newPicker :: "upstream option \<Rightarrow> http_Request \<Rightarrow> Picker option" where
  "transport_newPicker ups req =
     (case ups of
        None \<Rightarrow> None
      | Some u \<Rightarrow>
          (case balancer u of
             None \<Rightarrow> None
           | Some bal \<Rightarrow>
               Some (case bal of
                       balIPHash h \<Rightarrow>
                         if algo u = AlgoIPHash then pkIPHash (NewPickerForIP (clientIP req) h)
                         else NewPicker bal
                     | balHash h \<Rightarrow>
                         (case hashFunc u of
                            Some f \<Rightarrow> if algo u = AlgoHash then pkHash (Hash_NewPickerForKey (f req) h)
                                      else NewPicker bal
                          | None \<Rightarrow> NewPicker bal)
                     | balHashConsistent h \<Rightarrow>
                         (case hashFunc u of
                            Some f \<Rightarrow> if algo u = AlgoHashConsistent
                                      then pkChash (HashConsistent_NewPickerForKey (f req) h)
                                      else NewPicker bal
                          | None \<Rightarrow> NewPicker bal)
                     | _ \<Rightarrow> NewPicker bal)))"

text \<open>A method call on a nil body panics.\<close>

definition resp_Close :: "http_Response \<Rightarrow> net \<Rightarrow> net outcome" where
  "resp_Close r n = (case resp_Body r of None \<Rightarrow> Panic | Some b \<Rightarrow> Val (respBody_Close b n))"

definition closeLast :: "http_Response option \<Rightarrow> net \<Rightarrow> net outcome" where
  "closeLast lastResp n = (case lastResp of None \<Rightarrow> Val n | Some r \<Rightarrow> resp_Close r n)"

definition report_neutral :: "peer_id \<Rightarrow> Picker \<Rightarrow> net \<Rightarrow> Picker \<times> net" where
  "report_neutral p pk n =
     (case doneNeutral (Some p) pk (lb n) of (pk1, w) \<Rightarrow> (pk1, n\<lparr>lb := w\<rparr>))"

definition report_done :: "peer_id \<Rightarrow> bool \<Rightarrow> Picker \<Rightarrow> net \<Rightarrow> Picker \<times> net" where
  "report_done p failed pk n =
     (case Done (Some p) failed pk (lb n) of (pk1, w) \<Rightarrow> (pk1, n\<lparr>lb := w\<rparr>))"

section \<open>One attempt\<close>

definition redirect :: "backendAddr \<Rightarrow> request_url \<Rightarrow> request_url" where
  "redirect addr u = u\<lparr>Scheme := ba_scheme addr, Host_of := ba_host addr\<rparr>"

definition rewrite_request :: "upstreamKey \<Rightarrow> backendAddr \<Rightarrow> http_Request \<Rightarrow> http_Request" where
  "rewrite_request key addr req =
     req\<lparr>Host := (if Host req = '''' then key_host key else Host req),
         URL := map_option (redirect addr) (URL req)\<rparr>"

definition restore_body ::
  "get_body option \<Rightarrow> http_Request \<Rightarrow> net \<Rightarrow> (error + http_Request) \<times> net" where
  "restore_body getBody req n =
     (case getBody of
        None \<Rightarrow> (Inr req, n)
      | Some g \<Rightarrow>
          (case g n of
             (Inl e, n1) \<Rightarrow> (Inl e, n1)
           | (Inr body, n1) \<Rightarrow> (Inr (req\<lparr>Body := Some body, GetBody := Some g\<rparr>), n1)))"

definition attempt_timeout :: "Transport \<Rightarrow> http_Request \<Rightarrow> net \<Rightarrow> (http_Request \<times> nat option) \<times> net" where
  "attempt_timeout t req n =
     (if 0 < timeout t
      then ((req\<lparr>ctx_timeout := Some (timeout t)\<rparr>, Some (cancels n)), n\<lparr>cancels := Suc (cancels n)\<rparr>)
      else ((req, None), n))"

definition call_cancel :: "nat option \<Rightarrow> net \<Rightarrow> net" where
  "call_cancel cancel n = (case cancel of None \<Rightarrow> n | Some c \<Rightarrow> n\<lparr>canceled := c # canceled n\<rparr>)"

text \<open>On success the cancel function moves into the body of the response.\<close>

definition handle_cancel :: "nat option \<Rightarrow> http_Response option \<Rightarrow> error option \<Rightarrow> net
    \<Rightarrow> (http_Response option \<times> net) outcome" where
  "handle_cancel cancel resp err n =
     (if err \<noteq> None then Val (resp, call_cancel cancel n)
      else case cancel of
             None \<Rightarrow> Val (resp, n)
           | Some c \<Rightarrow>
               (case resp of
                  None \<Rightarrow> Panic
                | Some r \<Rightarrow>
                    Val (Some (r\<lparr>resp_Body := map_option (\<lambda>b. cancelCloser b c) (resp_Body r)\<rparr>), n)))"

datatype attempt_end =
    Finished "http_Response option" "error option"
  | NextPeer "http_Response option" "error option" Picker

definition judge ::
  "Transport \<Rightarrow> http_Request \<Rightarrow> RoundTripper option \<Rightarrow> bool \<Rightarrow> http_Response option \<Rightarrow> error option
   \<Rightarrow> Picker \<Rightarrow> peer_id \<Rightarrow> net \<Rightarrow> attempt_end \<times> net" where
  "judge t req rt wrote resp err pk p n =
     (let decision = decideAttempt t req resp err (requestWasSent rt wrote resp err)
      in case (if dec_neutral decision then report_neutral p pk n
               else report_done p (dec_failed decision) pk n) of
           (pk1, n1) \<Rightarrow>
             if \<not> dec_retry decision then (Finished resp err, n1) else (NextPeer resp err pk1, n1))"

definition canceled_by_caller ::
  "rt_env \<Rightarrow> http_Response option \<Rightarrow> Picker \<Rightarrow> peer_id \<Rightarrow> net \<Rightarrow> (attempt_end \<times> net) outcome" where
  "canceled_by_caller env resp pk p n =
     (case report_neutral p pk n of
        (pk1, n1) \<Rightarrow>
          (case closeLast resp n1 of
             Panic \<Rightarrow> Panic
           | Val n2 \<Rightarrow> (case Context_Err env n2 of (e, n3) \<Rightarrow> Val (Finished None e, n3))))"

definition attempt ::
  "rt_env \<Rightarrow> Transport \<Rightarrow> upstream \<Rightarrow> upstreamKey \<Rightarrow> http_Request \<Rightarrow> get_body option \<Rightarrow> Picker \<Rightarrow> peer_id
   \<Rightarrow> backendAddr \<Rightarrow> net \<Rightarrow> (attempt_end \<times> net) outcome" where
  "attempt env t ups key baseReq getBody pk p addr n =
     (case restore_body getBody (rewrite_request key addr baseReq) n of
        (Inl e, n1) \<Rightarrow>
          (case report_neutral p pk n1 of (pk1, n2) \<Rightarrow> Val (Finished None (Some e), n2))
      | (Inr req1, n1) \<Rightarrow>
          (case attempt_timeout t req1 n1 of
             ((req2, cancel), n2) \<Rightarrow>
               (let rt = (case ups_transport ups of None \<Rightarrow> transport t | Some r \<Rightarrow> Some r);
                    req3 = traceRequestSent req2
                in case roundTrip env rt req3 n2 of
                     (((resp0, err), wrote), n3) \<Rightarrow>
                       (case handle_cancel cancel resp0 err n3 of
                          Panic \<Rightarrow> Panic
                        | Val (resp, n4) \<Rightarrow>
                            if err = None then Val (judge t req3 rt wrote resp err pk p n4)
                            else (case Context_Err env n4 of
                                    (Some _, n5) \<Rightarrow> canceled_by_caller env resp pk p n5
                                  | (None, n5) \<Rightarrow> Val (judge t req3 rt wrote resp err pk p n5))))))"

section \<open>The loop\<close>

text \<open>
  One iteration starts with a picker and the result of the previous attempt. It returns a
  result (\<open>Inl\<close>) or the state of the next iteration. The loop has no bound of its own; the
  model counts its iterations with fuel, and \<open>None\<close> means that the fuel ran out.
\<close>

type_synonym loop_state = "Picker \<times> http_Response option \<times> error option \<times> net"

definition send_to ::
  "rt_env \<Rightarrow> Transport \<Rightarrow> upstream \<Rightarrow> upstreamKey \<Rightarrow> http_Request \<Rightarrow> get_body option \<Rightarrow> Picker \<Rightarrow> peer_id
   \<Rightarrow> http_Response option \<Rightarrow> net \<Rightarrow> ((rt_result \<times> net) + loop_state) outcome" where
  "send_to env t ups key baseReq getBody pk p lastResp n =
     (case map_of (backends ups) p of
        None \<Rightarrow>
          (case report_neutral p pk n of
             (pk1, n1) \<Rightarrow>
               (case closeLast lastResp n1 of
                  Panic \<Rightarrow> Panic
                | Val n2 \<Rightarrow>
                    Val (Inl ((None, Some (errorText
                      ''cslb: selected peer %q has no backend address'')), n2))))
      | Some addr \<Rightarrow>
          (case closeLast lastResp n of
             Panic \<Rightarrow> Panic
           | Val n1 \<Rightarrow>
               (case attempt env t ups key baseReq getBody pk p addr n1 of
                  Panic \<Rightarrow> Panic
                | Val (Finished resp err, n2) \<Rightarrow> Val (Inl ((resp, err), n2))
                | Val (NextPeer resp err pk1, n2) \<Rightarrow> Val (Inr (pk1, resp, err, n2)))))"

definition RoundTrip_iteration ::
  "rt_env \<Rightarrow> Transport \<Rightarrow> upstream \<Rightarrow> upstreamKey \<Rightarrow> http_Request \<Rightarrow> get_body option \<Rightarrow> loop_state
   \<Rightarrow> ((rt_result \<times> net) + loop_state) outcome" where
  "RoundTrip_iteration env t ups key baseReq getBody st =
     (case st of (pk, lastResp, lastErr, n) \<Rightarrow>
       (case Context_Err env n of
          (Some err, n1) \<Rightarrow>
            (case closeLast lastResp n1 of
               Panic \<Rightarrow> Panic
             | Val n2 \<Rightarrow> Val (Inl ((None, Some err), n2)))
        | (None, n1) \<Rightarrow>
            (case Pick pk (lb n1) of
               Panic \<Rightarrow> Panic
             | Val (None, pk1, w1) \<Rightarrow>
                 if lastResp \<noteq> None \<or> lastErr \<noteq> None
                 then Val (Inl ((lastResp, lastErr), n1\<lparr>lb := w1\<rparr>))
                 else Val (Inl ((None, Some (sentinelError ErrNoPeerAvailable)), n1\<lparr>lb := w1\<rparr>))
             | Val (Some p, pk1, w1) \<Rightarrow>
                 send_to env t ups key baseReq getBody pk1 p lastResp (n1\<lparr>lb := w1\<rparr>))))"

fun RoundTrip_loop ::
  "nat \<Rightarrow> rt_env \<Rightarrow> Transport \<Rightarrow> upstream \<Rightarrow> upstreamKey \<Rightarrow> http_Request \<Rightarrow> get_body option \<Rightarrow> loop_state
   \<Rightarrow> (rt_result \<times> net) outcome option" where
  "RoundTrip_loop 0 env t ups key baseReq getBody st = None"
| "RoundTrip_loop (Suc fuel) env t ups key baseReq getBody st =
     (case RoundTrip_iteration env t ups key baseReq getBody st of
        Panic \<Rightarrow> Some Panic
      | Val (Inl res) \<Rightarrow> Some (Val res)
      | Val (Inr st1) \<Rightarrow> RoundTrip_loop fuel env t ups key baseReq getBody st1)"

definition RoundTrip_upstream ::
  "nat \<Rightarrow> rt_env \<Rightarrow> Transport \<Rightarrow> upstream \<Rightarrow> upstreamKey \<Rightarrow> http_Request \<Rightarrow> net
   \<Rightarrow> (rt_result \<times> net) outcome option" where
  "RoundTrip_upstream fuel env t ups key req n =
     (case transport_newPicker (Some ups) req of
        None \<Rightarrow> Some (Val (failRoundTrip (Some req) (Some (sentinelError ErrInvalidUpstreamConfig)) n))
      | Some pk \<Rightarrow>
          (case prepareBody env t req (requestBodyMayNeedReplay t (Some ups) req) n of
             (Inl e, _, n1) \<Rightarrow> Some (Val ((None, Some e), n1))
           | (Inr (getBody, cl), baseReq, n1) \<Rightarrow>
               (case RoundTrip_loop fuel env t ups key baseReq getBody (pk, None, None, n1) of
                  Some (Val (res, n2)) \<Rightarrow> Some (Val (res, run_cleanup cl n2))
                | other \<Rightarrow> other)))"

definition RoundTrip ::
  "nat \<Rightarrow> rt_env \<Rightarrow> Transport option \<Rightarrow> http_Request option \<Rightarrow> net \<Rightarrow> (rt_result \<times> net) outcome option" where
  "RoundTrip fuel env tr rq n =
     (case tr of
        None \<Rightarrow> Some (Val (failRoundTrip rq (Some (sentinelError ErrNilRoundTripper)) n))
      | Some t \<Rightarrow>
          if initErr t \<noteq> None then Some (Val (failRoundTrip rq (initErr t) n))
          else
            (case rq of
               None \<Rightarrow> Some (Val (failRoundTrip None (Some (sentinelError ErrNilRequest)) n))
             | Some req \<Rightarrow>
                 (case URL req of
                    None \<Rightarrow> Some (Val (failRoundTrip (Some req) (Some (sentinelError ErrNilRequestURL)) n))
                  | Some u \<Rightarrow>
                      if transport t = None
                      then Some (Val (failRoundTrip (Some req) (Some (sentinelError ErrNilRoundTripper)) n))
                      else
                        (case Context_Err env n of
                           (Some e, n1) \<Rightarrow> Some (Val (failRoundTrip (Some req) (Some e) n1))
                         | (None, n1) \<Rightarrow>
                             (let key = \<lparr>key_scheme = Scheme u, key_host = Host_of u\<rparr>
                              in case map_of (upstreams t) key of
                                   None \<Rightarrow>
                                     (case roundTrip env (transport t) req n1 of
                                        ((res, _), n2) \<Rightarrow> Some (Val (res, n2)))
                                 | Some ups \<Rightarrow> RoundTrip_upstream fuel env t ups key req n1)))))"

end
