(* ===== verification/Round_Trip_Loop.thy ===== *)
theory Round_Trip_Loop
  imports Round_Trip
begin

text \<open>
  The loop of \<open>RoundTrip\<close>: the rule that gives total correctness from an invariant, the parts
  of one attempt, and the proof that the loop returns without panic.
\<close>

section \<open>The loop as a fuelled loop\<close>

interpretation trip: fuelled_loop "RoundTrip_iteration env t ups key req g"
  "\<lambda>fuel. RoundTrip_loop fuel env t ups key req g" for env t ups key req g
  by unfold_locales simp_all

section \<open>The parts of an attempt\<close>

text \<open>A response that carries a body, as every response of the round trip does.\<close>

definition has_body :: "http_Response option \<Rightarrow> bool" where
  "has_body resp \<longleftrightarrow> (\<forall>r. resp = Some r \<longrightarrow> resp_Body r \<noteq> None)"

lemma has_body_None [simp]: "has_body None"
  by (simp add: has_body_def)

lemma roundTrip_answer:
  assumes "roundTrip env rt req n = (((resp, err), wrote), n')"
  shows "has_body resp" and "resp \<noteq> None \<or> err \<noteq> None"
  using assms
  by (auto simp: roundTrip_def failRoundTrip_def has_body_def split: option.splits if_splits prod.splits)

lemma closeLast_ok:
  assumes "has_body resp"
  obtains n' where "closeLast resp n = Val n'" "lb n' = lb n" "calls n' = calls n"
    "next_stream n' = next_stream n" "cancels n' = cancels n" "ctx_reads n' = ctx_reads n"
  using assms that by (cases resp) (auto simp: closeLast_def resp_Close_def has_body_def)

lemma closeLast_Val:
  assumes "closeLast resp n = Val n'"
  shows "lb n' = lb n" and "calls n' = calls n" and "cancels n' = cancels n"
    and "ctx_reads n' = ctx_reads n" and "next_stream n' = next_stream n"
  using assms by (auto simp: closeLast_def resp_Close_def split: option.splits)

text \<open>Reports to the balancer touch its store only.\<close>

lemma report_frame:
  "report_neutral p pk n = (pk', n') \<Longrightarrow> n' = n\<lparr>lb := lb n'\<rparr>"
  "report_done p failed pk n = (pk', n') \<Longrightarrow> n' = n\<lparr>lb := lb n'\<rparr>"
  by (auto simp: report_neutral_def report_done_def split: prod.splits)

text \<open>A report, neutral or not, as the balancer sees it.\<close>

definition reported :: "peer_id \<Rightarrow> Picker \<Rightarrow> world \<Rightarrow> Picker \<Rightarrow> world \<Rightarrow> bool" where
  "reported p pk w pk' w' \<longleftrightarrow>
     picker_wf pk' \<and> rr_wf (embedded pk') \<and> done_spec p (embedded pk) w (embedded pk') w' \<and>
     remaining (embedded pk') = remaining (embedded pk)"

lemma rr_done_reported:
  assumes "picker_wf pk" and "rr_wf (embedded pk)" and d: "rr_done (Some p) f neutral (embedded pk) w = (rr', w')"
  shows "reported p pk w (with_embedded pk rr') w'"
proof -
  have e: "embedded (with_embedded pk rr') = rr'" by (rule any_picker.rr_of_with_rr)
  have "picker_wf (with_embedded pk rr')"
    by (rule any_picker.wf_with_rr [OF assms(1)]) (rule rr_done_picker [OF d])+
  with e rr_done_wf [OF d assms(2)] rr_done_spec [OF d] rr_done_remaining [OF d]
  show ?thesis by (simp add: reported_def)
qed

lemma report_ok:
  assumes "picker_wf pk" and "rr_wf (embedded pk)"
  shows "report_neutral p pk n = (pk', n') \<Longrightarrow> reported p pk (lb n) pk' (lb n')"
    and "report_done p failed pk n = (pk', n') \<Longrightarrow> reported p pk (lb n) pk' (lb n')"
  using rr_done_reported [OF assms]
  by (auto simp: report_neutral_def report_done_def Done_embedded doneNeutral_def RRPicker_Done_def
      RRPicker_doneNeutral_def split: prod.splits)

section \<open>An exchange\<close>

text \<open>
  The middle of an attempt: from a request with its body to an answer whose cancel function is
  called or attached.
\<close>

definition used_transport :: "Transport \<Rightarrow> upstream \<Rightarrow> RoundTripper option" where
  "used_transport t ups = (case ups_transport ups of None \<Rightarrow> transport t | Some r \<Rightarrow> Some r)"

definition timed :: "Transport \<Rightarrow> http_Request \<Rightarrow> http_Request" where
  "timed t req =
     traceRequestSent (if 0 < timeout t then req\<lparr>ctx_timeout := Some (timeout t)\<rparr> else req)"

definition new_cancel :: "Transport \<Rightarrow> net \<Rightarrow> nat option" where
  "new_cancel t n = (if 0 < timeout t then Some (cancels n) else None)"

definition exchange ::
  "rt_env \<Rightarrow> Transport \<Rightarrow> upstream \<Rightarrow> http_Request \<Rightarrow> net \<Rightarrow> http_Response option \<Rightarrow> error option
   \<Rightarrow> bool \<Rightarrow> net \<Rightarrow> bool" where
  "exchange env t ups req n resp err wrote n' \<longleftrightarrow>
     (\<exists>resp0 n1. roundTrip env (used_transport t ups) (timed t req)
          (n\<lparr>cancels := cancels n + (if 0 < timeout t then 1 else 0)\<rparr>) = (((resp0, err), wrote), n1) \<and>
        handle_cancel (new_cancel t n) resp0 err n1 = Val (resp, n'))"

lemma attempt_timeout_eq:
  "attempt_timeout t req n =
     (((if 0 < timeout t then req\<lparr>ctx_timeout := Some (timeout t)\<rparr> else req), new_cancel t n),
      n\<lparr>cancels := cancels n + (if 0 < timeout t then 1 else 0)\<rparr>)"
  by (simp add: attempt_timeout_def new_cancel_def)

lemma handle_cancel_ok:
  assumes "has_body resp" and "resp \<noteq> None \<or> err \<noteq> None"
  shows "\<exists>resp' n'. handle_cancel cancel resp err n = Val (resp', n') \<and> has_body resp' \<and>
    (resp' = None \<longleftrightarrow> resp = None)"
  using assms by (auto simp: handle_cancel_def has_body_def split: option.splits)

lemma handle_cancel_resp:
  assumes "handle_cancel cancel resp err n = Val (resp', n')" and "has_body resp" and "resp \<noteq> None \<or> err \<noteq> None"
  shows "has_body resp'" and "resp' \<noteq> None \<or> err \<noteq> None" and "resp' = None \<longleftrightarrow> resp = None"
  using handle_cancel_ok [OF assms(2,3), of cancel n] assms(1,3) by auto

text \<open>The two ends of an attempt that had an answer.\<close>

lemma judge_ok:
  assumes "picker_wf pk" and "rr_wf (embedded pk)"
  obtains pk' n' where
    "judge t req rt wrote resp err pk p n =
       (if dec_retry (decideAttempt t req resp err (requestWasSent rt wrote resp err))
        then NextPeer resp err pk' else Finished resp err, n')"
    "n' = n\<lparr>lb := lb n'\<rparr>" "reported p pk (lb n) pk' (lb n')"
proof -
  let ?d = "decideAttempt t req resp err (requestWasSent rt wrote resp err)"
  obtain pk' n' where r: "(if dec_neutral ?d then report_neutral p pk n
      else report_done p (dec_failed ?d) pk n) = (pk', n')" by (metis prod.collapse)
  then have "n' = n\<lparr>lb := lb n'\<rparr>" "reported p pk (lb n) pk' (lb n')"
    using report_frame(1) [of p pk n pk' n'] report_frame(2) [of p "dec_failed ?d" pk n pk' n']
      report_ok(1) [OF assms, of p n pk' n'] report_ok(2) [OF assms, of p "dec_failed ?d" n pk' n']
    by (auto split: if_splits)
  with r show thesis by (intro that) (auto simp: judge_def)
qed

lemma canceled_by_caller_ok:
  assumes "picker_wf pk" and "rr_wf (embedded pk)" and "has_body resp"
  obtains pk' n2 where
    "canceled_by_caller env resp pk p n =
       Val (Finished None (ctx_Err env (ctx_reads n)), n2\<lparr>ctx_reads := Suc (ctx_reads n2)\<rparr>)"
    "reported p pk (lb n) pk' (lb n2)" "closeLast resp (n\<lparr>lb := lb n2\<rparr>) = Val n2"
proof -
  obtain pk' n1 where r: "report_neutral p pk n = (pk', n1)" by fastforce
  obtain n2 where c: "closeLast resp n1 = Val n2" "lb n2 = lb n1" "ctx_reads n2 = ctx_reads n1"
    using closeLast_ok [OF assms(3)] by metis
  note fr = report_frame(1) [OF r]
  have "ctx_reads n1 = ctx_reads n" by (subst fr) simp
  then show thesis
    using r c fr report_ok(1) [OF assms(1,2) r]
    by (intro that [of n2 pk']) (auto simp: canceled_by_caller_def Context_Err_def)
qed

lemma attempt_exchange:
  assumes "restore_body g (rewrite_request key addr baseReq) n = (Inr req1, n1)"
  shows "\<exists>resp err wrote n2. exchange env t ups req1 n1 resp err wrote n2 \<and> has_body resp \<and>
    attempt env t ups key baseReq g pk p addr n =
      (if err = None then Val (judge t (timed t req1) (used_transport t ups) wrote resp err pk p n2)
       else (case Context_Err env n2 of
               (Some _, n3) \<Rightarrow> canceled_by_caller env resp pk p n3
             | (None, n3) \<Rightarrow> Val (judge t (timed t req1) (used_transport t ups) wrote resp err pk p n3)))"
proof -
  obtain resp0 err wrote n3 where rt: "roundTrip env (used_transport t ups) (timed t req1)
      (n1\<lparr>cancels := cancels n1 + (if 0 < timeout t then 1 else 0)\<rparr>) = (((resp0, err), wrote), n3)"
    by (metis prod.collapse)
  note ans = roundTrip_answer [OF rt]
  obtain resp n4 where hc: "handle_cancel (new_cancel t n1) resp0 err n3 = Val (resp, n4)"
    using handle_cancel_ok [OF ans] by blast
  have "attempt env t ups key baseReq g pk p addr n =
      (if err = None then Val (judge t (timed t req1) (used_transport t ups) wrote resp err pk p n4)
       else (case Context_Err env n4 of
               (Some _, n3) \<Rightarrow> canceled_by_caller env resp pk p n3
             | (None, n3) \<Rightarrow> Val (judge t (timed t req1) (used_transport t ups) wrote resp err pk p n3)))"
    using assms rt hc
    by (simp add: attempt_def attempt_timeout_eq timed_def [symmetric] used_transport_def [symmetric] Let_def
        split del: if_split) (simp only: timed_def)
  moreover have "exchange env t ups req1 n1 resp err wrote n4" using rt hc by (auto simp: exchange_def)
  ultimately show ?thesis using handle_cancel_resp(1) [OF hc ans] by blast
qed

text \<open>The ways an attempt ends: no body, a cancelled caller, or a judgement.\<close>

lemma attempt_cases:
  assumes "picker_wf pk" and "rr_wf (embedded pk)"
  obtains
    (no_body) e n1 pk' n' where
      "attempt env t ups key baseReq g pk p addr n = Val (Finished None (Some e), n')"
      "restore_body g (rewrite_request key addr baseReq) n = (Inl e, n1)"
      "n' = n1\<lparr>lb := lb n'\<rparr>" "reported p pk (lb n1) pk' (lb n')"
  | (gone) req1 n1 resp err wrote n2 e n3 pk' n' where
      "attempt env t ups key baseReq g pk p addr n = Val (Finished None e, n')"
      "restore_body g (rewrite_request key addr baseReq) n = (Inr req1, n1)"
      "exchange env t ups req1 n1 resp err wrote n2" "err \<noteq> None" "ctx_Err env (ctx_reads n2) \<noteq> None"
      "e = ctx_Err env (Suc (ctx_reads n2))"
      "reported p pk (lb n2) pk' (lb n')"
      "closeLast resp (n2\<lparr>ctx_reads := Suc (ctx_reads n2), lb := lb n'\<rparr>) = Val n3"
      "n' = n3\<lparr>ctx_reads := Suc (ctx_reads n3)\<rparr>"
  | (judged) req1 n1 resp err wrote n2 k d aend pk' n' where
      "attempt env t ups key baseReq g pk p addr n = Val (aend, n')"
      "restore_body g (rewrite_request key addr baseReq) n = (Inr req1, n1)"
      "exchange env t ups req1 n1 resp err wrote n2"
      "d = decideAttempt t (timed t req1) resp err
             (requestWasSent (used_transport t ups) wrote resp err)"
      "aend = (if dec_retry d then NextPeer resp err pk' else Finished resp err)"
      "n' = n2\<lparr>ctx_reads := k, lb := lb n'\<rparr>" "reported p pk (lb n2) pk' (lb n')"
      "err \<noteq> None \<longrightarrow> ctx_Err env (ctx_reads n2) = None"
proof -
  obtain rb n1 where rb: "restore_body g (rewrite_request key addr baseReq) n = (rb, n1)" by fastforce
  show thesis
  proof (cases rb)
    case (Inl e)
    obtain pk' n' where r: "report_neutral p pk n1 = (pk', n')" by fastforce
    show ?thesis
      by (rule no_body [OF _ rb [unfolded Inl] report_frame(1) [OF r] report_ok(1) [OF assms r]])
        (simp add: attempt_def rb Inl r)
  next
    case (Inr req1)
    obtain resp err wrote n2 where ex: "exchange env t ups req1 n1 resp err wrote n2"
      and body: "has_body resp" and att: "attempt env t ups key baseReq g pk p addr n =
        (if err = None then Val (judge t (timed t req1) (used_transport t ups) wrote resp err pk p n2)
         else (case Context_Err env n2 of
                 (Some _, n3) \<Rightarrow> canceled_by_caller env resp pk p n3
               | (None, n3) \<Rightarrow> Val (judge t (timed t req1) (used_transport t ups) wrote resp err pk p n3)))"
      using attempt_exchange [OF rb [unfolded Inr], of env t ups pk p] by (elim exE conjE)
    show ?thesis
    proof (cases "err = None \<or> ctx_Err env (ctx_reads n2) = None")
      case True
      let ?k = "if err = None then ctx_reads n2 else Suc (ctx_reads n2)"
      from True att have "attempt env t ups key baseReq g pk p addr n =
          Val (judge t (timed t req1) (used_transport t ups) wrote resp err pk p (n2\<lparr>ctx_reads := ?k\<rparr>))"
        by (auto simp: Context_Err_def)
      moreover obtain pk' n' where "judge t (timed t req1) (used_transport t ups) wrote resp err pk p
            (n2\<lparr>ctx_reads := ?k\<rparr>) =
          (if dec_retry (decideAttempt t (timed t req1) resp err
               (requestWasSent (used_transport t ups) wrote resp err))
           then NextPeer resp err pk' else Finished resp err, n')"
        and n': "n' = (n2\<lparr>ctx_reads := ?k\<rparr>)\<lparr>lb := lb n'\<rparr>"
        and rep: "reported p pk (lb (n2\<lparr>ctx_reads := ?k\<rparr>)) pk' (lb n')"
        by (rule judge_ok [OF assms])
      ultimately show ?thesis
        using True rep by (intro judged [OF _ rb [unfolded Inr] ex refl refl n']) (simp_all, auto)
    next
      case False
      obtain pk' n3 where c: "canceled_by_caller env resp pk p (n2\<lparr>ctx_reads := Suc (ctx_reads n2)\<rparr>) =
          Val (Finished None (ctx_Err env (ctx_reads (n2\<lparr>ctx_reads := Suc (ctx_reads n2)\<rparr>))),
            n3\<lparr>ctx_reads := Suc (ctx_reads n3)\<rparr>)"
        "reported p pk (lb (n2\<lparr>ctx_reads := Suc (ctx_reads n2)\<rparr>)) pk' (lb n3)"
        "closeLast resp (n2\<lparr>ctx_reads := Suc (ctx_reads n2), lb := lb n3\<rparr>) = Val n3"
        by (rule canceled_by_caller_ok [OF assms body])
      with False att show ?thesis
        by (intro gone [OF _ rb [unfolded Inr] ex, of "ctx_Err env (Suc (ctx_reads n2))"
              "n3\<lparr>ctx_reads := Suc (ctx_reads n3)\<rparr>" pk' n3])
          (auto simp: Context_Err_def)
    qed
  qed
qed

lemma attempt_returns:
  assumes "picker_wf pk" and "rr_wf (embedded pk)"
  shows "\<exists>aend n'. attempt env t ups key baseReq g pk p addr n = Val (aend, n')"
  by (rule attempt_cases [OF assms]) blast+

section \<open>One iteration\<close>

definition loop_wf :: "Picker \<Rightarrow> http_Response option \<Rightarrow> bool" where
  "loop_wf pk lastResp \<longleftrightarrow> picker_wf pk \<and> rr_wf (embedded pk) \<and> has_body lastResp"

abbreviation asked :: "net \<Rightarrow> net" where
  "asked n \<equiv> n\<lparr>ctx_reads := Suc (ctx_reads n)\<rparr>"

lemma iteration_cases:
  assumes "loop_wf pk lr"
  obtains
    (canceled) e n' where
      "RoundTrip_iteration env t ups key req g (pk, lr, le, n) = Val (Inl ((None, Some e), n'))"
      "ctx_Err env (ctx_reads n) = Some e" "closeLast lr (asked n) = Val n'"
  | (exhausted) pk' w' where
      "RoundTrip_iteration env t ups key req g (pk, lr, le, n) =
         Val (Inl ((if lr \<noteq> None \<or> le \<noteq> None then (lr, le)
                    else (None, Some (sentinelError ErrNoPeerAvailable))), (asked n)\<lparr>lb := w'\<rparr>))"
      "pick_spec (embedded pk) (lb n) None (embedded pk') w'" "ctx_Err env (ctx_reads n) = None"
  | (unknown) p pk1 w1 pk2 n' e where
      "RoundTrip_iteration env t ups key req g (pk, lr, le, n) = Val (Inl ((None, Some e), n'))"
      "pick_spec (embedded pk) (lb n) (Some p) (embedded pk1) w1" "map_of (backends ups) p = None"
      "reported p pk1 w1 pk2 (lb n')" "closeLast lr ((asked n)\<lparr>lb := lb n'\<rparr>) = Val n'"
  | (tried) p pk1 w1 addr n1 aend n2 where
      "RoundTrip_iteration env t ups key req g (pk, lr, le, n) =
         Val (case aend of Finished resp err \<Rightarrow> Inl ((resp, err), n2)
              | NextPeer resp err pk2 \<Rightarrow> Inr (pk2, resp, err, n2))"
      "pick_spec (embedded pk) (lb n) (Some p) (embedded pk1) w1" "picker_wf pk1" "rr_wf (embedded pk1)"
      "remaining (embedded pk1) < remaining (embedded pk)"
      "map_of (backends ups) p = Some addr" "closeLast lr ((asked n)\<lparr>lb := w1\<rparr>) = Val n1"
      "attempt env t ups key req g pk1 p addr n1 = Val (aend, n2)"
      "ctx_Err env (ctx_reads n) = None" "lb n1 = w1"
proof -
  from assms have wf: "picker_wf pk" "rr_wf (embedded pk)" "has_body lr" by (simp_all add: loop_wf_def)
  show thesis
  proof (cases "ctx_Err env (ctx_reads n)")
    case (Some e)
    obtain n' where "closeLast lr (asked n) = Val n'" using closeLast_ok [OF wf(3)] .
    with Some show ?thesis
      by (intro canceled [of e n']) (simp_all add: RoundTrip_iteration_def Context_Err_def)
  next
    case ctx: None
    have it: "RoundTrip_iteration env t ups key req g (pk, lr, le, n) =
        (case Pick pk (lb n) of
           Panic \<Rightarrow> Panic
         | Val (None, pk1, w1) \<Rightarrow>
             Val (Inl ((if lr \<noteq> None \<or> le \<noteq> None then (lr, le)
                        else (None, Some (sentinelError ErrNoPeerAvailable))), (asked n)\<lparr>lb := w1\<rparr>))
         | Val (Some p, pk1, w1) \<Rightarrow> send_to env t ups key req g pk1 p lr ((asked n)\<lparr>lb := w1\<rparr>))"
      using ctx by (simp add: RoundTrip_iteration_def Context_Err_def split: outcome.split option.split)
    show ?thesis
    proof (cases rule: any_picker.pick_cases [OF wf(1,2), of "lb n", case_names none some])
      case (none pk' w')
      with it ctx show ?thesis by (intro exhausted [of w' pk']) simp_all
    next
      case (some p pk1 w1)
      show ?thesis
      proof (cases "map_of (backends ups) p")
        case None
        obtain pk2 n1 where r: "report_neutral p pk1 ((asked n)\<lparr>lb := w1\<rparr>) = (pk2, n1)" by fastforce
        obtain n' where c: "closeLast lr n1 = Val n'" "lb n' = lb n1" using closeLast_ok [OF wf(3)] by metis
        have n1: "(asked n)\<lparr>lb := lb n'\<rparr> = n1" using report_frame(1) [OF r] c(2) by simp
        have cl: "closeLast lr ((asked n)\<lparr>lb := lb n'\<rparr>) = Val n'" unfolding n1 by (rule c(1))
        from report_ok(1) [OF some(2,3) r] c None it some(1,4) r show ?thesis
          by (intro unknown [OF _ some(4) None _ cl, of _ pk2]) (simp_all add: send_to_def)
      next
        case (Some addr)
        obtain n1 where c: "closeLast lr ((asked n)\<lparr>lb := w1\<rparr>) = Val n1" "lb n1 = w1"
          using closeLast_ok [OF wf(3), of "(asked n)\<lparr>lb := w1\<rparr>"] by auto
        obtain aend n2 where a: "attempt env t ups key req g pk1 p addr n1 = Val (aend, n2)"
          using attempt_returns [OF some(2,3)] by blast
        with it some Some c ctx show ?thesis
          by (intro tried [OF _ some(4,2,3,5) Some c(1) a ctx c(2)])
            (simp add: send_to_def split: attempt_end.split)
      qed
    qed
  qed
qed

section \<open>The loop returns\<close>

lemma exchange_body:
  assumes "exchange env t ups req n resp err wrote n'"
  shows "has_body resp" and "resp \<noteq> None \<or> err \<noteq> None"
proof -
  from assms obtain resp0 n1 where
    rt: "roundTrip env (used_transport t ups) (timed t req)
      (n\<lparr>cancels := cancels n + (if 0 < timeout t then 1 else 0)\<rparr>) = (((resp0, err), wrote), n1)"
    and hc: "handle_cancel (new_cancel t n) resp0 err n1 = Val (resp, n')"
    unfolding exchange_def by blast
  show "has_body resp" "resp \<noteq> None \<or> err \<noteq> None"
    by (rule handle_cancel_resp(1,2) [OF hc roundTrip_answer [OF rt]])+
qed

text \<open>What an attempt hands to the next iteration.\<close>

lemma attempt_next:
  assumes "picker_wf pk" and "rr_wf (embedded pk)"
    and "attempt env t ups key req g pk p addr n = Val (NextPeer resp err pk', n')"
  shows "loop_wf pk' resp" and "remaining (embedded pk') = remaining (embedded pk)"
    and "resp \<noteq> None \<or> err \<noteq> None"
proof -
  have "loop_wf pk' resp \<and> remaining (embedded pk') = remaining (embedded pk) \<and> (resp \<noteq> None \<or> err \<noteq> None)"
    by (rule attempt_cases [OF assms(1,2), of env t ups key req g p addr n])
      (use assms(3) exchange_body in \<open>auto simp: reported_def loop_wf_def split: if_splits\<close>)
  then show "loop_wf pk' resp" "remaining (embedded pk') = remaining (embedded pk)"
    "resp \<noteq> None \<or> err \<noteq> None" by simp_all
qed

lemma iteration_returns:
  assumes "loop_wf pk lr"
  shows "\<exists>r. RoundTrip_iteration env t ups key req g (pk, lr, le, n) = Val r \<and>
    (case r of Inl _ \<Rightarrow> True
     | Inr (pk', lr', le', n') \<Rightarrow> loop_wf pk' lr' \<and> remaining (embedded pk') < remaining (embedded pk))"
proof (cases rule: iteration_cases [OF assms, of env t ups key req g le n, case_names canceled exhausted unknown tried])
  case (tried p pk1 w1 addr n1 aend n2)
  then show ?thesis
    using attempt_next [OF tried(3,4)] by (cases aend) auto
qed auto

text \<open>
  The rule for loops over well-formed states: the measure is taken care of, an invariant and
  a postcondition are left.
\<close>

lemma RoundTrip_loop_inv:
  assumes step: "\<And>pk lr le n. loop_wf pk lr \<Longrightarrow> I pk lr le n \<Longrightarrow>
      (case RoundTrip_iteration env t ups key req g (pk, lr, le, n) of
         Val (Inl (res, n')) \<Rightarrow> Q res n'
       | Val (Inr (pk', lr', le', n')) \<Rightarrow> I pk' lr' le' n'
       | Panic \<Rightarrow> False)"
    and "loop_wf pk lr" and "I pk lr le n" and "remaining (embedded pk) < fuel"
  shows "\<exists>res n'. RoundTrip_loop fuel env t ups key req g (pk, lr, le, n) = Some (Val (res, n')) \<and> Q res n'"
proof -
  let ?I = "\<lambda>(pk, lr, le, n). loop_wf pk lr \<and> I pk lr le n" and ?m = "\<lambda>(pk, _). remaining (embedded pk)"
  have "\<exists>r. RoundTrip_iteration env t ups key req g st = Val r \<and>
      (case r of Inl x \<Rightarrow> (case x of (res, n') \<Rightarrow> Q res n') | Inr st' \<Rightarrow> ?I st' \<and> ?m st' < ?m st)"
    if inv: "?I st" for st :: loop_state
  proof -
    from inv obtain pk lr le n where st: "st = (pk, lr, le, n)" "loop_wf pk lr" "I pk lr le n"
      by (cases st) auto
    from iteration_returns [OF st(2), of env t ups key req g le n] obtain r where
      r: "RoundTrip_iteration env t ups key req g (pk, lr, le, n) = Val r"
        "case r of Inl _ \<Rightarrow> True
         | Inr (pk', lr', le', n') \<Rightarrow> loop_wf pk' lr' \<and> remaining (embedded pk') < remaining (embedded pk)"
      by blast
    with step [OF st(2,3)] show ?thesis by (cases r) (auto simp: st(1))
  qed
  from trip.total_correctness [where I = ?I and m = ?m and s = "(pk, lr, le, n)" and
      Q = "\<lambda>(res, n'). Q res n'", OF this] assms(2-4)
  show ?thesis by auto
qed

end
