(* ===== verification/Round_Trip_Facts.thy ===== *)
theory Round_Trip_Facts
  imports Round_Trip_Loop
begin

text \<open>
  What a round trip over an upstream guarantees: it ends, gives connections back, sends to
  registered backends only, does not repeat a request that may have had an effect, and leaks no
  cancel function.
\<close>

section \<open>From the loop to the round trip\<close>

lemma newPicker_ok:
  assumes "balancer ups = Some bal" and "balancer_wf bal"
  obtains pk where "transport_newPicker (Some ups) req = Some pk" "loop_wf pk None"
    "embedded pk = NewRRPicker (primary (base bal)) (backup (base bal))"
    "remaining (embedded pk) \<le> peer_count bal"
proof -
  note ret = that
  have ok: thesis if "transport_newPicker (Some ups) req = Some pk" "picker_of bal pk"
    "embedded pk = embedded (NewPicker bal)" for pk
    using that NewPicker_remaining [of bal] by (intro ret [of pk]) (simp_all add: loop_wf_def picker_of_def)
  show thesis
    using assms(1) NewPicker_of [OF assms(2)]
    by (cases bal; cases "hashFunc ups")
      (auto simp: transport_newPicker_def NewPickerForIP_def Hash_NewPickerForKey_def
        HashConsistent_NewPickerForKey_def IPHash_NewPicker_def Hash_NewPicker_def
        HashConsistent_NewPicker_def intro!: ok split: if_splits)
qed

text \<open>A closure that only works on streams, as all closures of the package do.\<close>

definition quiet :: "get_body \<Rightarrow> bool" where
  "quiet g \<longleftrightarrow> (\<forall>m. outer (snd (g m)) = outer m)"

definition quiet_opt :: "get_body option \<Rightarrow> bool" where
  "quiet_opt g \<longleftrightarrow> (\<forall>f. g = Some f \<longrightarrow> quiet f)"

definition quiet_request :: "http_Request \<Rightarrow> bool" where
  "quiet_request req \<longleftrightarrow> quiet_opt (GetBody req)"

lemma rewind_quiet: "quiet (rewind i start b)"
  unfolding quiet_def rewind_def
  by (auto split: prod.splits sum.splits dest!: stream_Seek_steady simp: steady_def)

lemma serve_bytes_quiet: "quiet (serve_bytes bs)"
  by (simp add: quiet_def serve_bytes_def bytes_NewReader_def outer_def)

lemma prepareBody_quiet:
  assumes "prepareBody env t req rp n = (Inr (Some g, cl), req', n')" and "quiet_request req"
  shows "quiet g"
proof -
  have "GetBody req = Some g \<or> (\<exists>i s b. g = rewind i s b) \<or> (\<exists>bs. g = serve_bytes bs) \<or> g = (\<lambda>m. (Inr NoBody, m))"
    using assms(1)
    by (auto simp: prepareBody_def prepareSeekable_def prepareBuffered_def prepareSpilledBody_def Let_def
        split: option.splits prod.splits sum.splits if_splits)
  then show ?thesis
    using assms(2) rewind_quiet serve_bytes_quiet by (auto simp: quiet_request_def quiet_opt_def quiet_def)
qed

lemma prepareBody_request:
  assumes "prepareBody env t req rp n = (res, req', n')"
  shows "Method req' = Method req" and "Host req' = Host req" and "URL req' = URL req"
  using assms
  by (auto simp: prepareBody_def prepareSeekable_def prepareBuffered_def prepareSpilledBody_def Let_def
      clamp_length_def split: option.splits prod.splits sum.splits if_splits)

lemma restore_body_quiet:
  assumes "restore_body g req n = (r, n')" and "quiet_opt g"
  shows "outer n' = outer n"
proof (cases g)
  case None
  with assms(1) show ?thesis by (simp add: restore_body_def)
next
  case (Some f)
  then have "outer (snd (f n)) = outer n" using assms(2) by (simp add: quiet_opt_def quiet_def)
  with assms(1) Some show ?thesis
    by (cases "f n") (auto simp: restore_body_def split: sum.splits)
qed

lemma restore_body_request:
  assumes "restore_body g req n = (Inr req', n')"
  shows "Method req' = Method req" and "Host req' = Host req" and "URL req' = URL req"
  using assms by (auto simp: restore_body_def split: option.splits prod.splits sum.splits)

text \<open>The body of the request exists, so that preparing it touches streams only.\<close>

definition sound_request :: "http_Request \<Rightarrow> net \<Rightarrow> bool" where
  "sound_request req n \<longleftrightarrow> quiet_request req \<and> (\<forall>b. Body req = Some b \<longrightarrow> body_exists b n)"

text \<open>
  An invariant of the loop, which may speak of the state \<open>m0\<close> that preparing the body left, gives
  a postcondition of the round trip.
\<close>

lemma RoundTrip_upstream_rule:
  assumes bal: "balancer ups = Some bal" "balancer_wf bal" "peer_count bal < fuel"
    and req: "sound_request req n"
    and step: "\<And>g baseReq pk lr le m cl m0.
      prepareBody env t req (requestBodyMayNeedReplay t (Some ups) req) n = (Inr (g, cl), baseReq, m0) \<Longrightarrow>
      quiet_opt g \<Longrightarrow> loop_wf pk lr \<Longrightarrow> I m0 pk lr le m \<Longrightarrow>
      (case RoundTrip_iteration env t ups key baseReq g (pk, lr, le, m) of
         Val (Inl (res, n')) \<Rightarrow> R m0 res n'
       | Val (Inr (pk', lr', le', n')) \<Rightarrow> I m0 pk' lr' le' n'
       | Panic \<Rightarrow> False)"
    and init: "\<And>g cl baseReq pk m0.
      prepareBody env t req (requestBodyMayNeedReplay t (Some ups) req) n = (Inr (g, cl), baseReq, m0) \<Longrightarrow>
      outer m0 = outer n \<Longrightarrow> loop_wf pk None \<Longrightarrow>
      embedded pk = NewRRPicker (primary (base bal)) (backup (base bal)) \<Longrightarrow> I m0 pk None None m0"
    and err: "\<And>e m req'.
      prepareBody env t req (requestBodyMayNeedReplay t (Some ups) req) n = (Inl e, req', m) \<Longrightarrow>
      outer m = outer n \<Longrightarrow> Q (None, Some e) m"
    and fin: "\<And>g cl baseReq m0 res m.
      prepareBody env t req (requestBodyMayNeedReplay t (Some ups) req) n = (Inr (g, cl), baseReq, m0) \<Longrightarrow>
      R m0 res m \<Longrightarrow> Q res (run_cleanup cl m)"
  shows "\<exists>res n'. RoundTrip_upstream fuel env t ups key req n = Some (Val (res, n')) \<and> Q res n'"
proof -
  obtain pk where pk: "transport_newPicker (Some ups) req = Some pk" "loop_wf pk None"
    "embedded pk = NewRRPicker (primary (base bal)) (backup (base bal))"
    "remaining (embedded pk) \<le> peer_count bal" by (rule newPicker_ok [OF bal(1,2)])
  obtain r baseReq n1 where pr:
    "prepareBody env t req (requestBodyMayNeedReplay t (Some ups) req) n = (r, baseReq, n1)"
    by (metis prod.collapse)
  have o: "outer n1 = outer n"
    using req by (intro prepareBody_outer(1) [OF pr]) (simp add: sound_request_def)
  show ?thesis
  proof (cases r)
    case (Inl e)
    with pk(1) pr err [OF pr [unfolded Inl] o] show ?thesis by (simp add: RoundTrip_upstream_def)
  next
    case (Inr x)
    obtain g cl where x: "x = (g, cl)" by fastforce
    note pr' = pr [unfolded Inr x]
    have q: "quiet_opt g"
      using prepareBody_quiet pr' req by (auto simp: sound_request_def quiet_opt_def)
    have "\<exists>res n'. RoundTrip_loop fuel env t ups key baseReq g (pk, None, None, n1) = Some (Val (res, n')) \<and>
        R n1 res n'"
      by (rule RoundTrip_loop_inv [where I = "I n1", OF step [OF pr' q] pk(2) init [OF pr' o pk(2,3)]])
        (use pk(4) bal(3) in simp_all)
    then obtain res n' where l: "RoundTrip_loop fuel env t ups key baseReq g (pk, None, None, n1) =
        Some (Val (res, n'))" "R n1 res n'" by blast
    with pk(1) pr' fin [OF pr'] show ?thesis by (simp add: RoundTrip_upstream_def)
  qed
qed

text \<open>An invariant that speaks of what is outside the streams only.\<close>

lemma RoundTrip_upstream_inv:
  assumes bal: "balancer ups = Some bal" "balancer_wf bal" "peer_count bal < fuel"
    and req: "sound_request req n"
    and step: "\<And>g baseReq pk lr le m rp cl m0.
      prepareBody env t req rp n = (Inr (g, cl), baseReq, m0) \<Longrightarrow> quiet_opt g \<Longrightarrow> Method baseReq = Method req \<Longrightarrow>
      Host baseReq = Host req \<Longrightarrow> URL baseReq = URL req \<Longrightarrow> loop_wf pk lr \<Longrightarrow> I pk lr le m \<Longrightarrow>
      (case RoundTrip_iteration env t ups key baseReq g (pk, lr, le, m) of
         Val (Inl (res, n')) \<Rightarrow> Q res n'
       | Val (Inr (pk', lr', le', n')) \<Rightarrow> I pk' lr' le' n'
       | Panic \<Rightarrow> False)"
    and init: "\<And>pk m. outer m = outer n \<Longrightarrow> loop_wf pk None \<Longrightarrow>
      embedded pk = NewRRPicker (primary (base bal)) (backup (base bal)) \<Longrightarrow> I pk None None m"
    and err: "\<And>e m rp req'. prepareBody env t req rp n = (Inl e, req', m) \<Longrightarrow> outer m = outer n \<Longrightarrow>
      Q (None, Some e) m"
    and cong: "\<And>res m m'. outer m' = outer m \<Longrightarrow> Q res m \<Longrightarrow> Q res m'"
  shows "\<exists>res n'. RoundTrip_upstream fuel env t ups key req n = Some (Val (res, n')) \<and> Q res n'"
proof (rule RoundTrip_upstream_rule [OF bal req, where I = "\<lambda>_. I" and R = "\<lambda>_. Q"], goal_cases)
  case (1 g baseReq pk lr le m cl m0)
  then show ?case by (intro step [OF 1(1,2) prepareBody_request [OF 1(1)]])
next
  case (4 g cl baseReq m0 res m)
  then show ?case by (intro cong [OF cleanup_forms(1) [OF 4(1)]])
qed (rule init err; assumption)+

section \<open>What an exchange does\<close>

text \<open>The balancers change only while a round tripper runs.\<close>

lemma exchange_cases:
  assumes "exchange env t ups req n resp err wrote n'"
  obtains
    (no_transport) "used_transport t ups = None" "lb n' = lb n" "calls n' = calls n"
      "err = Some (sentinelError ErrNilRoundTripper)" "resp = None"
  | (called) rt m c where "used_transport t ups = Some rt" "lb m = lb n"
      "lb n' = ans_lb (rt_RoundTrip env rt (timed t req) m)" "calls n' = c # calls n"
      "call_rt c = rt" "call_url c = URL req" "call_host c = Host req" "call_method c = Method req"
      "call_wrote c = wrote"
proof -
  let ?m = "n\<lparr>cancels := cancels n + (if 0 < timeout t then 1 else 0)\<rparr>"
  from assms obtain resp0 n1 where
    rt: "roundTrip env (used_transport t ups) (timed t req) ?m = (((resp0, err), wrote), n1)"
    and hc: "handle_cancel (new_cancel t n) resp0 err n1 = Val (resp, n')"
    unfolding exchange_def by blast
  have n': "lb n' = lb n1" "calls n' = calls n1"
    using hc by (auto simp: handle_cancel_def call_cancel_def split: if_splits option.splits)
  have tm: "URL (timed t req) = URL req" "Host (timed t req) = Host req" "Method (timed t req) = Method req"
    by (simp_all add: timed_def traceRequestSent_def)
  show thesis
  proof (cases "used_transport t ups")
    case None
    with rt hc n' show ?thesis
      by (intro no_transport)
        (auto simp: roundTrip_def failRoundTrip_def handle_cancel_def split: option.splits)
  next
    case (Some r)
    let ?a = "rt_RoundTrip env r (timed t req) ?m"
    have "lb n1 = ans_lb ?a" "wrote = ans_wrote ?a" "calls n1 = \<lparr>call_rt = r, call_url = URL req,
        call_host = Host req, call_method = Method req, call_resp = (ans_resp ?a \<noteq> None),
        call_err = ans_err ?a, call_wrote = ans_wrote ?a\<rparr> # calls n"
      using rt Some
      by (auto simp: roundTrip_def call_RoundTripper_def failRoundTrip_def Let_def tm
          split: option.splits if_splits)
    with Some n' show ?thesis
      by (intro called [of r ?m]) auto
  qed
qed

section \<open>Connections\<close>

text \<open>
  The number of connections that other requests hold is the same after an exchange as before;
  everything else in the store may change.
\<close>

definition keeps_conns :: "rt_env \<Rightarrow> bool" where
  "keeps_conns env \<longleftrightarrow>
     (\<forall>rt req n q. conns (heap (ans_lb (rt_RoundTrip env rt req n)) q) = conns (heap (lb n) q))"

definition same_conns :: "world \<Rightarrow> world \<Rightarrow> bool" where
  "same_conns w w' \<longleftrightarrow> (\<forall>q. conns (heap w' q) = conns (heap w q))"

lemma pick_report_conns:
  assumes "pick_spec rr w (Some p) rr1 w1" and "same_conns w1 w2" and "done_spec p rr2 w2 rr3 w3"
    and "conns_in_range w"
  shows "same_conns w w3"
proof -
  have "in_i64 (conns (heap w p))" using assms(4) by (simp add: conns_in_range_def)
  then have "i64 (i64 (conns (heap w p) + 1) - 1) = conns (heap w p)" by (simp add: i64_id)
  with assms(1-3) have "conns (heap w3 q) = conns (heap w q)" for q
    by (cases "q = p") (auto simp: pick_spec_def done_spec_def same_conns_def)
  then show ?thesis by (simp add: same_conns_def)
qed

lemma same_conns_trans: "same_conns w w' \<Longrightarrow> same_conns w' w'' \<Longrightarrow> same_conns w w''"
  by (simp add: same_conns_def)

lemma same_conns_range: "same_conns w w' \<Longrightarrow> conns_in_range w \<Longrightarrow> conns_in_range w'"
  by (simp add: same_conns_def conns_in_range_def)

lemma exchange_conns:
  assumes "exchange env t ups req n resp err wrote n'" and "keeps_conns env"
  shows "same_conns (lb n) (lb n')"
  using assms(1)
proof (cases rule: exchange_cases)
  case (called rt m c)
  with assms(2) show ?thesis by (simp add: same_conns_def keeps_conns_def)
qed (simp add: same_conns_def)

lemma attempt_conns_kept:
  assumes "picker_wf pk" and "rr_wf (embedded pk)" and "quiet_opt g" and "keeps_conns env"
    and "pick_spec rr w (Some p) (embedded pk) (lb n)" and "conns_in_range w"
    and "attempt env t ups key req g pk p addr n = Val (aend, n')"
  shows "same_conns w (lb n')"
proof -
  have *: "same_conns w (lb n')" if "same_conns (lb n) w2" "reported p pk w2 pk' (lb n')" for w2 pk'
    using that by (intro pick_report_conns [OF assms(5) _ _ assms(6)]) (auto simp: reported_def)
  have rb: "lb n1 = lb n" if "restore_body g r n = (x, n1)" for r x n1
    using restore_body_quiet [OF that assms(3)] by (simp add: outer_def)
  from assms(1,2) show ?thesis
  proof (cases rule: attempt_cases [where env = env and t = t and ups = ups and key = key and baseReq = req
        and g = g and p = p and addr = addr and n = n, case_names no_body gone judged])
    case (no_body e n1 pk' n2)
    with assms(7) rb [OF no_body(2)] show ?thesis by (intro *) (auto simp: same_conns_def)
  next
    case (gone req1 n1 resp err wrote n2 e n3 pk' n4)
    with assms(7) rb [OF gone(2)] exchange_conns [OF gone(3) assms(4)] show ?thesis
      by (intro * [of "lb n2" pk']) auto
  next
    case (judged req1 n1 resp err wrote n2 k d aend' pk' n3)
    with assms(7) rb [OF judged(2)] exchange_conns [OF judged(3) assms(4)] show ?thesis
      by (intro * [of "lb n2" pk']) auto
  qed
qed

lemma iteration_conns:
  assumes "loop_wf pk lr" and "quiet_opt g" and "keeps_conns env" and "conns_in_range (lb n)"
  shows "case RoundTrip_iteration env t ups key req g (pk, lr, le, n) of
      Val (Inl (res, n')) \<Rightarrow> same_conns (lb n) (lb n')
    | Val (Inr (pk', lr', le', n')) \<Rightarrow> same_conns (lb n) (lb n')
    | Panic \<Rightarrow> False"
  using assms(1)
proof (cases rule: iteration_cases [where env = env and t = t and ups = ups and key = key and req = req
      and g = g and le = le and n = n, case_names canceled exhausted unknown tried])
  case (canceled e n')
  with closeLast_Val [OF canceled(3)] show ?thesis by (simp add: same_conns_def)
next
  case (exhausted pk' w')
  then show ?thesis by (auto simp: same_conns_def pick_spec_def)
next
  case (unknown p pk1 w1 pk2 n' e)
  have "same_conns (lb n) (lb n')"
    using unknown(4) by (intro pick_report_conns [OF unknown(2) _ _ assms(4), of w1])
      (auto simp: reported_def same_conns_def)
  with unknown(1) show ?thesis by simp
next
  case (tried p pk1 w1 addr n1 aend n2)
  have "same_conns (lb n) (lb n2)"
    using tried by (intro attempt_conns_kept [OF tried(3,4) assms(2,3) _ assms(4) tried(8)]) auto
  with tried(1) show ?thesis by (cases aend) simp_all
qed

lemma RoundTrip_upstream_conns:
  assumes "balancer ups = Some bal" "balancer_wf bal" "peer_count bal < fuel" and "sound_request req n"
    and "keeps_conns env" and "conns_in_range (lb n)"
  shows "\<exists>res n'. RoundTrip_upstream fuel env t ups key req n = Some (Val (res, n')) \<and>
    same_conns (lb n) (lb n')"
proof (rule RoundTrip_upstream_inv [OF assms(1-4), where I = "\<lambda>_ _ _ m. same_conns (lb n) (lb m)"])
  fix g baseReq pk lr le and m :: net
  assume q: "quiet_opt g" and wf: "loop_wf pk lr" and i: "same_conns (lb n) (lb m)"
  from iteration_conns [OF wf q assms(5) same_conns_range [OF i assms(6)], of t ups key baseReq le]
  show "case RoundTrip_iteration env t ups key baseReq g (pk, lr, le, m) of
      Val (Inl (res, n')) \<Rightarrow> same_conns (lb n) (lb n')
    | Val (Inr (pk', lr', le', n')) \<Rightarrow> same_conns (lb n) (lb n')
    | Panic \<Rightarrow> False"
    using same_conns_trans [OF i] by (auto split: outcome.splits sum.splits)
qed (auto simp: same_conns_def outer_def)

section \<open>Where requests go\<close>

text \<open>A call that carries the request to a registered backend through the right transport.\<close>

definition target_call :: "Transport \<Rightarrow> upstream \<Rightarrow> upstreamKey \<Rightarrow> http_Request \<Rightarrow> call \<Rightarrow> bool" where
  "target_call t ups key req c \<longleftrightarrow>
     (\<exists>addr \<in> snd ` set (backends ups).
        call_url c = map_option (redirect addr) (URL req)) \<and>
     call_host c = (if Host req = '''' then key_host key else Host req) \<and>
     call_method c = Method req \<and> Some (call_rt c) = used_transport t ups"

text \<open>A call through a standard transport that wrote nothing.\<close>

definition unwritten :: "call \<Rightarrow> bool" where
  "unwritten c \<longleftrightarrow> \<not> call_wrote c \<and> (\<exists>ht. call_rt c = stdTransport ht)"

definition once_only :: "Transport \<Rightarrow> http_Request \<Rightarrow> bool" where
  "once_only t req \<longleftrightarrow> isNonIdempotentMethod (Method req) \<and> \<not> retryNonIdempotent t"

lemma decide_retry:
  "dec_retry (decideAttempt t req resp err sent) \<longleftrightarrow>
     shouldRetry t resp err \<and> \<not> (sent \<and> isNonIdempotentMethod (Method req) \<and> \<not> retryNonIdempotent t)"
  by (auto simp: decideAttempt_def Let_def split: option.splits)

lemma not_sent:
  assumes "\<not> requestWasSent rt wrote resp err" and "resp \<noteq> None \<or> err \<noteq> None"
  shows "\<not> wrote" and "\<exists>ht. rt = Some (stdTransport ht)"
  using assms by (auto simp: requestWasSent_def split: if_splits option.splits RoundTripper.splits)

lemma exchange_calls:
  assumes "exchange env t ups req1 n resp err wrote n'"
    and "restore_body g (rewrite_request key addr req) n0 = (Inr req1, n)"
    and "map_of (backends ups) p = Some addr"
  shows "\<exists>cs. calls n' = cs @ calls n \<and> length cs \<le> 1 \<and> (\<forall>c \<in> set cs. target_call t ups key req c) \<and>
    (\<not> requestWasSent (used_transport t ups) wrote resp err \<longrightarrow> (\<forall>c \<in> set cs. unwritten c))"
  using assms(1)
proof (cases rule: exchange_cases)
  case no_transport
  then show ?thesis by simp
next
  case (called rt m c)
  have "target_call t ups key req c"
    using called restore_body_request [OF assms(2)] map_of_SomeD [OF assms(3)]
    by (force simp: target_call_def rewrite_request_def)
  moreover have "unwritten c" if "\<not> requestWasSent (used_transport t ups) wrote resp err"
    using not_sent [OF that exchange_body(2) [OF assms(1)]] called by (auto simp: unwritten_def)
  ultimately show ?thesis using called(4) by (intro exI [of _ "[c]"]) auto
qed

lemma attempt_calls:
  assumes "picker_wf pk" and "rr_wf (embedded pk)" and "quiet_opt g" and "map_of (backends ups) p = Some addr"
    and "attempt env t ups key req g pk p addr n = Val (aend, n')"
  shows "\<exists>cs. calls n' = cs @ calls n \<and> length cs \<le> 1 \<and> (\<forall>c \<in> set cs. target_call t ups key req c) \<and>
    (\<forall>resp err pk'. aend = NextPeer resp err pk' \<and> once_only t req \<longrightarrow> (\<forall>c \<in> set cs. unwritten c))"
proof -
  have rb: "calls n1 = calls n" if "restore_body g r n = (x, n1)" for r x n1
    using restore_body_quiet [OF that assms(3)] by (simp add: outer_def)
  from assms(1,2) show ?thesis
  proof (cases rule: attempt_cases [where env = env and t = t and ups = ups and key = key and baseReq = req
        and g = g and p = p and addr = addr and n = n, case_names no_body gone judged])
    case (no_body e n1 pk' n2)
    then have "calls n2 = calls n" using rb [OF no_body(2)] by (metis net.select_convs(8) net.surjective net.update_convs(1))
    with no_body(1) assms(5) show ?thesis by auto
  next
    case (gone req1 n1 resp err wrote n2 e n3 pk' n4)
    have "calls n4 = calls n2" using closeLast_Val(2) [OF gone(8)] gone(9) by simp
    with gone(1) assms(5) exchange_calls [OF gone(3,2) assms(4)] rb [OF gone(2)] show ?thesis by auto
  next
    case (judged req1 n1 resp err wrote n2 k d aend' pk' n3)
    have c: "calls n3 = calls n2" by (subst judged(6)) simp
    have m: "Method (timed t req1) = Method req"
      using restore_body_request(1) [OF judged(2)]
      by (simp add: timed_def traceRequestSent_def rewrite_request_def)
    obtain cs where cs: "calls n2 = cs @ calls n1" "length cs \<le> 1" "\<forall>c \<in> set cs. target_call t ups key req c"
      "\<not> requestWasSent (used_transport t ups) wrote resp err \<longrightarrow> (\<forall>c \<in> set cs. unwritten c)"
      using exchange_calls [OF judged(3,2) assms(4)] by blast
    have "\<not> requestWasSent (used_transport t ups) wrote resp err" if "dec_retry d" "once_only t req"
      using that judged(4) m by (simp add: decide_retry once_only_def)
    with cs c judged(1,5) assms(5) rb [OF judged(2)] show ?thesis
      by (intro exI [of _ cs]) (auto split: if_splits)
  qed
qed

text \<open>
  The calls since \<open>n0\<close>: at most \<open>k\<close>, all of them to the upstream; if the request must be sent
  once only, nothing was written by any of them (\<open>calls_between\<close>) or by any but the newest
  (\<open>calls_after\<close>).
\<close>

definition calls_between :: "Transport \<Rightarrow> upstream \<Rightarrow> upstreamKey \<Rightarrow> http_Request \<Rightarrow> net \<Rightarrow> nat \<Rightarrow> net \<Rightarrow> bool" where
  "calls_between t ups key req n0 k m \<longleftrightarrow>
     (\<exists>cs. calls m = cs @ calls n0 \<and> length cs \<le> k \<and> (\<forall>c \<in> set cs. target_call t ups key req c) \<and>
        (once_only t req \<longrightarrow> (\<forall>c \<in> set cs. unwritten c)))"

definition calls_after :: "Transport \<Rightarrow> upstream \<Rightarrow> upstreamKey \<Rightarrow> http_Request \<Rightarrow> net \<Rightarrow> nat \<Rightarrow> net \<Rightarrow> bool" where
  "calls_after t ups key req n0 k m \<longleftrightarrow>
     (\<exists>cs. calls m = cs @ calls n0 \<and> length cs \<le> k \<and> (\<forall>c \<in> set cs. target_call t ups key req c) \<and>
        (once_only t req \<longrightarrow> (\<forall>c \<in> set (tl cs). unwritten c)))"

lemma set_tl: "set (tl xs) \<subseteq> set xs"
  by (cases xs) auto

lemma between_after:
  "calls_between t ups key req n0 k m \<Longrightarrow> k \<le> k' \<Longrightarrow> calls m' = calls m \<Longrightarrow>
     calls_after t ups key req n0 k' m'"
  unfolding calls_between_def calls_after_def using set_tl by fastforce

lemma calls_after_mono:
  "calls_after t ups key req n0 k m \<Longrightarrow> k \<le> k' \<Longrightarrow> calls_after t ups key req n0 k' m"
  unfolding calls_after_def by (meson le_trans)

lemma calls_step:
  assumes "calls_between t ups key req n0 k m" and "calls m' = cs @ calls m" and "length cs \<le> 1"
    and "\<forall>c \<in> set cs. target_call t ups key req c"
  shows "calls_after t ups key req n0 (Suc k) m'"
    and "once_only t req \<longrightarrow> (\<forall>c \<in> set cs. unwritten c) \<Longrightarrow> calls_between t ups key req n0 (Suc k) m'"
proof -
  obtain ds where ds: "calls m = ds @ calls n0" "length ds \<le> k" "\<forall>c \<in> set ds. target_call t ups key req c"
    "once_only t req \<longrightarrow> (\<forall>c \<in> set ds. unwritten c)"
    using assms(1) by (auto simp: calls_between_def)
  have "set (tl (cs @ ds)) \<subseteq> set ds" using assms(3) set_tl [of ds] by (cases cs) auto
  with ds assms(2-4) show "calls_after t ups key req n0 (Suc k) m'"
    unfolding calls_after_def by (intro exI [of _ "cs @ ds"]) auto
  show "calls_between t ups key req n0 (Suc k) m'" if "once_only t req \<longrightarrow> (\<forall>c \<in> set cs. unwritten c)"
    unfolding calls_between_def using ds assms(2-4) that by (intro exI [of _ "cs @ ds"]) auto
qed

lemma target_call_cong:
  "Method req = Method req' \<Longrightarrow> Host req = Host req' \<Longrightarrow> URL req = URL req' \<Longrightarrow> target_call t ups key req = target_call t ups key req'"
  "Method req = Method req' \<Longrightarrow> once_only t req = once_only t req'"
  by (simp_all add: target_call_def once_only_def fun_eq_iff)

lemma iteration_calls:
  assumes "loop_wf pk lr" and "quiet_opt g" and "calls_between t ups key req n0 k n"
    and "k + remaining (embedded pk) \<le> K"
  shows "case RoundTrip_iteration env t ups key req g (pk, lr, le, n) of
      Val (Inl (res, n')) \<Rightarrow> calls_after t ups key req n0 K n'
    | Val (Inr (pk', lr', le', n')) \<Rightarrow>
        \<exists>k'. calls_between t ups key req n0 k' n' \<and> k' + remaining (embedded pk') \<le> K
    | Panic \<Rightarrow> False"
  using assms(1)
proof (cases rule: iteration_cases [where env = env and t = t and ups = ups and key = key and req = req
      and g = g and le = le and n = n, case_names canceled exhausted unknown tried])
  case (canceled e n')
  with closeLast_Val(2) [OF canceled(3)] between_after [OF assms(3)] assms(4) show ?thesis by simp
next
  case (exhausted pk' w')
  with between_after [OF assms(3)] assms(4) show ?thesis by simp
next
  case (unknown p pk1 w1 pk2 n' e)
  with closeLast_Val(2) [OF unknown(5)] between_after [OF assms(3)] assms(4) show ?thesis by simp
next
  case (tried p pk1 w1 addr n1 aend n2)
  have n1: "calls n1 = calls n" using closeLast_Val(2) [OF tried(7)] by simp
  obtain cs where cs: "calls n2 = cs @ calls n1" "length cs \<le> 1" "\<forall>c \<in> set cs. target_call t ups key req c"
    "\<forall>resp err pk'. aend = NextPeer resp err pk' \<and> once_only t req \<longrightarrow> (\<forall>c \<in> set cs. unwritten c)"
    using attempt_calls [OF tried(3,4) assms(2) tried(6,8)] by blast
  note st = calls_step [OF assms(3) cs(1) [unfolded n1] cs(2,3)]
  show ?thesis
  proof (cases aend)
    case (Finished resp err)
    have "calls_after t ups key req n0 K n2"
      by (rule calls_after_mono [OF st(1)]) (use tried(5) assms(4) in linarith)
    with Finished tried(1) show ?thesis by simp
  next
    case (NextPeer resp err pk')
    have "remaining (embedded pk') = remaining (embedded pk1)"
      using attempt_next(2) [OF tried(3,4)] tried(8) NextPeer by blast
    then have "Suc k + remaining (embedded pk') \<le> K" using tried(5) assms(4) by simp
    moreover have "calls_between t ups key req n0 (Suc k) n2" using st(2) cs(4) NextPeer by blast
    ultimately show ?thesis using NextPeer tried(1) by auto
  qed
qed

lemma RoundTrip_upstream_calls:
  assumes "balancer ups = Some bal" "balancer_wf bal" "peer_count bal < fuel" and "sound_request req n"
  shows "\<exists>res n'. RoundTrip_upstream fuel env t ups key req n = Some (Val (res, n')) \<and>
    calls_after t ups key req n (peer_count bal) n'"
proof (rule RoundTrip_upstream_inv [OF assms, where I = "\<lambda>pk _ _ m. \<exists>k. calls_between t ups key req n k m \<and>
      k + remaining (embedded pk) \<le> peer_count bal"])
  fix g pk lr le and baseReq :: http_Request and m :: net
  assume q: "quiet_opt g" and wf: "loop_wf pk lr" and r: "Method baseReq = Method req" "Host baseReq = Host req" "URL baseReq = URL req"
    and i: "\<exists>k. calls_between t ups key req n k m \<and> k + remaining (embedded pk) \<le> peer_count bal"
  have eq: "calls_between t ups key baseReq = calls_between t ups key req"
    "calls_after t ups key baseReq = calls_after t ups key req"
    unfolding calls_between_def calls_after_def fun_eq_iff
    using target_call_cong(1) [OF r] target_call_cong(2) [OF r(1)] by simp_all
  from i iteration_calls [OF wf q, of t ups key baseReq n _ m "peer_count bal" env le, unfolded eq]
  show "case RoundTrip_iteration env t ups key baseReq g (pk, lr, le, m) of
      Val (Inl (res, n')) \<Rightarrow> calls_after t ups key req n (peer_count bal) n'
    | Val (Inr (pk', lr', le', n')) \<Rightarrow> \<exists>k. calls_between t ups key req n k n' \<and>
        k + remaining (embedded pk') \<le> peer_count bal
    | Panic \<Rightarrow> False" by blast
next
  fix pk and m :: net
  assume o: "outer m = outer n" and e: "embedded pk = NewRRPicker (primary (base bal)) (backup (base bal))"
  show "\<exists>k. calls_between t ups key req n k m \<and> k + remaining (embedded pk) \<le> peer_count bal"
    using o e NewPicker_remaining [of bal] by (intro exI [of _ 0]) (simp add: calls_between_def outer_def)
qed (auto simp: calls_after_def outer_def)

section \<open>Cancel functions\<close>

text \<open>
  Every cancel function made since the \<open>c0\<close>-th was called, or closing the given response
  calls it.
\<close>

definition owned :: "http_Response option \<Rightarrow> nat \<Rightarrow> bool" where
  "owned r c \<longleftrightarrow> (\<exists>x b. r = Some x \<and> resp_Body x = Some (cancelCloser b c))"

definition settled :: "nat \<Rightarrow> http_Response option \<Rightarrow> net \<Rightarrow> bool" where
  "settled c0 r n \<longleftrightarrow> (\<forall>c. c0 \<le> c \<and> c < cancels n \<longrightarrow> c \<in> set (canceled n) \<or> owned r c)"

lemma respBody_Close_canceled: "set (canceled n) \<subseteq> set (canceled (respBody_Close b n))"
proof (induction b arbitrary: n)
  case (cancelCloser b c)
  from cancelCloser.IH [of "n\<lparr>canceled := c # canceled n\<rparr>"] show ?case by auto
qed simp

lemma closeLast_settled:
  assumes "settled c0 r n" and "closeLast r n = Val n'"
  shows "settled c0 None n'"
proof (cases r)
  case None
  with assms show ?thesis by (simp add: closeLast_def)
next
  case (Some x)
  with assms(2) obtain b where b: "resp_Body x = Some b" "n' = respBody_Close b n"
    by (auto simp: closeLast_def resp_Close_def split: option.splits)
  have "c \<in> set (canceled n')" if "owned r c" for c
    using that Some b respBody_Close_canceled by (fastforce simp: owned_def)
  with assms(1) b respBody_Close_canceled [of n b] show ?thesis by (auto simp: settled_def)
qed

lemma settled_frame:
  "settled c0 r n \<Longrightarrow> cancels n' = cancels n \<Longrightarrow> canceled n' = canceled n \<Longrightarrow> settled c0 r n'"
  by (simp add: settled_def)

lemma roundTrip_cancels:
  "roundTrip env rt req n = (res, n') \<Longrightarrow> cancels n' = cancels n \<and> canceled n' = canceled n"
  by (auto simp: roundTrip_def failRoundTrip_def call_RoundTripper_def Let_def
      split: option.splits if_splits)

lemma exchange_settled:
  assumes "exchange env t ups req n resp err wrote n'" and "settled c0 None n"
  shows "settled c0 resp n'"
proof -
  let ?m = "n\<lparr>cancels := cancels n + (if 0 < timeout t then 1 else 0)\<rparr>"
  from assms obtain resp0 n1 where
    rt: "roundTrip env (used_transport t ups) (timed t req) ?m = (((resp0, err), wrote), n1)"
    and hc: "handle_cancel (new_cancel t n) resp0 err n1 = Val (resp, n')"
    unfolding exchange_def by blast
  have n1: "cancels n1 = cancels n + (if 0 < timeout t then 1 else 0)" "canceled n1 = canceled n"
    using roundTrip_cancels [OF rt] by simp_all
  have sub: "cancels n' = cancels n1" "set (canceled n) \<subseteq> set (canceled n')"
    using hc n1(2) by (auto simp: handle_cancel_def call_cancel_def split: if_splits option.splits)
  have new: "cancels n \<in> set (canceled n') \<or> owned resp (cancels n)" if "0 < timeout t"
    using that hc roundTrip_answer(1) [OF rt]
    by (auto simp: handle_cancel_def call_cancel_def new_cancel_def owned_def has_body_def
        split: if_splits option.splits)
  have "c < cancels n \<or> 0 < timeout t \<and> c = cancels n" if "c < cancels n'" for c
    using that sub(1) n1(1) by (auto split: if_splits)
  moreover have "c \<in> set (canceled n')" if "c0 \<le> c" "c < cancels n" for c
    using that assms(2) sub(2) by (auto simp: settled_def owned_def)
  ultimately show ?thesis using new unfolding settled_def by blast
qed

lemma attempt_settled:
  assumes "picker_wf pk" and "rr_wf (embedded pk)" and "quiet_opt g" and "settled c0 None n"
    and "attempt env t ups key req g pk p addr n = Val (aend, n')"
  shows "settled c0 (case aend of Finished resp err \<Rightarrow> resp | NextPeer resp err pk' \<Rightarrow> resp) n'"
proof -
  have rb: "settled c0 None n1" if "restore_body g r n = (x, n1)" for r x n1
    using restore_body_quiet [OF that assms(3)] assms(4) by (simp add: outer_def settled_def)
  from assms(1,2) show ?thesis
  proof (cases rule: attempt_cases [where env = env and t = t and ups = ups and key = key and baseReq = req
        and g = g and p = p and addr = addr and n = n, case_names no_body gone judged])
    case (no_body e n1 pk' n2)
    have "settled c0 None n2" by (subst no_body(3)) (use rb [OF no_body(2)] in \<open>simp add: settled_def\<close>)
    with no_body(1) assms(5) show ?thesis by auto
  next
    case (gone req1 n1 resp err wrote n2 e n3 pk' n4)
    have "settled c0 resp (n2\<lparr>ctx_reads := Suc (ctx_reads n2), lb := lb n4\<rparr>)"
      using exchange_settled [OF gone(3) rb [OF gone(2)]] by (simp add: settled_def)
    from closeLast_settled [OF this gone(8)] gone(1,9) assms(5) show ?thesis
      by (auto simp: settled_def)
  next
    case (judged req1 n1 resp err wrote n2 k d aend' pk' n3)
    have "settled c0 resp n3"
      by (subst judged(6)) (use exchange_settled [OF judged(3) rb [OF judged(2)]] in \<open>simp add: settled_def\<close>)
    with judged(1,5) assms(5) show ?thesis by (auto split: if_splits)
  qed
qed

lemma iteration_settled:
  assumes "loop_wf pk lr" and "quiet_opt g" and "settled c0 lr n"
  shows "case RoundTrip_iteration env t ups key req g (pk, lr, le, n) of
      Val (Inl (res, n')) \<Rightarrow> settled c0 (fst res) n'
    | Val (Inr (pk', lr', le', n')) \<Rightarrow> settled c0 lr' n'
    | Panic \<Rightarrow> False"
  using assms(1)
proof (cases rule: iteration_cases [where env = env and t = t and ups = ups and key = key and req = req
      and g = g and le = le and n = n, case_names canceled exhausted unknown tried])
  case (canceled e n')
  with closeLast_settled [OF settled_frame [OF assms(3)] canceled(3)] show ?thesis by simp
next
  case (exhausted pk' w')
  with assms(3) show ?thesis by (auto simp: settled_def owned_def)
next
  case (unknown p pk1 w1 pk2 n' e)
  with closeLast_settled [OF settled_frame [OF assms(3)] unknown(5)] show ?thesis by simp
next
  case (tried p pk1 w1 addr n1 aend n2)
  have "settled c0 None n1" using closeLast_settled [OF settled_frame [OF assms(3)] tried(7)] by simp
  from attempt_settled [OF tried(3,4) assms(2) this tried(8)] tried(1) show ?thesis
    by (cases aend) simp_all
qed

lemma RoundTrip_upstream_settled:
  assumes "balancer ups = Some bal" "balancer_wf bal" "peer_count bal < fuel" and "sound_request req n"
  shows "\<exists>res n'. RoundTrip_upstream fuel env t ups key req n = Some (Val (res, n')) \<and>
    settled (cancels n) (fst res) n'"
  by (rule RoundTrip_upstream_inv [OF assms, where I = "\<lambda>_ lr _ m. settled (cancels n) lr m"])
    (use iteration_settled in \<open>auto simp: outer_def settled_def\<close>)

section \<open>A working server is found\<close>

definition keeps_settings :: "rt_env \<Rightarrow> bool" where
  "keeps_settings env \<longleftrightarrow>
     (\<forall>rt req n q. settings (heap (ans_lb (rt_RoundTrip env rt req n)) q) = settings (heap (lb n) q))"

text \<open>The server at an address answers every request with a response that has a body.\<close>

definition answers_at :: "rt_env \<Rightarrow> backendAddr \<Rightarrow> bool" where
  "answers_at env addr \<longleftrightarrow>
     (\<forall>rt req n u. URL req = Some (redirect addr u) \<longrightarrow>
        (\<exists>r b. ans_resp (rt_RoundTrip env rt req n) = Some r \<and> resp_Body r = Some b) \<and>
        ans_err (rt_RoundTrip env rt req n) = None)"

text \<open>A request without a body, or whose body can be had again at any time.\<close>

definition repeatable :: "http_Request \<Rightarrow> bool" where
  "repeatable req \<longleftrightarrow>
     (case GetBody req of None \<Rightarrow> Body req = None | Some g \<Rightarrow> \<forall>m. \<exists>b. fst (g m) = Inr b)"

lemma repeatable_prepare:
  assumes "repeatable req" and "prepareBody env t req rp n = (res, req', m)"
  shows "\<exists>g cl. res = Inr (g, cl) \<and> (\<forall>r k. \<exists>r' k'. restore_body g r k = (Inr r', k'))"
proof -
  have "\<exists>cl. res = Inr (GetBody req, cl)"
    using assms by (auto simp: repeatable_def prepareBody_def split: option.splits)
  moreover have "\<exists>r' k'. restore_body (GetBody req) r k = (Inr r', k')" for r k
  proof (cases "GetBody req")
    case None
    then show ?thesis by (simp add: restore_body_def)
  next
    case (Some f)
    then obtain b where "fst (f k) = Inr b" using assms(1) by (auto simp: repeatable_def)
    with Some show ?thesis by (cases "f k") (simp add: restore_body_def)
  qed
  ultimately show ?thesis by blast
qed

lemma exchange_settings:
  assumes "exchange env t ups req n resp err wrote n'" and "keeps_settings env"
  shows "settings (heap (lb n') q) = settings (heap (lb n) q)"
  using assms(1)
proof (cases rule: exchange_cases)
  case (called rt m c)
  with assms(2) show ?thesis by (simp add: keeps_settings_def)
qed simp

lemma exchange_success:
  assumes "exchange env t ups req n resp err wrote n'" and "used_transport t ups = Some rt"
    and "answers_at env addr" and "URL req = Some (redirect addr u)"
  shows "err = None"
proof -
  let ?m = "n\<lparr>cancels := cancels n + (if 0 < timeout t then 1 else 0)\<rparr>"
  from assms(1) obtain resp0 n1 where
    "roundTrip env (Some rt) (timed t req) ?m = (((resp0, err), wrote), n1)"
    unfolding exchange_def assms(2) by blast
  moreover have "URL (timed t req) = URL req" by (simp add: timed_def traceRequestSent_def)
  then obtain r b where "ans_resp (rt_RoundTrip env rt (timed t req) ?m) = Some r" "resp_Body r = Some b"
    "ans_err (rt_RoundTrip env rt (timed t req) ?m) = None"
    using assms(3,4) unfolding answers_at_def by metis
  ultimately show ?thesis by (auto simp: roundTrip_def call_RoundTripper_def Let_def split: if_splits)
qed

text \<open>Under the default condition an attempt succeeds or goes on to the next server.\<close>

lemma attempt_goes_on:
  assumes wf: "picker_wf pk" "rr_wf (embedded pk)" and g: "quiet_opt g"
    and rb: "\<And>r k. \<exists>r' k'. restore_body g r k = (Inr r', k')"
    and env: "\<And>k. ctx_Err env k = None" "keeps_settings env"
    and t: "nextUpstream t = None" "\<not> once_only t req" and u: "URL req \<noteq> None"
    and att: "attempt env t ups key req g pk p addr n = Val (aend, n')"
  obtains (success) r where "aend = Finished (Some r) None"
  | (failure) resp err pk' w where "aend = NextPeer resp err pk'" "reported p pk w pk' (lb n')"
    "\<And>q. settings (heap w q) = settings (heap (lb n) q)"
    "\<And>rt. used_transport t ups = Some rt \<Longrightarrow> \<not> answers_at env addr"
  using wf
proof (cases rule: attempt_cases [where env = env and t = t and ups = ups and key = key and baseReq = req
      and g = g and p = p and addr = addr and n = n, case_names no_body gone judged])
  case (no_body e n1 pk' n2)
  with rb show ?thesis by (metis Inl_Inr_False Pair_inject)
next
  case (gone req1 n1 resp err wrote n2 e n3 pk' n4)
  with env(1) show ?thesis by simp
next
  case (judged req1 n1 resp err wrote n2 k d aend' pk' n3)
  have eq: "aend' = aend" "n3 = n'" using judged(1) att by simp_all
  show ?thesis
  proof (cases err)
    case None
    with exchange_body(2) [OF judged(3)] obtain r where "resp = Some r" by auto
    moreover have "\<not> dec_retry d" using None t(1) judged(4) by (simp add: decide_retry shouldRetry_def)
    ultimately show ?thesis using None judged(5) eq(1) success by simp
  next
    case (Some x)
    obtain u' where "URL req = Some u'" using u by auto
    then have "Method (timed t req1) = Method req" and url: "URL req1 = Some (redirect addr u')"
      using restore_body_request [OF judged(2)]
      by (simp_all add: timed_def traceRequestSent_def rewrite_request_def)
    with Some t judged(4) have "dec_retry d" by (auto simp: decide_retry shouldRetry_def once_only_def)
    moreover have "\<not> answers_at env addr" if "used_transport t ups = Some rt" for rt
      using exchange_success [OF judged(3) that _ url] Some by auto
    moreover have "settings (heap (lb n2) q) = settings (heap (lb n) q)" for q
      using exchange_settings [OF judged(3) env(2)] restore_body_quiet [OF judged(2) g]
      by (simp add: outer_def)
    ultimately show ?thesis using judged(5,7) eq failure by auto
  qed
qed

text \<open>As long as a server that is always ready was not tried, the loop cannot end without success.\<close>

definition waiting :: "peer_id \<Rightarrow> Peer \<Rightarrow> Picker \<Rightarrow> net \<Rightarrow> bool" where
  "waiting p q pk n \<longleftrightarrow>
     p \<in> considered (embedded pk) \<and> \<not> tried (embedded pk) p \<and> settings (heap (lb n) p) = settings q"

lemma waiting_step:
  assumes "waiting p q pk n" and "always_ready q" and "pick_spec (embedded pk) (lb n) (Some x) (embedded pk1) w1"
    and "x \<noteq> p" and "settings (heap w2 p) = settings (heap w1 p)" and "reported x pk1 w2 pk2 (lb n2)"
  shows "waiting p q pk2 n2"
proof -
  have rdy: "always_ready (heap (lb n) p)"
    using assms(1,2) always_ready_cong [of "heap (lb n) p" q] by (simp add: waiting_def)
  from ready_pick_some [OF assms(3) rdy] assms(1,4) have c: "p \<in> considered (embedded pk1)" "\<not> tried (embedded pk1) p"
    by (simp_all add: waiting_def)
  have ds: "done_spec x (embedded pk1) w2 (embedded pk2) (lb n2)" using assms(6) by (simp add: reported_def)
  have "settings (heap w1 p) = settings (heap (lb n) p)"
    using assms(3) by (simp add: pick_spec_def pick_frame_def)
  with assms(1,4,5) ds c show ?thesis
    by (auto simp: waiting_def done_spec_def considered_def backup_peers_def)
qed

lemma iteration_finds:
  assumes wf: "loop_wf pk lr" and g: "quiet_opt g"
    and rb: "\<And>r k. \<exists>r' k'. restore_body g r k = (Inr r', k')"
    and env: "\<And>k. ctx_Err env k = None" "keeps_settings env"
    and t: "nextUpstream t = None" "\<not> once_only t req" "used_transport t ups = Some rt"
    and u: "URL req \<noteq> None"
    and known: "\<And>x. x \<in> pool (embedded pk) \<Longrightarrow> map_of (backends ups) x \<noteq> None"
    and addr: "map_of (backends ups) p = Some addr" "answers_at env addr"
    and w: "waiting p q pk n" "always_ready q"
  shows "case RoundTrip_iteration env t ups key req g (pk, lr, le, n) of
      Val (Inl (res, n')) \<Rightarrow> \<exists>r. res = (Some r, None)
    | Val (Inr (pk', lr', le', n')) \<Rightarrow> waiting p q pk' n' \<and> pool (embedded pk') = pool (embedded pk)
    | Panic \<Rightarrow> False"
  using wf
proof (cases rule: iteration_cases [where env = env and t = t and ups = ups and key = key and req = req
      and g = g and le = le and n = n, case_names canceled exhausted unknown tried])
  case (canceled e n')
  with env(1) show ?thesis by simp
next
  case (exhausted pk' w')
  have "always_ready (heap (lb n) p)"
    using w always_ready_cong [of "heap (lb n) p" q] by (simp add: waiting_def)
  with ready_pick_none [OF exhausted(2), of p] w(1) show ?thesis by (simp add: waiting_def)
next
  case (unknown x pk1 w1 pk2 n' e)
  have "x \<in> pool (embedded pk)"
    using unknown(2) by (simp add: pick_spec_def)
  with known unknown(3) show ?thesis by blast
next
  case (tried x pk1 w1 a n1 aend n2)
  from tried(3,4) g rb env t(1,2) u tried(8) show ?thesis
  proof (cases rule: attempt_goes_on [case_names success failure])
    case (success r)
    with tried(1) show ?thesis by simp
  next
    case (failure resp err pk' w2)
    have "x \<noteq> p" using failure(4) [OF t(3)] addr tried(6) by auto
    moreover have "settings (heap w2 p) = settings (heap w1 p)" using failure(3) tried(10) by simp
    ultimately have "waiting p q pk' n2" by (intro waiting_step [OF w tried(2) _ _ failure(2)])
    moreover have "pool (embedded pk') = pool (embedded pk)"
      using tried(2) failure(2) by (auto simp: pick_spec_def reported_def done_spec_def pool_def backup_peers_def)
    ultimately show ?thesis using failure(1) tried(1) by simp
  qed
qed

lemma RoundTrip_upstream_finds:
  assumes bal: "balancer ups = Some bal" "balancer_wf bal" "peer_count bal < fuel"
    and req: "sound_request req n" "repeatable req"
    and env: "\<And>k. ctx_Err env k = None" "keeps_settings env"
    and t: "nextUpstream t = None" "\<not> once_only t req" "used_transport t ups = Some rt"
    and u: "URL req \<noteq> None"
    and known: "balancer_peers bal = fst ` set (backends ups)"
    and p: "p \<in> balancer_peers bal" "always_ready (heap (lb n) p)"
    and addr: "map_of (backends ups) p = Some addr" "answers_at env addr"
  shows "\<exists>r n'. RoundTrip_upstream fuel env t ups key req n = Some (Val ((Some r, None), n'))"
proof -
  let ?I = "\<lambda>pk m. waiting p (heap (lb n) p) pk m \<and> pool (embedded pk) = balancer_peers bal"
  have "\<exists>res n'. RoundTrip_upstream fuel env t ups key req n = Some (Val (res, n')) \<and> (\<exists>r. res = (Some r, None))"
  proof (rule RoundTrip_upstream_inv [OF bal req(1), where I = "\<lambda>pk _ _ m. ?I pk m"])
    fix g pk lr le rp cl and baseReq :: http_Request and m m0 :: net
    assume pr: "prepareBody env t req rp n = (Inr (g, cl), baseReq, m0)" and q: "quiet_opt g"
      and wf: "loop_wf pk lr" and r: "Method baseReq = Method req" "URL baseReq = URL req" and i: "?I pk m"
    have rb: "\<exists>r' k'. restore_body g r k = (Inr r', k')" for r k
      using repeatable_prepare [OF req(2) pr] by auto
    have o: "\<not> once_only t baseReq" "URL baseReq \<noteq> None" using t(2) u r by (simp_all add: once_only_def)
    have kn: "map_of (backends ups) x \<noteq> None" if "x \<in> pool (embedded pk)" for x
      using that i known by (simp add: map_of_eq_None_iff)
    from iteration_finds [OF wf q rb env t(1) o(1) t(3) o(2) kn addr conjunct1 [OF i] p(2), of key le] i
    show "case RoundTrip_iteration env t ups key baseReq g (pk, lr, le, m) of
        Val (Inl (res, n')) \<Rightarrow> \<exists>r. res = (Some r, None)
      | Val (Inr (pk', lr', le', n')) \<Rightarrow> ?I pk' n'
      | Panic \<Rightarrow> False"
      by (auto split: outcome.splits sum.splits)
  next
    fix pk and m :: net
    assume o: "outer m = outer n" and e: "embedded pk = NewRRPicker (primary (base bal)) (backup (base bal))"
    then have e: "embedded pk = embedded (NewPicker bal)" by simp
    have "p \<in> considered (embedded pk)" "\<not> tried (embedded pk) p"
      using p(1) NewPicker_considers(1) [of p bal] NewPicker_considers(2) [of bal p]
      unfolding e balancer_peers_def by blast+
    then show "?I pk m" using o e by (simp add: waiting_def outer_def balancer_peers_def)
  next
    fix e m rp req'
    assume "prepareBody env t req rp n = (Inl e, req', m)"
    with repeatable_prepare [OF req(2)] show "\<exists>r. (None, Some e) = (Some r, None)" by blast
  qed auto
  then show ?thesis by blast
qed

section \<open>The round trip of a transport\<close>

text \<open>A request that passes the checks and belongs to an upstream.\<close>

definition matched :: "rt_env \<Rightarrow> Transport \<Rightarrow> http_Request \<Rightarrow> net \<Rightarrow> upstreamKey \<Rightarrow> upstream \<Rightarrow> bool" where
  "matched env t req n key ups \<longleftrightarrow>
     initErr t = None \<and> transport t \<noteq> None \<and> ctx_Err env (ctx_reads n) = None \<and>
     map_option key_of (URL req) = Some key \<and> map_of (upstreams t) key = Some ups"

lemma RoundTrip_matched:
  "matched env t req n key ups \<Longrightarrow>
     RoundTrip fuel env (Some t) (Some req) n = RoundTrip_upstream fuel env t ups key req (asked n)"
  by (auto simp: matched_def RoundTrip_def Context_Err_def key_of_def)

lemma sound_asked [simp]: "sound_request req (asked n) = sound_request req n"
  by (simp add: sound_request_def body_exists_def)

text \<open>A balancer has as many servers as the upstream has backends, at most.\<close>

lemma peer_count_backends:
  assumes "balancer_wf bal" and "balancer_peers bal = fst ` set (backends ups)"
  shows "peer_count bal \<le> length (backends ups)"
proof -
  let ?P = "Peers (primary (base bal))" and ?B = "backup_peers (embedded (NewPicker bal))"
  have "distinct ?P" "distinct ?B" "set ?P \<inter> set ?B = {}"
    using assms(1) by (cases "backup (base bal)"; simp add: balancer_wf_def groups_wf_def backup_peers_def
        NewRRPicker_def)+
  then have "peer_count bal = card (balancer_peers bal)"
    by (simp add: peer_count_def balancer_peers_def pool_def card_Un_disjoint distinct_card NewRRPicker_def
        backup_peers_def split: option.splits)
  also have "\<dots> \<le> length (backends ups)"
    unfolding assms(2) using card_length [of "map fst (backends ups)"] by simp
  finally show ?thesis .
qed

lemma RoundTrip_upstream_returns:
  assumes "balancer ups = Some bal" "balancer_wf bal" "peer_count bal < fuel"
  shows "\<exists>res n'. RoundTrip_upstream fuel env t ups key req n = Some (Val (res, n'))"
proof -
  obtain pk where pk: "transport_newPicker (Some ups) req = Some pk" "loop_wf pk None"
    "remaining (embedded pk) \<le> peer_count bal" using newPicker_ok [OF assms(1,2)] by metis
  have "\<exists>res n'. RoundTrip_loop fuel env t ups key baseReq g (pk, None, None, m) = Some (Val (res, n')) \<and> True"
    for baseReq g m
  proof (rule RoundTrip_loop_inv [where I = "\<lambda>_ _ _ _. True", OF _ pk(2)])
    fix pk lr le n
    assume "loop_wf pk lr"
    from iteration_returns [OF this, of env t ups key baseReq g le n]
    show "case RoundTrip_iteration env t ups key baseReq g (pk, lr, le, n) of
        Val (Inl (res, n')) \<Rightarrow> True | Val (Inr (pk', lr', le', n')) \<Rightarrow> True | Panic \<Rightarrow> False"
      by (auto split: sum.split)
  qed (use pk(3) assms(3) in simp_all)
  then have l: "\<exists>res n'. RoundTrip_loop fuel env t ups key baseReq g (pk, None, None, m) = Some (Val (res, n'))"
    for baseReq g m by blast
  obtain r baseReq n1 where
    pr: "prepareBody env t req (requestBodyMayNeedReplay t (Some ups) req) n = (r, baseReq, n1)"
    by (metis prod.collapse)
  show ?thesis
  proof (cases r)
    case (Inl e)
    with pk(1) pr show ?thesis by (simp add: RoundTrip_upstream_def)
  next
    case (Inr x)
    obtain g cl where x: "x = (g, cl)" by fastforce
    from l [of baseReq g n1] pk(1) pr Inr x show ?thesis by (auto simp: RoundTrip_upstream_def)
  qed
qed

text \<open>More fuel does not change what a round trip does.\<close>

lemma RoundTrip_more_fuel:
  assumes "RoundTrip fuel env tr rq n = Some x" and "fuel \<le> fuel'"
  shows "RoundTrip fuel' env tr rq n = Some x"
proof -
  have "RoundTrip_upstream fuel' env t ups key req m = Some y"
    if "RoundTrip_upstream fuel env t ups key req m = Some y" for t ups key req m y
    using that trip.more_fuel [OF _ assms(2)]
    by (auto simp: RoundTrip_upstream_def split: option.splits prod.splits sum.splits outcome.splits)
  with assms(1) show ?thesis
    by (auto simp: RoundTrip_def Let_def split: option.splits prod.splits if_splits)
qed

lemma RoundTrip_returns_if:
  assumes "\<And>key ups. map_of (upstreams t) key = Some ups \<Longrightarrow>
      \<exists>bal. balancer ups = Some bal \<and> balancer_wf bal \<and> peer_count bal < fuel"
  shows "\<exists>res n'. RoundTrip fuel env (Some t) rq n = Some (Val (res, n'))"
proof (cases "\<exists>req key ups. rq = Some req \<and> matched env t req n key ups")
  case True
  then obtain req key ups where m: "rq = Some req" "matched env t req n key ups" by blast
  with assms [of key ups] RoundTrip_upstream_returns [of ups] show ?thesis
    by (auto simp: RoundTrip_matched [OF m(2)] matched_def)
next
  case False
  then show ?thesis
    by (cases rq; cases "URL (the rq)"; cases "ctx_Err env (ctx_reads n)")
      (auto simp: RoundTrip_def failRoundTrip_def Context_Err_def matched_def key_of_def Let_def
        split: prod.splits option.splits)
qed

end
