(* ===== verification/Transport_Sample.thy ===== *)
theory Transport_Sample
  imports Sample Round_Trip_Facts
begin

text \<open>
  A sample transport, built by the package's own constructor from one upstream with two
  servers, and sample surroundings: an idle store, a network in which the first server cannot
  be reached and the second one answers, and a request.
\<close>

section \<open>A transport\<close>

definition sample_build :: build where
  "sample_build =
     \<lparr>bld = \<lparr>heap = (\<lambda>_. zero_Peer), clock = (\<lambda>k. 1000000000000 + 1000000 * int k), ticks = 0, draws = 0\<rparr>,
      next_peer = 0\<rparr>"

definition sample_rand :: "nat \<Rightarrow> int \<Rightarrow> int" where
  "sample_rand _ _ = 0"

definition sample_upstream :: UpstreamConfig where
  "sample_upstream =
     Upstream ''http://api.test''
       [Server ''a:80'' [Some (MaxFails_option 0)], Server ''https://b:443'' [Some (MaxFails_option 0)]]"

definition sample_options :: "TransportOption option list" where
  "sample_options = [Some (WithTimeout 5), Some (WithUpstreams sample_rand [sample_upstream])]"

definition sample_transport :: Transport where
  "sample_transport =
     (case NewTransportE sample_options sample_build of
        Panic \<Rightarrow> empty_Transport
      | Val ((t, _), _) \<Rightarrow> t)"

definition sample_built :: build where
  "sample_built =
     (case NewTransportE sample_options sample_build of
        Panic \<Rightarrow> sample_build
      | Val (_, b) \<Rightarrow> b)"

definition sample_key :: upstreamKey where
  "sample_key = \<lparr>key_scheme = ''http'', key_host = ''api.test''\<rparr>"

lemma sample_moderate: "moderate sample_upstream"
  by code_simp

lemma sample_package: "\<forall>opt. Some opt \<in> set sample_options \<longrightarrow> package_option moderate sample_rand opt"
  using sample_moderate by (auto simp: sample_options_def intro: package_option.intros)

lemma sample_idle: "idle_store (heap (bld sample_build))"
  by (simp add: idle_store_def sample_build_def zero_Peer_def)

lemma sample_NewTransportE:
  "NewTransportE sample_options sample_build =
     Val ((sample_transport, initErr sample_transport), sample_built)"
  using NewTransportE_inv [OF sample_package sample_idle]
  by (auto simp: sample_transport_def sample_built_def)

lemma sample_no_error: "initErr sample_transport = None"
  by code_simp

lemma sample_has_transport: "(case transport sample_transport of Some (stdTransport _) \<Rightarrow> True | _ \<Rightarrow> False)"
  by code_simp

lemma sample_lookup: 
  "map_option backends (map_of (upstreams sample_transport) sample_key) =
     Some [(0, \<lparr>ba_scheme = ''http'', ba_host = ''a:80''\<rparr>), (1, \<lparr>ba_scheme = ''https'', ba_host = ''b:443''\<rparr>)]"
  by code_simp

section \<open>A network\<close>

definition sample_stream :: "byte list \<Rightarrow> stream" where
  "sample_stream bs =
     \<lparr>contents = bs, pos = 0, seekable = False, read_error = None, seek_result = (\<lambda>_. None), seeks = 0,
      write_result = (\<lambda>_. None), writes = 0, stat_error = None, closes = 0\<rparr>"

definition sample_net :: net where
  "sample_net =
     \<lparr>lb = bld sample_built, streams = (\<lambda>_. sample_stream [1, 2, 3]), next_stream = 1, removed = [],
      ctx_reads = 0, cancels = 0, canceled = [], calls = []\<rparr>"

definition sample_env :: rt_env where
  "sample_env =
     \<lparr>rt_RoundTrip = (\<lambda>rt req n.
        let ok = (map_option Host_of (URL req) \<noteq> Some ''a:80'')
        in \<lparr>ans_resp = (if ok then Some \<lparr>StatusCode = 200, resp_Body = Some (rawBody (next_stream n))\<rparr> else None),
            ans_err = (if ok then None else Some (errorText ''connection refused'')),
            ans_wrote = ok, ans_lb = lb n, ans_streams = streams n, ans_next = Suc (next_stream n)\<rparr>),
      ctx_Err = (\<lambda>_. None), temp_file = (\<lambda>_. Inr (sample_stream []))\<rparr>"

definition sample_request :: "string \<Rightarrow> reqBody option \<Rightarrow> http_Request" where
  "sample_request meth body =
     \<lparr>Method = meth, URL = Some \<lparr>Scheme = ''http'', Host_of = ''api.test'', url_tail = ''/v1''\<rparr>, Host = '''',
      Header_Get = (\<lambda>_. ''''), RemoteAddr = '''', ContentLength = (if body = None then 0 else 3),
      Body = body, GetBody = None, ctx_timeout = None, traced = False\<rparr>"

end
