(* ===== verification/Body_Closing.thy ===== *)
theory Body_Closing
  imports Round_Trip_Facts
begin

text \<open>
  Bodies over a whole round trip: a round trip over an upstream closes the caller's body once,
  and its temporary file after the last attempt, however many attempts there are. Attempts
  get bodies whose \<open>Close\<close> does nothing, or new ones from the caller's \<open>GetBody\<close>.
\<close>

section \<open>Surroundings that close their own streams only\<close>

primrec raw_stream :: "respBody \<Rightarrow> body_id" where
  "raw_stream (rawBody i) = i"
| "raw_stream (cancelCloser b c) = raw_stream b"

definition resp_from :: "nat \<Rightarrow> http_Response option \<Rightarrow> bool" where
  "resp_from k resp \<longleftrightarrow> (\<forall>r b. resp = Some r \<and> resp_Body r = Some b \<longrightarrow> k \<le> raw_stream b)"

text \<open>
  A round tripper closes no stream that exists, except for the body of the request it is given,
  and the body of its response is a new stream.
\<close>

definition closes_own :: "rt_env \<Rightarrow> bool" where
  "closes_own env \<longleftrightarrow>
     (\<forall>rt req n. let a = rt_RoundTrip env rt req n
      in next_stream n \<le> ans_next a \<and> resp_from (next_stream n) (ans_resp a) \<and>
         (\<forall>c < next_stream n. Body req \<noteq> Some (plainBody c) \<longrightarrow>
            closes (ans_streams a c) = closes (streams n c)))"

text \<open>The streams below \<open>k\<close> were not closed, and no file was removed.\<close>

definition untouched :: "nat \<Rightarrow> net \<Rightarrow> net \<Rightarrow> bool" where
  "untouched k n n' \<longleftrightarrow>
     k \<le> next_stream n' \<and> removed n' = removed n \<and>
     (\<forall>c < k. closes (streams n' c) = closes (streams n c))"

text \<open>A source of bodies that closes nothing and whose bodies close nothing below \<open>k\<close>.\<close>

definition fresh_bodies :: "nat \<Rightarrow> get_body \<Rightarrow> bool" where
  "fresh_bodies k g \<longleftrightarrow>
     (\<forall>m. k \<le> next_stream m \<longrightarrow> untouched k m (snd (g m)) \<and>
        (\<forall>c. fst (g m) = Inr (plainBody c) \<longrightarrow> k \<le> c))"

definition body_source :: "nat \<Rightarrow> get_body option \<Rightarrow> http_Request \<Rightarrow> bool" where
  "body_source k g req =
     (case g of None \<Rightarrow> \<forall>c. Body req \<noteq> Some (plainBody c) | Some f \<Rightarrow> fresh_bodies k f)"

lemma untouched_trans: "untouched k n n1 \<Longrightarrow> untouched k n1 n2 \<Longrightarrow> untouched k n n2"
  by (simp add: untouched_def)

lemma untouched_frame:
  "untouched k n (m\<lparr>lb := w\<rparr>) = untouched k n m"
  "untouched k n (m\<lparr>ctx_reads := j\<rparr>) = untouched k n m"
  "untouched k n (m\<lparr>cancels := j\<rparr>) = untouched k n m"
  "untouched k n (m\<lparr>canceled := js\<rparr>) = untouched k n m"
  by (simp_all add: untouched_def)

lemma resp_from_None [simp]: "resp_from k None"
  by (simp add: resp_from_def)

section \<open>The parts of a round trip\<close>

lemma steady_untouched: "steady n n' \<Longrightarrow> k \<le> next_stream n \<Longrightarrow> untouched k n n'"
  by (simp add: steady_def untouched_def answers_def)

lemma rewind_fresh: "fresh_bodies k (rewind i start b)"
  unfolding fresh_bodies_def rewind_def
  by (auto split: prod.splits sum.splits dest!: stream_Seek_steady intro: steady_untouched)

lemma serve_bytes_fresh: "fresh_bodies k (serve_bytes bs)"
  by (simp add: fresh_bodies_def serve_bytes_def bytes_NewReader_def untouched_def)

lemma prepareBody_source:
  assumes "prepareBody env t req rp n = (Inr (g, cl), req', n')"
    and "\<And>f. GetBody req = Some f \<Longrightarrow> fresh_bodies k f"
  shows "body_source k g req'"
proof -
  have "fresh_bodies k (\<lambda>m. (Inr NoBody, m))" by (simp add: fresh_bodies_def untouched_def)
  with assms rewind_fresh serve_bytes_fresh show ?thesis
    by (auto simp: body_source_def prepareBody_def prepareSeekable_def prepareBuffered_def
        prepareSpilledBody_def Let_def split: option.splits prod.splits sum.splits if_splits)
qed

lemma restore_body_untouched:
  assumes "restore_body g req n = (r, n')" and "body_source k g req" and "k \<le> next_stream n"
  shows "untouched k n n'" and "r = Inr req' \<Longrightarrow> Body req' = Some (plainBody c) \<Longrightarrow> k \<le> c"
  using assms
  by (auto simp: restore_body_def body_source_def fresh_bodies_def untouched_def
      split: option.splits prod.splits sum.splits)

lemma respBody_Close_untouched:
  "k \<le> raw_stream b \<Longrightarrow> untouched k n (respBody_Close b m) = untouched k n m"
proof (induction b arbitrary: m)
  case (rawBody i)
  then show ?case by (auto simp: untouched_def)
qed (simp add: untouched_frame)

lemma closeLast_untouched:
  "closeLast resp m = Val m' \<Longrightarrow> resp_from k resp \<Longrightarrow> untouched k n m \<Longrightarrow> untouched k n m'"
  by (auto simp: closeLast_def resp_Close_def resp_from_def respBody_Close_untouched split: option.splits)

lemma failRoundTrip_untouched:
  assumes "failRoundTrip (Some req) e m = (res, m')" and "\<And>c. Body req = Some (plainBody c) \<Longrightarrow> k \<le> c"
    and "untouched k n m"
  shows "untouched k n m'"
  using assms by (auto simp: failRoundTrip_def untouched_def reqBody_Close_def split: option.splits reqBody.splits)

lemma call_untouched:
  assumes "call_RoundTripper env rt req n = (((resp, err), wrote), n')" and "closes_own env"
    and "\<And>c. Body req = Some (plainBody c) \<Longrightarrow> k \<le> c" and "k \<le> next_stream n"
  shows "untouched k n n'" and "resp_from k resp"
proof -
  let ?a = "rt_RoundTrip env rt req n"
  have a: "next_stream n \<le> ans_next ?a" "resp_from (next_stream n) (ans_resp ?a)"
    "\<And>c. c < next_stream n \<Longrightarrow> Body req \<noteq> Some (plainBody c) \<Longrightarrow> closes (ans_streams ?a c) = closes (streams n c)"
    using assms(2) unfolding closes_own_def Let_def by blast+
  have n': "streams n' = ans_streams ?a" "next_stream n' = ans_next ?a" "removed n' = removed n" "resp = ans_resp ?a"
    using assms(1) by (auto simp: call_RoundTripper_def Let_def)
  have "closes (ans_streams ?a c) = closes (streams n c)" if "c < k" for c
    using that assms(3) [of c] assms(4) by (intro a(3)) auto
  with a(1) assms(4) show "untouched k n n'" by (simp add: untouched_def n')
  show "resp_from k resp" using a(2) assms(4) by (auto simp: resp_from_def n' dest: order_trans)
qed

lemma roundTrip_untouched:
  assumes "roundTrip env rt req n = (((resp, err), wrote), n')" and "closes_own env"
    and "\<And>c. Body req = Some (plainBody c) \<Longrightarrow> k \<le> c" and "k \<le> next_stream n"
  shows "untouched k n n' \<and> resp_from k resp"
proof (cases rt)
  case None
  then show ?thesis
    using assms(1) failRoundTrip_untouched [OF _ assms(3), of req _ n _ n'] assms(4)
    by (auto simp: roundTrip_def untouched_def failRoundTrip_def split: prod.splits)
next
  case (Some r)
  obtain resp1 err1 wrote1 n1 where c: "call_RoundTripper env r req n = (((resp1, err1), wrote1), n1)"
    by (metis prod.collapse)
  note u = call_untouched [OF c assms(2,3,4)]
  have f: "untouched k n m" if "failRoundTrip (Some req) e n1 = (res, m)" for e res m
    using failRoundTrip_untouched [OF that assms(3) u(1)] .
  show ?thesis
    using assms(1) Some c u f
    by (auto simp: roundTrip_def failRoundTrip_def split: prod.splits if_splits)
qed

lemma exchange_untouched:
  assumes "exchange env t ups req n resp err wrote n'" and "closes_own env"
    and "\<And>c. Body req = Some (plainBody c) \<Longrightarrow> k \<le> c" and "k \<le> next_stream n"
  shows "untouched k n n'" and "resp_from k resp"
proof -
  let ?m = "n\<lparr>cancels := cancels n + (if 0 < timeout t then 1 else 0)\<rparr>"
  from assms(1) obtain resp0 n1 where
    rt: "roundTrip env (used_transport t ups) (timed t req) ?m = (((resp0, err), wrote), n1)"
    and hc: "handle_cancel (new_cancel t n) resp0 err n1 = Val (resp, n')"
    unfolding exchange_def by blast
  have "Body (timed t req) = Body req" by (simp add: timed_def traceRequestSent_def)
  with roundTrip_untouched [OF rt assms(2), of k] assms(3,4)
  have u: "untouched k n n1" "resp_from k resp0" by (simp_all add: untouched_def)
  from hc u(1) show "untouched k n n'"
    by (auto simp: handle_cancel_def call_cancel_def untouched_frame split: if_splits option.splits)
  from hc u(2) show "resp_from k resp"
    by (auto simp: handle_cancel_def resp_from_def split: if_splits option.splits)
qed

lemma attempt_untouched:
  assumes "picker_wf pk" and "rr_wf (embedded pk)" and "closes_own env" and "body_source k g req"
    and "k \<le> next_stream n" and "attempt env t ups key req g pk p addr n = Val (aend, n')"
  shows "untouched k n n' \<and>
    resp_from k (case aend of Finished resp err \<Rightarrow> resp | NextPeer resp err pk' \<Rightarrow> resp)"
proof -
  have src: "body_source k g (rewrite_request key addr req)"
    using assms(4) by (simp add: body_source_def rewrite_request_def split: option.splits)
  have rb: "untouched k n n1" "k \<le> next_stream n1"
    "\<And>req1 c. r = Inr req1 \<Longrightarrow> Body req1 = Some (plainBody c) \<Longrightarrow> k \<le> c"
    if "restore_body g (rewrite_request key addr req) n = (r, n1)" for r n1
    using restore_body_untouched [OF that src assms(5)] by (simp_all add: untouched_def)
  have ex: "untouched k n n2 \<and> resp_from k resp"
    if "restore_body g (rewrite_request key addr req) n = (Inr req1, n1)"
      and "exchange env t ups req1 n1 resp err wrote n2" for req1 n1 resp err wrote n2
    using exchange_untouched [OF that(2) assms(3) rb(3) [OF that(1) refl] rb(2) [OF that(1)]]
      untouched_trans [OF rb(1) [OF that(1)]] by blast
  from assms(1,2) show ?thesis
  proof (cases rule: attempt_cases [where env = env and t = t and ups = ups and key = key and baseReq = req
        and g = g and p = p and addr = addr and n = n, case_names no_body gone judged])
    case (no_body e n1 pk' n2)
    have "untouched k n n2" by (subst no_body(3)) (use rb(1) [OF no_body(2)] in \<open>simp add: untouched_frame\<close>)
    with no_body(1) assms(6) show ?thesis by auto
  next
    case (gone req1 n1 resp err wrote n2 e n3 pk' n4)
    from ex [OF gone(2,3)] closeLast_untouched [OF gone(8), of k n] have "untouched k n n3"
      by (simp add: untouched_frame)
    with gone(1,9) assms(6) show ?thesis by (auto simp: untouched_frame)
  next
    case (judged req1 n1 resp err wrote n2 j d aend' pk' n3)
    have "untouched k n n3"
      by (subst judged(6)) (use ex [OF judged(2,3)] in \<open>simp add: untouched_frame\<close>)
    with judged(1,5) assms(6) ex [OF judged(2,3)] show ?thesis by (auto split: if_splits)
  qed
qed

lemma iteration_untouched:
  assumes "loop_wf pk lr" and "closes_own env" and "body_source k g req"
    and "untouched k m0 n" and "resp_from k lr"
  shows "case RoundTrip_iteration env t ups key req g (pk, lr, le, n) of
      Val (Inl (res, n')) \<Rightarrow> untouched k m0 n'
    | Val (Inr (pk', lr', le', n')) \<Rightarrow> untouched k m0 n' \<and> resp_from k lr'
    | Panic \<Rightarrow> False"
  using assms(1)
proof (cases rule: iteration_cases [where env = env and t = t and ups = ups and key = key and req = req
      and g = g and le = le and n = n, case_names canceled exhausted unknown tried])
  case (canceled e n')
  with closeLast_untouched [OF canceled(3) assms(5), of m0] assms(4) show ?thesis by (simp add: untouched_frame)
next
  case (exhausted pk' w')
  with assms(4) show ?thesis by (simp add: untouched_frame)
next
  case (unknown p pk1 w1 pk2 n' e)
  with closeLast_untouched [OF unknown(5) assms(5), of m0] assms(4) show ?thesis by (simp add: untouched_frame)
next
  case (tried p pk1 w1 addr n1 aend n2)
  have u: "untouched k m0 n1"
    using closeLast_untouched [OF tried(7) assms(5), of m0] assms(4) by (simp add: untouched_frame)
  then have "k \<le> next_stream n1" by (simp add: untouched_def)
  from attempt_untouched [OF tried(3,4) assms(2,3) this tried(8)] untouched_trans [OF u] tried(1)
  show ?thesis by (cases aend) auto
qed

section \<open>The whole round trip\<close>

text \<open>The clean-up does the same to the streams of the preparation now as it would have then.\<close>

lemma run_cleanup_untouched:
  assumes "prepareBody env t req rp n = (Inr (g, cl), req', m0)" and "untouched k m0 m"
    and "k = next_stream m0"
  shows "untouched k (run_cleanup cl m0) (run_cleanup cl m)"
proof -
  have "untouched k (reqBody_Close b m0) (reqBody_Close b m)" for b
    using assms(2) by (cases b) (auto simp: untouched_def reqBody_Close_def)
  moreover have "untouched k (close_and_remove f m0) (close_and_remove f m)" for f
    using assms(2) by (auto simp: untouched_def)
  ultimately show ?thesis using cleanup_cases [OF assms(1)] assms(2) by (auto simp: run_cleanup_def)
qed

text \<open>
  \<open>bodies_closed b n m0 n'\<close>: from \<open>n\<close> to \<open>n'\<close> the body \<open>b\<close> was closed once and no other stream
  that existed, and every stream opened up to \<open>m0\<close> was closed once and removed.
\<close>

definition bodies_closed :: "reqBody \<Rightarrow> net \<Rightarrow> net \<Rightarrow> net \<Rightarrow> bool" where
  "bodies_closed b n m0 n' \<longleftrightarrow>
     (\<forall>c < next_stream n. closes (streams n' c) = closes (streams (reqBody_Close b n) c)) \<and>
     (\<forall>c. next_stream n \<le> c \<and> c < next_stream m0 \<longrightarrow> closes (streams n' c) = 1 \<and> c \<in> set (removed n'))"

lemma tidy_bodies_closed:
  assumes "tidy (reqBody_Close b n) m" and "untouched (next_stream m) m n'" and "next_stream m = next_stream m0"
  shows "bodies_closed b n m0 n'"
  using assms by (auto simp: tidy_def untouched_def bodies_closed_def)

lemma RoundTrip_upstream_closes:
  assumes bal: "balancer ups = Some bal" "balancer_wf bal" "peer_count bal < fuel" and req: "sound_request req n"
    and b: "Body req = Some b" and env: "closes_own env" and g: "\<And>f k. GetBody req = Some f \<Longrightarrow> fresh_bodies k f"
  shows "\<exists>res n'. RoundTrip_upstream fuel env t ups key req n = Some (Val (res, n')) \<and>
    bodies_closed b n (snd (snd (prepareBody env t req (requestBodyMayNeedReplay t (Some ups) req) n))) n'"
    (is "\<exists>res n'. _ \<and> bodies_closed b n ?m0 n'")
proof (rule RoundTrip_upstream_rule [OF bal req, where
      I = "\<lambda>m0 pk lr le m. untouched (next_stream m0) m0 m \<and> resp_from (next_stream m0) lr" and
      R = "\<lambda>m0 res m. untouched (next_stream m0) m0 m"], goal_cases)
  case (1 g baseReq pk lr le m cl m0)
  with iteration_untouched [OF 1(3) env prepareBody_source [OF 1(1) assms(7)]] show ?case by blast
next
  case (2 g cl baseReq pk m0)
  show ?case by (simp add: untouched_def)
next
  case (3 e m req')
  have ex: "body_exists b n" using req b by (simp add: sound_request_def)
  from prepareBody_tidy [OF 3(1) b ex] 3(1) show ?case
    by (intro tidy_bodies_closed) (simp_all add: untouched_def)
next
  case (4 g cl baseReq m0 res m)
  have ex: "body_exists b n" using req b by (simp add: sound_request_def)
  from prepareBody_tidy [OF 4(1) b ex] 4(1) run_cleanup_untouched [OF 4] show ?case
    by (intro tidy_bodies_closed [of _ _ "run_cleanup cl m0"]) (simp_all add: cleanup_forms(2) [OF 4(1)])
qed

end
