(* ===== verification/Transport_Properties.thy ===== *)
theory Transport_Properties
  imports Transport_Sample Body_Closing
begin

text \<open>
  The properties of the transport: configuration, round trips over a transport that the
  package's constructor made, request bodies and client addresses.
\<close>

section \<open>Transports that the constructor made\<close>

text \<open>By options of the package whose upstream blocks satisfy a condition.\<close>

definition constructed :: "(UpstreamConfig \<Rightarrow> bool) \<Rightarrow> Transport \<Rightarrow> bool" where
  "constructed P t \<longleftrightarrow>
     (\<exists>r opts b b'. (\<forall>opt. Some opt \<in> set opts \<longrightarrow> package_option P r opt) \<and> idle_store (heap (bld b)) \<and>
        NewTransportE opts b = Val ((t, initErr t), b'))"

lemma constructed_upstream:
  assumes "constructed moderate t" and "map_of (upstreams t) key = Some ups"
  obtains bal where "balancer ups = Some bal" "balancer_wf bal" "peer_count bal \<le> length (backends ups)"
    "balancer_peers bal = fst ` set (backends ups)"
proof -
  from assms(1) obtain b where "build_inv t b"
    unfolding constructed_def using NewTransportE_inv by fastforce
  with map_of_SomeD [OF assms(2)] have "upstream_ready (heap (bld b)) ups"
    by (auto simp: build_inv_def)
  then obtain bal where bal: "balancer ups = Some bal" "balancer_wf bal"
    "balancer_peers bal = fst ` set (backends ups)" by (auto simp: upstream_ready_def)
  with peer_count_backends [OF bal(2,3)] show thesis by (intro that)
qed

text \<open>What a round trip does for a matched request follows from what its loop does.\<close>

lemma constructed_matched:
  assumes "constructed moderate t" and "matched env t req n key ups" and "length (backends ups) < fuel"
  obtains bal where "balancer ups = Some bal" "balancer_wf bal" "peer_count bal < fuel"
    "peer_count bal \<le> length (backends ups)" "balancer_peers bal = fst ` set (backends ups)"
    "RoundTrip fuel env (Some t) (Some req) n = RoundTrip_upstream fuel env t ups key req (asked n)"
proof -
  have "map_of (upstreams t) key = Some ups" using assms(2) by (simp add: matched_def)
  from constructed_upstream [OF assms(1) this] obtain bal where
    "balancer ups = Some bal" "balancer_wf bal" "peer_count bal \<le> length (backends ups)"
    "balancer_peers bal = fst ` set (backends ups)" .
  with RoundTrip_matched [OF assms(2)] assms(3) show thesis by (intro that [of bal]) auto
qed

lemma sample_constructed: "constructed moderate sample_transport"
  unfolding constructed_def using sample_package sample_idle sample_NewTransportE by blast

definition sample_ups :: upstream where
  "sample_ups = the (map_of (upstreams sample_transport) sample_key)"

lemma sample_ups:
  "map_of (upstreams sample_transport) sample_key = Some sample_ups"
  "backends sample_ups =
     [(0, \<lparr>ba_scheme = ''http'', ba_host = ''a:80''\<rparr>), (1, \<lparr>ba_scheme = ''https'', ba_host = ''b:443''\<rparr>)]"
  using sample_lookup by (auto simp: sample_ups_def)

lemma sample_matched: "matched sample_env sample_transport (sample_request m body) sample_net sample_key sample_ups"
  using sample_ups(1) sample_has_transport sample_no_error
  by (auto simp: matched_def sample_env_def sample_request_def key_of_def sample_key_def split: option.splits)

lemma sample_sound: "sound_request (sample_request m (Some (plainBody 0))) sample_net"
  "sound_request (sample_request m None) sample_net"
  by (simp_all add: sound_request_def quiet_request_def quiet_opt_def sample_request_def body_exists_def
      sample_net_def)

lemma sample_keeps: "keeps_conns sample_env" "keeps_settings sample_env"
  by (simp_all add: keeps_conns_def keeps_settings_def sample_env_def Let_def)

lemma sample_store_idle: "idle_store (heap (lb sample_net))"
proof -
  have "build_inv sample_transport sample_built"
    using NewTransportE_inv [OF sample_package sample_idle] sample_NewTransportE by auto
  then show ?thesis by (simp add: build_inv_def sample_net_def)
qed

lemmas sample_trip = sample_constructed sample_matched

section \<open>Properties\<close>

text \<open>
  C26. Registering upstream blocks refines the specification \<open>spec_add\<close>: block by block, a
  configuration that is acceptable (a pattern with scheme and host not used before, valid
  settings and addresses for every server, one server not down, a supported algorithm and a
  key function exactly where the algorithm needs one) extends the routing table by the
  backends of its servers in order, each with its own scheme or that of the pattern; every
  other configuration leaves the table alone and makes the transport invalid.
\<close>

theorem WithUpstreams_refinement:
  assumes "\<forall>c \<in> set cs. moderate c"
  shows "\<exists>t' b'. WithUpstreams r cs t b = Val (t', b') \<and>
    abs_transport t' = fold spec_add cs (abs_transport t)"
  by (rule WithUpstreams_refines [OF assms])

theorem WithUpstreams_refinement_witness:
  "\<exists>t' b'. WithUpstreams sample_rand [sample_upstream, sample_upstream] empty_Transport sample_build = Val (t', b') \<and>
     abs_transport t' =
       ([(sample_key, [\<lparr>ba_scheme = ''http'', ba_host = ''a:80''\<rparr>, \<lparr>ba_scheme = ''https'', ba_host = ''b:443''\<rparr>],
          AlgoRoundRobin)], False)"
proof -
  have "fold spec_add [sample_upstream, sample_upstream] (abs_transport empty_Transport) =
      ([(sample_key, [\<lparr>ba_scheme = ''http'', ba_host = ''a:80''\<rparr>, \<lparr>ba_scheme = ''https'', ba_host = ''b:443''\<rparr>],
         AlgoRoundRobin)], False)"
    by code_simp
  with WithUpstreams_refinement [of "[sample_upstream, sample_upstream]" sample_rand empty_Transport sample_build]
  show ?thesis by (simp add: sample_moderate)
qed

text \<open>
  C27. Given options of the package whose upstream blocks are moderate (the weights of each block
  sum up to less than \<open>2 ^ 31\<close>; the code has no such limit), nil options, invalid values and
  rejected upstreams included, the constructor returns without panic a transport with a round tripper whose
  upstreams have distinct keys and are ready: each has a well-formed balancer of the type its
  algorithm names, an address for every peer, and a peer that is not down, and the store is
  one from which the balancer's invariants start.
\<close>

theorem NewTransportE_invariant:
  assumes "\<forall>opt. Some opt \<in> set opts \<longrightarrow> package_option moderate r opt" and "idle_store (heap (bld b))"
  shows "\<exists>t b'. NewTransportE opts b = Val ((t, initErr t), b') \<and> transport t \<noteq> None \<and>
    distinct (map fst (upstreams t)) \<and>
    (\<forall>(k, ups) \<in> set (upstreams t). upstream_ready (heap (bld b')) ups \<and>
       (\<forall>bal. balancer ups = Some bal \<longrightarrow> fresh_store bal (bld b')))"
proof -
  obtain t b' where t: "NewTransportE opts b = Val ((t, initErr t), b')" "build_inv t b'" "transport t \<noteq> None"
    using NewTransportE_inv [OF assms] by blast
  have "upstream_ready (heap (bld b')) ups \<and> (\<forall>bal. balancer ups = Some bal \<longrightarrow> fresh_store bal (bld b'))"
    if "(k, ups) \<in> set (upstreams t)" for k ups
    using t(2) that
    by (fastforce simp: build_inv_def upstream_ready_def groups_ready_def fresh_store_def idle_store_def)
  with t show ?thesis by (auto simp: build_inv_def)
qed

theorem NewTransportE_invariant_witness:
  "transport sample_transport \<noteq> None \<and> upstream_ready (heap (bld sample_built)) sample_ups"
  using NewTransportE_invariant [OF sample_package sample_idle] sample_NewTransportE
    map_of_SomeD [OF sample_ups(1)] by auto

text \<open>
  C28. A round trip on a transport that the constructor made from moderate upstream blocks
  (weights that sum up to less than \<open>2 ^ 31\<close> each; C20 is a panic beyond that) always returns and
  never panics, for every request, nil or not, every state of the balancers and every behaviour of the
  round trippers, streams and contexts. The loop has no bound in the code; one iteration
  more than the upstream has backends is enough, and more fuel gives the same result.
\<close>

theorem RoundTrip_returns:
  assumes "constructed moderate t" and "\<forall>(key, ups) \<in> set (upstreams t). length (backends ups) \<le> k"
  shows "\<exists>res n'. \<forall>fuel > k. RoundTrip fuel env (Some t) rq n = Some (Val (res, n'))"
proof -
  have "\<exists>res n'. RoundTrip (Suc k) env (Some t) rq n = Some (Val (res, n'))"
  proof (rule RoundTrip_returns_if)
    fix key ups
    assume u: "map_of (upstreams t) key = Some ups"
    from constructed_upstream [OF assms(1) u] obtain bal where
      "balancer ups = Some bal" "balancer_wf bal" "peer_count bal \<le> length (backends ups)" .
    moreover have "length (backends ups) \<le> k" using assms(2) map_of_SomeD [OF u] by auto
    ultimately show "\<exists>bal. balancer ups = Some bal \<and> balancer_wf bal \<and> peer_count bal < Suc k" by auto
  qed
  then obtain res n' where "RoundTrip (Suc k) env (Some t) rq n = Some (Val (res, n'))" by blast
  from RoundTrip_more_fuel [OF this] show ?thesis by (auto simp: Suc_le_eq)
qed

theorem RoundTrip_returns_witness:
  "\<exists>res n'. RoundTrip 3 sample_env (Some sample_transport) (Some (sample_request ''POST'' (Some (plainBody 0))))
     sample_net = Some (Val (res, n'))"
proof -
  have "\<forall>(key, ups) \<in> set (upstreams sample_transport). length (backends ups) \<le> 2" by code_simp
  from RoundTrip_returns [OF sample_constructed this] obtain res n' where
    "\<forall>fuel > 2. RoundTrip fuel sample_env (Some sample_transport)
       (Some (sample_request ''POST'' (Some (plainBody 0)))) sample_net = Some (Val (res, n'))" by blast
  then show ?thesis by auto
qed

text \<open>
  C29. A round trip gives back every connection it takes. If the other requests that run
  meanwhile leave the connection counters as they found them, so does this one, on every
  path: success, failure, cancellation, a body that cannot be restored, exhausted peers.
\<close>

theorem RoundTrip_gives_back:
  assumes "constructed moderate t" and "matched env t req n key ups" and "length (backends ups) < fuel"
    and "sound_request req n" and "keeps_conns env" and "conns_in_range (lb n)"
  shows "\<exists>res n'. RoundTrip fuel env (Some t) (Some req) n = Some (Val (res, n')) \<and>
    (\<forall>q. conns (heap (lb n') q) = conns (heap (lb n) q))"
proof -
  from constructed_matched [OF assms(1-3)] obtain bal where bal: "balancer ups = Some bal" "balancer_wf bal"
    "peer_count bal < fuel"
    "RoundTrip fuel env (Some t) (Some req) n = RoundTrip_upstream fuel env t ups key req (asked n)" .
  from RoundTrip_upstream_conns [OF bal(1-3), of req "asked n" env t key] assms(4-6) bal(4)
  show ?thesis by (simp add: same_conns_def)
qed

theorem RoundTrip_gives_back_witness:
  "\<exists>res n'. RoundTrip 3 sample_env (Some sample_transport) (Some (sample_request ''GET'' None)) sample_net =
     Some (Val (res, n')) \<and> conns (heap (lb n') 0) = 0 \<and> conns (heap (lb n') 1) = 0"
proof -
  have "conns_in_range (lb sample_net)" "\<And>q. conns (heap (lb sample_net) q) = 0"
    using sample_store_idle by (simp_all add: idle_store_def conns_in_range_def in_i64_def)
  with RoundTrip_gives_back [OF sample_trip _ sample_sound(2) [of "''GET''"] sample_keeps(1), of 3]
  obtain res n' where "RoundTrip 3 sample_env (Some sample_transport) (Some (sample_request ''GET'' None))
      sample_net = Some (Val (res, n'))" "\<forall>q. conns (heap (lb n') q) = 0"
    by (auto simp: sample_ups(2))
  then show ?thesis by blast
qed

text \<open>
  C30. A request with a method that is not idempotent is not repeated once it may have had an
  effect: without \<open>WithNonIdempotentRetries\<close>, all calls of a round trip but the last one went
  through a standard transport that reported no write.
\<close>

theorem RoundTrip_sends_once:
  assumes "constructed moderate t" and "matched env t req n key ups" and "length (backends ups) < fuel"
    and "sound_request req n" and "isNonIdempotentMethod (Method req)" and "\<not> retryNonIdempotent t"
  shows "\<exists>res n' cs. RoundTrip fuel env (Some t) (Some req) n = Some (Val (res, n')) \<and>
    calls n' = cs @ calls n \<and> (\<forall>c \<in> set (tl cs). \<not> call_wrote c \<and> (\<exists>ht. call_rt c = stdTransport ht))"
proof -
  from constructed_matched [OF assms(1-3)] obtain bal where bal: "balancer ups = Some bal" "balancer_wf bal"
    "peer_count bal < fuel"
    "RoundTrip fuel env (Some t) (Some req) n = RoundTrip_upstream fuel env t ups key req (asked n)" .
  from RoundTrip_upstream_calls [OF bal(1-3), of req "asked n" env t key] assms(4-6) bal(4)
  show ?thesis by (auto simp: calls_after_def once_only_def unwritten_def)
qed

theorem RoundTrip_sends_once_witness:
  "isNonIdempotentMethod ''POST'' \<and>
   (\<exists>res n' cs. RoundTrip 3 sample_env (Some sample_transport)
       (Some (sample_request ''POST'' (Some (plainBody 0)))) sample_net = Some (Val (res, n')) \<and>
     calls n' = cs \<and> (\<forall>c \<in> set (tl cs). \<not> call_wrote c))"
proof -
  have m: "isNonIdempotentMethod (Method (sample_request ''POST'' (Some (plainBody 0))))"
    by (simp add: sample_request_def isNonIdempotentMethod_def)
  have "\<not> retryNonIdempotent sample_transport" by code_simp
  from RoundTrip_sends_once [OF sample_trip _ sample_sound(1) m this, of 3]
  obtain res n' cs where "RoundTrip 3 sample_env (Some sample_transport)
      (Some (sample_request ''POST'' (Some (plainBody 0)))) sample_net = Some (Val (res, n'))"
    "calls n' = cs @ calls sample_net" "\<forall>c \<in> set (tl cs). \<not> call_wrote c"
    by (auto simp: sample_ups(2))
  moreover have "calls sample_net = []" by (simp add: sample_net_def)
  ultimately show ?thesis by (auto simp: isNonIdempotentMethod_def)
qed

text \<open>
  C31. The calls of a round trip go to registered backends of the matched upstream: scheme and
  host of the URL are those of the backend, the rest of it is the caller's. They go through
  the upstream's own transport where it has one, with the request's method and its Host header,
  or the upstream's host where the request has none, and there are at most as many as the
  upstream has backends.
\<close>

theorem RoundTrip_targets:
  assumes "constructed moderate t" and "matched env t req n key ups" and "length (backends ups) < fuel"
    and "sound_request req n"
  shows "\<exists>res n' cs. RoundTrip fuel env (Some t) (Some req) n = Some (Val (res, n')) \<and>
    calls n' = cs @ calls n \<and> length cs \<le> length (backends ups) \<and>
    (\<forall>c \<in> set cs.
       (\<exists>addr \<in> snd ` set (backends ups).
          call_url c = map_option (\<lambda>u. u\<lparr>Scheme := ba_scheme addr, Host_of := ba_host addr\<rparr>) (URL req)) \<and>
       call_host c = (if Host req = '''' then key_host key else Host req) \<and> call_method c = Method req \<and>
       Some (call_rt c) = (if ups_transport ups = None then transport t else ups_transport ups))"
proof -
  from constructed_matched [OF assms(1-3)] obtain bal where bal: "balancer ups = Some bal" "balancer_wf bal"
    "peer_count bal < fuel" "peer_count bal \<le> length (backends ups)"
    "RoundTrip fuel env (Some t) (Some req) n = RoundTrip_upstream fuel env t ups key req (asked n)" .
  from RoundTrip_upstream_calls [OF bal(1-3), of req "asked n" env t key] assms(4) bal(5)
  obtain res n' cs where r: "RoundTrip fuel env (Some t) (Some req) n = Some (Val (res, n'))"
    "calls n' = cs @ calls n" "length cs \<le> peer_count bal" "\<forall>c \<in> set cs. target_call t ups key req c"
    by (auto simp: calls_after_def)
  have "length cs \<le> length (backends ups)" using r(3) bal(4) by linarith
  moreover have "used_transport t ups = (if ups_transport ups = None then transport t else ups_transport ups)"
    by (auto simp: used_transport_def split: option.split)
  ultimately show ?thesis using r(1,2,4) unfolding target_call_def redirect_def by auto
qed

theorem RoundTrip_targets_witness:
  "\<exists>res n'. RoundTrip 3 sample_env (Some sample_transport) (Some (sample_request ''GET'' None)) sample_net =
     Some (Val (res, n')) \<and> length (calls n') \<le> 2 \<and> (\<forall>c \<in> set (calls n'). call_host c = ''api.test'')"
proof -
  have "calls sample_net = []" "Host (sample_request ''GET'' None) = ''''" "key_host sample_key = ''api.test''"
    by (simp_all add: sample_net_def sample_request_def sample_key_def)
  with RoundTrip_targets [OF sample_trip _ sample_sound(2) [of "''GET''"], of 3]
  obtain res n' where "RoundTrip 3 sample_env (Some sample_transport) (Some (sample_request ''GET'' None))
      sample_net = Some (Val (res, n'))" "length (calls n') \<le> 2" "\<forall>c \<in> set (calls n'). call_host c = ''api.test''"
    by (auto simp: sample_ups(2) numeral_2_eq_2)
  then show ?thesis by blast
qed

text \<open>
  C32. Every cancel function that a round trip creates for its timeouts has been called when
  the round trip returns, or the returned response owns it, so that closing its body calls
  it: no context leaks.
\<close>

theorem RoundTrip_cancels:
  assumes "constructed moderate t" and "matched env t req n key ups" and "length (backends ups) < fuel"
    and "sound_request req n"
  shows "\<exists>resp err n'. RoundTrip fuel env (Some t) (Some req) n = Some (Val ((resp, err), n')) \<and>
    (\<forall>c. cancels n \<le> c \<and> c < cancels n' \<longrightarrow> c \<in> set (canceled n') \<or>
       (\<exists>x b. resp = Some x \<and> resp_Body x = Some b \<and> c \<in> set (canceled (respBody_Close b n'))))"
proof -
  from constructed_matched [OF assms(1-3)] obtain bal where bal: "balancer ups = Some bal" "balancer_wf bal"
    "peer_count bal < fuel"
    "RoundTrip fuel env (Some t) (Some req) n = RoundTrip_upstream fuel env t ups key req (asked n)" .
  from RoundTrip_upstream_settled [OF bal(1-3), of req "asked n" env t key] assms(4) bal(4)
  obtain resp err n' where r: "RoundTrip fuel env (Some t) (Some req) n = Some (Val ((resp, err), n'))"
    "settled (cancels n) resp n'" by auto
  have "\<exists>x b. resp = Some x \<and> resp_Body x = Some b \<and> c \<in> set (canceled (respBody_Close b n'))"
    if "owned resp c" for c
    using that respBody_Close_canceled by (fastforce simp: owned_def)
  with r show ?thesis unfolding settled_def by blast
qed

theorem RoundTrip_cancels_witness:
  "\<exists>resp err n'. RoundTrip 3 sample_env (Some sample_transport) (Some (sample_request ''GET'' None)) sample_net =
     Some (Val ((resp, err), n')) \<and>
     (\<forall>c < cancels n'. c \<in> set (canceled n') \<or>
        (\<exists>x b. resp = Some x \<and> resp_Body x = Some b \<and> c \<in> set (canceled (respBody_Close b n'))))"
proof -
  have "cancels sample_net = 0" by (simp add: sample_net_def)
  with RoundTrip_cancels [OF sample_trip _ sample_sound(2), of 3] show ?thesis
    by (simp add: sample_ups(2))
qed

text \<open>
  C33. A working server is found: under the default retry condition, a request that may be
  repeated and whose context is not cancelled ends with a response and no error as soon as
  one backend of its upstream is up without limits and answers, whatever the other backends
  do and whatever other requests do to the counters meanwhile.
\<close>

theorem RoundTrip_finds:
  assumes "constructed moderate t" and "matched env t req n key ups" and "length (backends ups) < fuel"
    and "sound_request req n" and "repeatable req"
    and "\<And>k. ctx_Err env k = None" and "keeps_settings env"
    and "nextUpstream t = None" and "isNonIdempotentMethod (Method req) \<longrightarrow> retryNonIdempotent t"
    and "map_of (backends ups) p = Some addr" and "always_ready (heap (lb n) p)" and "answers_at env addr"
  shows "\<exists>r n'. RoundTrip fuel env (Some t) (Some req) n = Some (Val ((Some r, None), n'))"
proof -
  from constructed_matched [OF assms(1-3)] obtain bal where bal: "balancer ups = Some bal" "balancer_wf bal"
    "peer_count bal < fuel" "balancer_peers bal = fst ` set (backends ups)"
    "RoundTrip fuel env (Some t) (Some req) n = RoundTrip_upstream fuel env t ups key req (asked n)" .
  obtain rt where rt: "used_transport t ups = Some rt"
    using assms(2) by (cases "ups_transport ups") (auto simp: used_transport_def matched_def)
  have "\<not> once_only t req" using assms(9) by (simp add: once_only_def)
  moreover have "p \<in> balancer_peers bal" using map_of_SomeD [OF assms(10)] bal(4) by force
  ultimately show ?thesis
    using RoundTrip_upstream_finds [OF bal(1-3) _ assms(5-8) _ rt _ bal(4) _ _ assms(10,12), of "asked n" key]
      assms(2,4,11) bal(5) by (auto simp: matched_def)
qed

theorem RoundTrip_finds_witness:
  "\<exists>r n'. RoundTrip 3 sample_env (Some sample_transport) (Some (sample_request ''GET'' None)) sample_net =
     Some (Val ((Some r, None), n'))"
proof -
  have "nextUpstream sample_transport = None" by code_simp
  moreover have "always_ready (heap (lb sample_net) 1)" by code_simp
  moreover have "repeatable (sample_request ''GET'' None)" by (simp add: repeatable_def sample_request_def)
  moreover have "\<And>k. ctx_Err sample_env k = None" by (simp add: sample_env_def)
  moreover have "answers_at sample_env \<lparr>ba_scheme = ''https'', ba_host = ''b:443''\<rparr>"
    by (simp add: answers_at_def sample_env_def Let_def redirect_def)
  moreover have "isNonIdempotentMethod (Method (sample_request ''GET'' None)) \<longrightarrow> retryNonIdempotent sample_transport"
    by (simp add: sample_request_def isNonIdempotentMethod_def)
  ultimately show ?thesis
    using RoundTrip_finds [OF sample_trip _ sample_sound(2) _ _ sample_keeps(2), of 3 _ 1]
    by (simp add: sample_ups(2))
qed

text \<open>
  C34. The retry policy of \<open>WithNextUpstreamCodes\<close>: a response is passed to the next server if
  its status is listed and the request may be repeated; it counts as a failure of the server
  in that case only, and never with status 403 or 404. An error is always passed on, unless
  the request was sent and must not be repeated, and counts as a failure even then; the errors of
  a round tripper that breaks its contract say nothing about the server, but are passed on too.
\<close>

theorem WithNextUpstreamCodes_policy:
  "\<exists>t'. WithNextUpstreamCodes codes t b = Val (t', b) \<and>
     (let blocked = (sent \<and> Method req \<in> {''POST'', ''LOCK'', ''PATCH''} \<and> \<not> retryNonIdempotent t) in
        decideAttempt t' req (Some r) None sent =
          \<lparr>dec_retry = (StatusCode r \<in> set codes \<and> \<not> blocked),
           dec_failed = (StatusCode r \<in> set codes - {403, 404} \<and> \<not> blocked), dec_neutral = False\<rparr> \<and>
        decideAttempt t' req resp (Some e) sent =
          \<lparr>dec_retry = (\<not> blocked), dec_failed = (\<not> isRoundTripperContractError (Some e)),
           dec_neutral = isRoundTripperContractError (Some e)\<rparr>)"
  by (auto simp: WithNextUpstreamCodes_def WithNextUpstream_def codes_condition_def decideAttempt_def
      shouldRetry_def isNonIdempotentMethod_def isRoundTripperContractError_def error_Is_def Let_def)

text \<open>
  C35. A transport with a configuration error or without a round tripper, a request without
  URL and a request whose context is done are rejected with an error: the body of the request
  is closed once, nothing is sent and the balancers are not touched.
\<close>

theorem RoundTrip_rejects:
  assumes "initErr t \<noteq> None \<or> URL req = None \<or> transport t = None \<or> ctx_Err env (ctx_reads n) \<noteq> None"
    and "Body req = Some (plainBody i)"
  shows "\<exists>e n'. RoundTrip fuel env (Some t) (Some req) n = Some (Val ((None, Some e), n')) \<and>
    lb n' = lb n \<and> calls n' = calls n \<and> closes (streams n' i) = Suc (closes (streams n i)) \<and>
    (initErr t = Some e \<or>
     initErr t = None \<and> URL req = None \<and> e = sentinelError ErrNilRequestURL \<or>
     initErr t = None \<and> transport t = None \<and> e = sentinelError ErrNilRoundTripper \<or>
     ctx_Err env (ctx_reads n) = Some e)"
  using assms
  by (cases "initErr t"; cases "URL req"; cases "transport t"; cases "ctx_Err env (ctx_reads n)")
    (auto simp: RoundTrip_def failRoundTrip_def Context_Err_def reqBody_Close_def)

theorem RoundTrip_rejects_witness:
  "\<exists>e n'. RoundTrip 0 sample_env (Some empty_Transport) (Some (sample_request ''GET'' (Some (plainBody 0))))
     sample_net = Some (Val ((None, Some e), n')) \<and> closes (streams n' 0) = 1 \<and> calls n' = []"
proof -
  have "transport empty_Transport = None" "Body (sample_request ''GET'' (Some (plainBody 0))) = Some (plainBody 0)"
    "closes (streams sample_net 0) = 0" "calls sample_net = []"
    by (simp_all add: empty_Transport_def sample_request_def sample_net_def sample_stream_def)
  with RoundTrip_rejects [of empty_Transport "sample_request ''GET'' (Some (plainBody 0))" sample_env sample_net 0 0]
  show ?thesis by auto
qed

text \<open>
  What is left of the body after its preparation alone: if it fails, and after the clean-up if it
  succeeds, the given body has been closed exactly once, no other stream that existed has been
  closed, and every temporary file made meanwhile has been closed once and removed.
\<close>

theorem prepareBody_no_leak:
  assumes "prepareBody env t req replayPossible n = (res, req', n')" and "Body req = Some (plainBody i)"
    and "i < next_stream n"
  shows "\<exists>m. m = (case res of Inl _ \<Rightarrow> n' | Inr (_, cl) \<Rightarrow> run_cleanup cl n') \<and>
    closes (streams m i) = Suc (closes (streams n i)) \<and>
    (\<forall>c. c < next_stream n \<and> c \<noteq> i \<longrightarrow> closes (streams m c) = closes (streams n c)) \<and>
    (\<forall>c. next_stream n \<le> c \<and> c < next_stream m \<longrightarrow> closes (streams m c) = 1 \<and> c \<in> set (removed m))"
proof -
  have "tidy (reqBody_Close (plainBody i) n) (case res of Inl _ \<Rightarrow> n' | Inr (_, cl) \<Rightarrow> run_cleanup cl n')"
    using prepareBody_tidy [OF assms(1,2)] assms(3) by (cases res) (auto simp: body_exists_def)
  with assms(3) show ?thesis by (auto simp: tidy_def reqBody_Close_def)
qed

text \<open>
  C36. A round trip closes the body of the request exactly once, as an \<open>http.RoundTripper\<close> must,
  and leaks no file: when it returns, with a response or an error and after any number of
  attempts, the caller's body has been closed once, no other stream that existed has been
  closed, and every temporary file that preparing the body made has been closed once and
  removed. The round trippers may close the bodies they are given, and nothing else; a
  \<open>GetBody\<close> of the caller yields new bodies.
\<close>

theorem RoundTrip_closes_body:
  assumes "constructed moderate t" and "matched env t req n key ups" and "length (backends ups) < fuel"
    and "sound_request req n" and "Body req = Some (plainBody i)" and "closes_own env"
    and "\<And>f k. GetBody req = Some f \<Longrightarrow> fresh_bodies k f"
    and "prepareBody env t req (requestBodyMayNeedReplay t (Some ups) req) (asked n) = (prep, baseReq, m0)"
  shows "\<exists>res n'. RoundTrip fuel env (Some t) (Some req) n = Some (Val (res, n')) \<and>
    closes (streams n' i) = Suc (closes (streams n i)) \<and>
    (\<forall>c. c < next_stream n \<and> c \<noteq> i \<longrightarrow> closes (streams n' c) = closes (streams n c)) \<and>
    (\<forall>c. next_stream n \<le> c \<and> c < next_stream m0 \<longrightarrow> closes (streams n' c) = 1 \<and> c \<in> set (removed n'))"
proof -
  from constructed_matched [OF assms(1-3)] obtain bal where bal: "balancer ups = Some bal" "balancer_wf bal"
    "peer_count bal < fuel"
    "RoundTrip fuel env (Some t) (Some req) n = RoundTrip_upstream fuel env t ups key req (asked n)" .
  have "sound_request req (asked n)" "i < next_stream n"
    using assms(4,5) by (simp_all add: sound_request_def body_exists_def)
  from RoundTrip_upstream_closes [OF bal(1-3) this(1) assms(5-7), of t key] assms(8) bal(4) this(2)
  show ?thesis by (auto simp: bodies_closed_def reqBody_Close_def)
qed

theorem RoundTrip_closes_body_witness:
  "\<exists>res n'. RoundTrip 3 sample_env (Some sample_transport) (Some (sample_request ''PUT'' (Some (plainBody 0))))
     sample_net = Some (Val (res, n')) \<and> closes (streams n' 0) = 1"
proof -
  let ?req = "sample_request ''PUT'' (Some (plainBody 0))"
  obtain prep baseReq m0 where p: "prepareBody sample_env sample_transport ?req
      (requestBodyMayNeedReplay sample_transport (Some sample_ups) ?req) (asked sample_net) = (prep, baseReq, m0)"
    by (metis prod.collapse)
  have r: "Body ?req = Some (plainBody 0)" "GetBody ?req = None" "closes (streams sample_net 0) = 0"
    by (simp_all add: sample_request_def sample_net_def sample_stream_def)
  have "closes_own sample_env" by (simp add: closes_own_def sample_env_def resp_from_def Let_def)
  from RoundTrip_closes_body [OF sample_trip _ sample_sound(1) r(1) this _ p, of 3] r(2,3) show ?thesis
    by (auto simp: sample_ups(2))
qed

text \<open>
  C37. Every attempt sends the same body: whenever a body that several attempts may send was
  prepared and the streams keep their data, the closure for the next attempt yields a body
  that reads as what was left of the caller's body, or the error of a failing seek, whether the
  body is rewound, held in memory or spilled to a file. The declared length is not
  greater than that data, if the caller's body can seek without error.
\<close>

theorem prepareBody_replay:
  assumes "prepareBody env t req True n = (Inr (Some g, cl), req', n')" and "GetBody req = None"
    and "Body req = Some b" and "body_exists b n"
    and "0 \<le> maxBodyBuffer t" and "maxBodyBuffer t < 2 ^ 63 - 1" and "undisturbed n' m"
  shows "(case g m of
        (Inl e, _) \<Rightarrow> \<exists>i k. seek_result (streams m i) k = Some e
      | (Inr body, m') \<Rightarrow> readable body m' = readable b n) \<and>
    ((\<forall>i k. as_Seeker b n = Some i \<longrightarrow> seek_result (streams n i) k = None) \<longrightarrow>
      ContentLength req' \<le> int (length (readable b n)))"
  using prepareBody_replays [OF assms] by (auto simp: replays_def)

theorem prepareBody_replay_witness:
  "\<exists>g cl req' n'. prepareBody sample_env (sample_transport\<lparr>maxBodyBuffer := 1\<rparr>)
       (sample_request ''PUT'' (Some (plainBody 0))) True sample_net = (Inr (Some g, cl), req', n') \<and>
     readable (plainBody 0) sample_net = [1, 2, 3] \<and>
     (case g n' of
        (Inl e, _) \<Rightarrow> \<exists>i k. seek_result (streams n' i) k = Some e
      | (Inr body, m') \<Rightarrow> readable body m' = [1, 2, 3])"
proof -
  let ?t = "sample_transport\<lparr>maxBodyBuffer := 1\<rparr>" and ?req = "sample_request ''PUT'' (Some (plainBody 0))"
  have "case prepareBody sample_env ?t ?req True sample_net of (Inr (Some g, cl), _) \<Rightarrow> True | _ \<Rightarrow> False"
    by code_simp
  then obtain g cl req' n' where p: "prepareBody sample_env ?t ?req True sample_net = (Inr (Some g, cl), req', n')"
    by (cases "prepareBody sample_env ?t ?req True sample_net")
      (auto split: sum.splits option.splits simp del: not_None_eq)
  have h: "GetBody ?req = None" "Body ?req = Some (plainBody 0)" "body_exists (plainBody 0) sample_net"
    "0 \<le> maxBodyBuffer ?t" "maxBodyBuffer ?t < 2 ^ 63 - 1" "undisturbed n' n'"
    "readable (plainBody 0) sample_net = [1, 2, 3]"
    by (simp_all add: sample_request_def body_exists_def sample_net_def undisturbed_def readable_def
        unread_def sample_stream_def)
  note conjunct1 [OF prepareBody_replay [OF p h(1-6)], unfolded h(7)]
  then show ?thesis by (intro exI conjI) (rule p, rule h(7))
qed

text \<open>
  C38. The largest limit for buffered bodies, which \<open>WithMaxBodyBuffer\<close> accepts, loses the
  body: \<open>limit + 1\<close> wraps around to the least 64-bit integer, the limited reader delivers
  nothing, and every attempt sends an empty body with content length zero.
\<close>

theorem WithMaxBodyBuffer_overflow:
  assumes "GetBody req = None" and "Body req = Some b" and "as_Seeker b n = None"
  shows "\<exists>t' g req' n'. WithMaxBodyBuffer (2 ^ 63 - 1) t bd = Val (t', bd) \<and> initErr t' = initErr t \<and>
    prepareBody env t' req True n = (Inr (Some g, None), req', n') \<and> ContentLength req' = 0 \<and>
    (\<exists>body m'. g m = (Inr body, m') \<and> readable body m' = [])"
proof -
  let ?t = "t\<lparr>maxBodyBuffer := 2 ^ 63 - 1\<rparr>"
  obtain n' where "prepareBody env ?t req True n =
      (Inr (Some (serve_bytes []), None), req\<lparr>ContentLength := 0\<rparr>, n')"
    using prepareBody_overflow [of ?t req b n env] assms by auto
  moreover have "\<exists>body m'. serve_bytes [] m = (Inr body, m') \<and> readable body m' = []"
    by (simp add: serve_bytes_def bytes_NewReader_def readable_def unread_def)
  ultimately show ?thesis
    by (intro exI [of _ ?t] exI [of _ "serve_bytes []"]) (simp add: WithMaxBodyBuffer_def)
qed

theorem WithMaxBodyBuffer_overflow_witness:
  "readable (plainBody 0) sample_net = [1, 2, 3] \<and>
   (\<exists>t' g req' n'. WithMaxBodyBuffer (2 ^ 63 - 1) sample_transport sample_built = Val (t', sample_built) \<and>
      prepareBody sample_env t' (sample_request ''PUT'' (Some (plainBody 0))) True sample_net =
        (Inr (Some g, None), req', n') \<and> ContentLength req' = 0 \<and>
      (\<exists>body m'. g sample_net = (Inr body, m') \<and> readable body m' = []))"
proof -
  let ?req = "sample_request ''PUT'' (Some (plainBody 0))"
  have h: "GetBody ?req = None" "Body ?req = Some (plainBody 0)" "as_Seeker (plainBody 0) sample_net = None"
    and r: "readable (plainBody 0) sample_net = [1, 2, 3]"
    by (simp_all add: sample_request_def as_Seeker_def sample_net_def sample_stream_def readable_def unread_def)
  obtain t' g req' n' body m' where "WithMaxBodyBuffer (2 ^ 63 - 1) sample_transport sample_built = Val (t', sample_built)"
    "prepareBody sample_env t' ?req True sample_net = (Inr (Some g, None), req', n')" "ContentLength req' = 0"
    "g sample_net = (Inr body, m')" "readable body m' = []"
    using WithMaxBodyBuffer_overflow [OF h, of sample_transport sample_built sample_env sample_net]
    by (elim exE conjE)
  with r show ?thesis by (intro conjI exI)
qed

text \<open>
  C39. The client address of a request is the one it names. Dotted decimal text denotes the four
  bytes written in it and the full colon form the sixteen bytes. If a text denotes an address,
  then a request that names it in X-Real-IP, with spaces around it, has this client address
  whatever the other sources hold; without an address there, a request that names it as the
  only or the first entry of X-Forwarded-For; without both, a request whose remote address is the
  text itself, the text with a port, or the text in brackets with a port. If none of the
  sources holds an address, the result is nil.
\<close>

theorem clientIP_sources:
  "ParseIP (dotted a b c d) = Some (mapped a b c d) \<and>
   (length xs = 16 \<longrightarrow> ParseIP (colons xs) = Some xs) \<and>
   (names_client req t \<and> ParseIP t = Some ip \<longrightarrow> clientIP req = ip) \<and>
   (no_real_ip req \<and> no_forwarded req \<and> ParseIP (TrimSpace (RemoteAddr req)) = None \<and>
      (\<forall>h port. SplitHostPort (RemoteAddr req) = Some (h, port) \<longrightarrow> ParseIP (TrimSpace h) = None) \<longrightarrow>
      clientIP req = [])"
  using ParseIP_dotted [of a b c d] ParseIP_colons [of xs] clientIP_named [of req t ip] clientIP_unnamed [of req]
  by (auto simp: mapped_def)

text \<open>Requests that name a client: one per source.\<close>

definition client_request :: "string \<Rightarrow> string \<Rightarrow> string \<Rightarrow> http_Request" where
  "client_request real forwarded remote = (sample_request ''GET'' None)
     \<lparr>Header_Get := (\<lambda>h. if h = ''X-Real-IP'' then real else if h = ''X-Forwarded-For'' then forwarded else ''''),
      RemoteAddr := remote\<rparr>"

lemma client_request_sel [simp]:
  "Header_Get (client_request real forwarded remote) ''X-Real-IP'' = real"
  "Header_Get (client_request real forwarded remote) ''X-Forwarded-For'' = forwarded"
  "RemoteAddr (client_request real forwarded remote) = remote"
  by (simp_all add: client_request_def)

lemma sample_names:
  "names_client (client_request '' 192.0.2.10 '' ''198.51.100.20'' '''') ''192.0.2.10''"
  "names_client (client_request ''invalid'' ''198.51.100.20, 203.0.113.30'' '''') ''198.51.100.20''"
  "names_client (client_request '''' ''198.51.100.20'' '''') ''198.51.100.20''"
  "names_client (client_request ''invalid'' ''also-invalid'' ''[2001:db8::5]:443'') ''2001:db8::5''"
  "names_client (client_request '''' '''' ''203.0.113.40'') ''203.0.113.40''"
  "names_client (client_request '''' '''' ''203.0.113.40:80'') ''203.0.113.40''"
proof -
  have pad: "padded t s" if "s = replicate j CHR '' '' @ t @ replicate k CHR '' ''" for t s j k
    using that by (auto simp: padded_def)
  have bad: "ParseIP (TrimSpace ''invalid'') = None" "ParseIP (TrimSpace ''also-invalid'') = None"
    "ParseIP (TrimSpace '''') = None" by code_simp+
  show "names_client (client_request '' 192.0.2.10 '' ''198.51.100.20'' '''') ''192.0.2.10''"
    by (rule names_client.real_ip, rule pad [of _ 1 _ 1]) simp
  show "names_client (client_request ''invalid'' ''198.51.100.20, 203.0.113.30'' '''') ''198.51.100.20''"
    by (rule names_client.forwarded_first [where entry = "''198.51.100.20''" and proxies = "'' 203.0.113.30''"])
      (use bad pad [of _ 0 _ 0] in simp_all)
  show "names_client (client_request '''' ''198.51.100.20'' '''') ''198.51.100.20''"
    by (rule names_client.forwarded_only) (use bad pad [of _ 0 _ 0] in simp_all)
  show "names_client (client_request ''invalid'' ''also-invalid'' ''[2001:db8::5]:443'') ''2001:db8::5''"
    by (rule names_client.remote_brackets [where port = "''443''"]) (use bad in \<open>simp_all add: is_digit_def\<close>)
  show "names_client (client_request '''' '''' ''203.0.113.40'') ''203.0.113.40''"
    by (rule names_client.remote_bare) (use bad in simp_all)
  show "names_client (client_request '''' '''' ''203.0.113.40:80'') ''203.0.113.40''"
    by (rule names_client.remote_port [where port = "''80''"]) (use bad in \<open>simp_all add: is_digit_def\<close>)
qed

theorem clientIP_sources_witness:
  "clientIP (client_request '' 192.0.2.10 '' ''198.51.100.20'' '''') = mapped 192 0 2 10 \<and>
   clientIP (client_request ''invalid'' ''198.51.100.20, 203.0.113.30'' '''') = mapped 198 51 100 20 \<and>
   clientIP (client_request '''' ''198.51.100.20'' '''') = mapped 198 51 100 20 \<and>
   clientIP (client_request ''invalid'' ''also-invalid'' ''[2001:db8::5]:443'') =
     [32, 1, 13, 184, 0, 0, 0, 0, 0, 0, 0, 0, 0, 0, 0, 5] \<and>
   clientIP (client_request '''' '''' ''203.0.113.40'') = mapped 203 0 113 40 \<and>
   clientIP (client_request '''' '''' ''203.0.113.40:80'') = mapped 203 0 113 40 \<and>
   clientIP (client_request ''invalid'' ''also-invalid'' ''not-an-address'') = []"
proof -
  note named = clientIP_sources [THEN conjunct2, THEN conjunct2, THEN conjunct1, THEN mp, OF conjI]
  note unnamed = clientIP_sources [THEN conjunct2, THEN conjunct2, THEN conjunct2, THEN mp]
  have p: "ParseIP ''192.0.2.10'' = Some (mapped 192 0 2 10)" "ParseIP ''198.51.100.20'' = Some (mapped 198 51 100 20)"
    "ParseIP ''2001:db8::5'' = Some [32, 1, 13, 184, 0, 0, 0, 0, 0, 0, 0, 0, 0, 0, 0, 5]"
    "ParseIP ''203.0.113.40'' = Some (mapped 203 0 113 40)" by code_simp+
  have bad: "ParseIP (TrimSpace ''invalid'') = None" "ParseIP (TrimSpace ''also-invalid'') = None"
    "ParseIP (TrimSpace ''not-an-address'') = None" "SplitHostPort ''not-an-address'' = None" by code_simp+
  have "clientIP (client_request ''invalid'' ''also-invalid'' ''not-an-address'') = []"
    by (rule unnamed) (use bad in simp)
  with named [OF sample_names(1) p(1)] named [OF sample_names(2) p(2)] named [OF sample_names(3) p(2)]
    named [OF sample_names(4) p(3)] named [OF sample_names(5) p(4)] named [OF sample_names(6) p(4)]
  show ?thesis by simp
qed




text \<open>
  A defect of the ring at weights that are not moderate: the capacity \<open>Weight * 160\<close> wraps around
  in 64 bits to a negative number, and \<open>make\<close> panics, so that the constructor does not return the
  error it promises for invalid configurations.
\<close>

definition huge_upstream :: UpstreamConfig where
  "huge_upstream =
     UpstreamConfig_HashConsistent (Some (\<lambda>_. ''k''))
       (Upstream ''http://api.test''
          [Server ''a:80'' [Some (Weight_option (3 * 2 ^ 55))], Server ''b:80'' []])"

theorem huge_weight_panics: "NewTransportE [Some (WithUpstreams sample_rand [huge_upstream])] sample_build = Panic"
proof -
  have "case NewTransportE [Some (WithUpstreams sample_rand [huge_upstream])] sample_build of
      Panic \<Rightarrow> True | Val _ \<Rightarrow> False" by code_simp
  then show ?thesis by (simp split: outcome.splits)
qed

end
