(* ===== verification/Spec2Isabelle.thy ===== *)
theory Spec2Isabelle
  imports Affinity Versions Ring_Pick Transport_Properties
begin

text \<open>
  Verification of the load-balancing HTTP client library cslb (Go, \<open>src/\<close>).

  \<^bold>\<open>The program.\<close> A \<open>Transport\<close> (\<open>src/transport.go\<close>) is an \<open>http.RoundTripper\<close>. Its options register
  upstreams; each upstream owns a \<open>Balancer\<close> of one of seven algorithms over its servers
  (\<open>Peer\<close>, \<open>src/balancer.go\<close>). \<open>RoundTrip\<close> matches a request to an upstream by scheme and host, asks
  the balancer for a per-request \<open>Picker\<close>, and repeats: pick a server, send the request there,
  judge the answer, report it with \<open>Done\<close> or \<open>doneNeutral\<close>, and try the next server if that is
  allowed. All pickers embed the round-robin picker (\<open>src/roundrobin.go\<close>), which marks tried
  servers, counts connections and failures in the shared peers, and falls back to the backup
  group. \<open>PickOne\<close> and \<open>PickWithRetry\<close> (\<open>src/balancer.go\<close>) offer the balancers without HTTP.

  \<^bold>\<open>State.\<close> Peers are shared objects, so they live in a store: a \<open>world\<close> maps addresses (\<open>peer_id\<close>) to
  \<open>Peer\<close> records and carries the clock, the number of readings of it and of random draws. A
  round trip works on a \<open>net\<close>: the store, the streams that stand for bodies and files, and the
  history of calls, cancellations and removed files. A Go pointer that may be nil is an
  option; a Go map is an association list or a function; \<open>int\<close> is an integer with the 64-bit
  wrap-around written out (\<open>i64\<close>), \<open>uint32\<close> and \<open>byte\<close> are words. A panic (division by zero,
  index out of range, method call on nil) is the outcome \<open>Panic\<close>, a returned error is a value
  of type \<open>error\<close>.

  \<^bold>\<open>Theories of the balancers.\<close>
  \<^item> \<open>Cslb_Prelude\<close>: integers, outcomes and shared lemmas. \<open>Loops\<close>: the locale of loops that are
    counted with fuel (total correctness, more fuel changes nothing).
  \<^item> \<open>Peers\<close>: \<open>Peer\<close>, \<open>PeerGroup\<close>, \<open>BuildGroups\<close>, \<open>peerAvailable\<close> (\<open>balancer.go\<close>, \<open>util.go\<close>). \<open>Group_Build\<close>: what
    \<open>BuildGroups\<close> establishes.
  \<^item> \<open>Smooth_Weighted\<close>: \<open>smoothWeightedPeer\<close> and the reference round it computes; the locale
    \<open>eligibility\<close> for the test it is given. \<open>Swrr_Balance\<close>: the weights stay balanced and bounded, and
    a period of rounds is fair.
  \<^item> \<open>Round_Robin\<close>: balancer and picker of \<open>roundrobin.go\<close>, the whole of \<open>done\<close>. \<open>Pick_Contract\<close>: the
    locales \<open>group_picker\<close> and \<open>picker\<close>, the contract of \<open>Pick\<close>, proved once. \<open>Done_Contract\<close>: the effect
    of a report.
  \<^item> \<open>Least_Conn\<close>, \<open>Ip_Hash\<close>, \<open>Key_Hash\<close>, \<open>Consistent_Hash\<close>, \<open>Random_Pick\<close>: the other algorithms
    (\<open>leastconn.go\<close>, \<open>iphash.go\<close>, \<open>hash.go\<close>, \<open>chash.go\<close>, \<open>random.go\<close>), each an interpretation of \<open>picker\<close>;
    \<open>Hash_Candidates\<close> (with the locale \<open>section_picker\<close>) and \<open>Crc32\<close> hold what they share.
  \<^item> \<open>Errors\<close>, \<open>Balancer\<close>: error values; the interfaces as datatypes over the implementing types,
    \<open>PickOne\<close> and \<open>PickWithRetry\<close>. \<open>Retry\<close>: the loop of \<open>PickWithRetry\<close>.
  \<^item> \<open>Sections\<close>: the critical sections of one \<open>Pick\<close> (\<open>Pick_section\<close>), the contract of each, and that
    a whole \<open>Pick\<close> is its sections. \<open>Interleaving\<close>: a step relation in which the critical sections of
    the picks and reports of any number of requests follow each other in any order, and its
    invariant. \<open>Versions\<close>: the version counter of \<open>checked\<close> counts every write of these steps.
  \<^item> \<open>Fairness\<close>, \<open>Slots\<close>, \<open>Affinity\<close>, \<open>Ring\<close>: shares of round-robin and of weighted slots,
    stickiness of the hash balancers, the consistent-hash ring. \<open>Ring_Pick\<close>: where a keyed \<open>Pick\<close>
    starts on the ring. \<open>Sample\<close>: instances.

  \<^bold>\<open>Theories of the transport\<close> (all of \<open>transport.go\<close>).
  \<^item> \<open>Http\<close>: requests, responses, streams and the surroundings of a round trip. \<open>Client_Ip\<close>: \<open>clientIP\<close>
    with the parsers of the standard library. \<open>Url\<close>: \<open>url.Parse\<close>.
  \<^item> \<open>Config\<close>: option types, builders, options, \<open>validate\<close>, \<open>addPeer\<close>, \<open>normalize\<close>, \<open>registerUpstream\<close>,
    \<open>newBalancer\<close>, \<open>NewTransportE\<close>. \<open>Registration\<close>: which upstream blocks are accepted, stated without
    loops. \<open>Transport_Build\<close>: the invariant of a transport under construction, and the refinement
    of an abstract routing table (\<open>abs_transport\<close>, \<open>spec_add\<close>).
  \<^item> \<open>Body_Replay\<close>: \<open>prepareBody\<close>, \<open>readBody\<close> and \<open>prepareSpilledBody\<close>; no stream or file leaks, and every
    attempt reads the same bytes.
  \<^item> \<open>Round_Trip\<close>: \<open>RoundTrip\<close> with \<open>decideAttempt\<close>, \<open>requestWasSent\<close>, \<open>newPicker\<close> and one attempt.
    \<open>Round_Trip_Loop\<close>: the cases of an attempt and of an iteration, and the rule for the loop.
    \<open>Round_Trip_Facts\<close>: connections, calls, cancel functions, success. \<open>Body_Closing\<close>: which streams
    a whole round trip closes.
  \<^item> \<open>Transport_Sample\<close>: a transport built by \<open>NewTransportE\<close>. \<open>Transport_Properties\<close>: the properties C26
    to C40. The properties C1 to C25, on the balancers, are in this theory.

  \<^bold>\<open>What is shown.\<close> Selection: C1, C4, C5, C9 to C11, C17 to C19. Shared state under interleaving:
  C2 to C4. Reports and health: C12 to C15. Retries without HTTP: C6 to C8. Construction: C16, C26,
  C27. The ring: C21 to C25. Round trips: C28 to C35. Bodies: C36 to C38. Client address: C39, and with
  IP-hash C40.
  Defects of the code: C20 (a total weight that is a multiple of \<open>2 ^ 32\<close> makes the hash
  balancers panic), C38 (the largest body buffer loses the body), and \<open>huge_weight_panics\<close> (a weight
  whose ring capacity wraps around to a negative number makes the constructor panic).

  \<^bold>\<open>Fuel and bounds.\<close> The loops of \<open>PickWithRetry\<close> and \<open>RoundTrip\<close> have no bound in the code. In the model
  they count iterations; C6 and C28 show that one more than the number of servers is
  enough, because every iteration picks a server that was not tried, and that more changes
  nothing. The other loops are structural or have a proved measure. C26 to C33 and C36 are about
  upstream blocks that are \<open>moderate\<close>: their weights sum up to less than \<open>2 ^ 31\<close>, which keeps the
  divisors of C20 positive and the arithmetic exact. The code has no such limit. C4 rests on
  \<open>balancer_wf\<close>, which for the hash balancers includes that divisors are not zero.

  \<^bold>\<open>Parameters.\<close> The clock, the random source, the callbacks of the user, the round trippers of
  \<open>net/http\<close>, the context of a request and the file system are parameters. A round tripper may answer
  anything, change every stream and the store; where a property needs more (other
  requests give their connections back, a server answers), the hypothesis is named.

  \<^bold>\<open>Not modelled.\<close> Implementations of \<open>Balancer\<close> and \<open>Picker\<close> outside the package. The operands of
  formatted errors: an error made by \<open>fmt.Errorf\<close> is its format string. Panics raised by the
  callbacks of the user, and callbacks (retry conditions, key functions) that keep state: they are
  functions. Limits of memory: \<open>make\<close> panics for a negative capacity only. \<open>io.Copy\<close> is one write,
  which may fail after a part. The memory model: what happens while a mutex is held is one step, and
  the model interleaves these steps; \<open>PickWithRetry\<close> and \<open>RoundTrip\<close> are modelled as one sequential
  run in which a \<open>Pick\<close> is a whole (\<open>Pick_steps\<close> of \<open>Interleaving\<close> shows that this is a run of steps)
  and other requests
  act while a callback or a round tripper runs. The parts of a URL beyond scheme and host are one text
  (\<open>url_tail\<close>), which the package never reads. Fields of \<open>http.Transport\<close> that the package does not set or
  read, such as the proxy. The order in which \<open>NewTransportE\<close> walks its map of upstreams, which
  decides only the order of equal errors. For \<open>url.Parse\<close>, the stricter checks of IPv6 literals
  in newer versions of Go.
\<close>

section \<open>Selection\<close>

text \<open>
  C1. The selection loop of smooth weighted round-robin (\<open>smoothWeightedPeer\<close>, an imperative
  scan that updates weights, a running total and the best peer so far) computes the reference
  round: among the eligible peers, in list order, every peer is credited with its effective
  weight, the first peer of maximal credit wins, and the winner is debited the total.
\<close>

theorem smoothWeightedPeer_reference:
  assumes "distinct ps"
  shows "smoothWeightedPeer ps (rr_eligible rr now) w =
    (let E = filter (\<lambda>p. rr_ok rr now (heap w p) p) ps
     in (fst (swrr_round E (heap w)), w\<lparr>heap := snd (swrr_round E (heap w))\<rparr>))"
  by (simp add: rr_test.smoothWeightedPeer_round [OF assms] accepted_rr Let_def)

theorem smoothWeightedPeer_reference_witness:
  "distinct [0, 1, 2 :: nat] \<and>
   fst (smoothWeightedPeer [0, 1, 2]
          (rr_eligible (RoundRobin_NewPicker (sample_rr [5, 1, 1])) 0) (sample_start [5, 1, 1])) = Some 0"
proof -
  have "fst (swrr_round (filter (\<lambda>p. rr_ok (RoundRobin_NewPicker (sample_rr [5, 1, 1])) 0
      (heap (sample_start [5, 1, 1]) p) p) [0, 1, 2]) (heap (sample_start [5, 1, 1]))) = Some 0"
    by code_simp
  with smoothWeightedPeer_reference
    [of "[0, 1, 2]" "RoundRobin_NewPicker (sample_rr [5, 1, 1])" 0 "sample_start [5, 1, 1]"]
  show ?thesis by (simp add: Let_def)
qed

text \<open>
  C2. However the requests of several callers interleave on one balancer of any algorithm,
  between the critical sections of one \<open>Pick\<close> too, the connection counter of every peer equals the number of picks not yet reported, and a
  configured connection limit is never exceeded.
\<close>

theorem conns_count_and_limit:
  assumes "(lb_step b)\<^sup>*\<^sup>* (start_state w0) s" and "fresh_store b w0" and "balancer_wf b"
  shows "conns (heap (store s) p) = i64 (int (outstanding s p)) \<and>
    (0 < MaxConns (heap w0 p) \<longrightarrow> int (outstanding s p) \<le> MaxConns (heap (store s) p))"
  using lb_inv_reachable [OF assms] by (auto simp: lb_inv_def settings_def)

theorem conns_count_and_limit_witness:
  "\<exists>s. (lb_step (balRoundRobin (sample_rr [5, 1, 1])))\<^sup>*\<^sup>* (start_state (sample_start [5, 1, 1])) s \<and>
     outstanding s 0 = 1 \<and> conns (heap (store s) 0) = 1"
proof -
  obtain s where s: "(lb_step (balRoundRobin (sample_rr [5, 1, 1])))\<^sup>*\<^sup>*
      (start_state (sample_start [5, 1, 1])) s" "outstanding s 0 = 1"
    using sample_reach by blast
  with conns_count_and_limit [OF s(1) sample_setup, of 0] show ?thesis by auto
qed

text \<open>
  C3. In every such state the weights stay within bounds that depend on the configuration
  only: with \<open>n\<close> peers of total weight \<open>T\<close> the current weights sum up to zero and each lies
  between \<open>-T * (n - 1)\<close> and \<open>T * (n - 1)\<close>, and effective weights stay between zero and the
  configured weight, so that 64-bit arithmetic never wraps.
\<close>

theorem weights_bounded:
  assumes "(lb_step b)\<^sup>*\<^sup>* (start_state w0) s" and "fresh_store b w0" and "balancer_wf b"
    and "ps \<in> group_lists b" and "p \<in> set ps"
  shows "\<bar>currentWeight (heap (store s) p)\<bar> \<le>
      weight_sum ps (heap (store s)) * (int (card (set ps)) - 1) \<and>
    (\<Sum>q \<in> set ps. currentWeight (heap (store s) q)) = 0 \<and>
    0 \<le> effectiveWeight (heap (store s) p) \<and>
    effectiveWeight (heap (store s) p) \<le> Weight (heap (store s) p)"
proof -
  have b: "balanced ps (heap (store s))"
    using lb_inv_reachable [OF assms(1-3)] assms(4) by (simp add: lb_inv_def)
  then have "weight_ok (heap (store s) p)"
    "(\<Sum>q \<in> set ps. currentWeight (heap (store s) q)) = 0"
    using assms(5) by (simp_all add: balanced_def ledger_ok_def)
  with currentWeight_bounds [OF b assms(5)] show ?thesis by (simp add: weight_ok_def abs_le_iff)
qed

theorem weights_bounded_witness:
  "\<exists>s. (lb_step (balRoundRobin (sample_rr [5, 1, 1])))\<^sup>*\<^sup>* (start_state (sample_start [5, 1, 1])) s \<and>
     outstanding s 0 = 1 \<and>
     \<bar>currentWeight (heap (store s) 1)\<bar> \<le> weight_sum [0, 1, 2] (heap (store s)) * 2"
proof -
  obtain s where s: "(lb_step (balRoundRobin (sample_rr [5, 1, 1])))\<^sup>*\<^sup>*
      (start_state (sample_start [5, 1, 1])) s" "outstanding s 0 = 1"
    using sample_reach by blast
  have u: "[0..<3] = [0, 1, 2 :: nat]" by (simp add: upt_rec)
  have "[0, 1, 2] \<in> group_lists (balRoundRobin (sample_rr [5, 1, 1]))"
    by (simp add: group_lists_def sample_groups u)
  from weights_bounded [OF s(1) sample_setup this, of 1] s show ?thesis by auto
qed

text \<open>
  C4. In every such state \<open>Pick\<close> of any picker in use returns without panic and meets the
  contract: it returns an untried, enabled peer of its groups below its connection limit and
  takes one connection of it, or returns nil and changes nothing. So does every critical
  section of a \<open>Pick\<close> that other requests have interrupted: it ends the pick with such a peer or
  with nil, or goes on to the next section and changes nothing.
\<close>

theorem Pick_meets_contract:
  assumes "(lb_step b)\<^sup>*\<^sup>* (start_state w0) s" and "fresh_store b w0" and "balancer_wf b"
    and "pickers s r = Some pk"
  shows "(\<exists>res pk' w'. Pick pk (store s) = Val (res, pk', w') \<and>
      pick_spec (embedded pk) (store s) res (embedded pk') w') \<and>
   (\<exists>e pk' w'. Pick_section ph pk (store s) = Val (e, pk', w') \<and>
      (case e of
         Ends res \<Rightarrow> section_result (embedded pk) (store s) res (embedded pk') w'
       | GoesOn ph' \<Rightarrow> pass_spec (embedded pk) (store s) (embedded pk') w'))"
proof -
  have wf: "picker_wf pk" "rr_wf (embedded pk)"
    using lb_inv_reachable [OF assms(1-3)] assms(4) by (auto simp: lb_inv_def picker_of_def)
  show ?thesis
    using any_picker.pick_ok [of pk "store s"] wf by (cases rule: Pick_section_ok [OF wf, of ph "store s"]) auto
qed

theorem Pick_meets_contract_witness:
  "\<exists>s pk res pk' w'. outstanding s 0 = 1 \<and> pickers s 0 = Some pk \<and>
     Pick pk (store s) = Val (res, pk', w') \<and>
     pick_spec (embedded pk) (store s) res (embedded pk') w'"
proof -
  obtain s pk where s: "(lb_step (balRoundRobin (sample_rr [5, 1, 1])))\<^sup>*\<^sup>*
      (start_state (sample_start [5, 1, 1])) s" "outstanding s 0 = 1" "pickers s 0 = Some pk"
    using sample_reach by blast
  with Pick_meets_contract [OF s(1) sample_setup s(3)] show ?thesis by blast
qed

text \<open>
  C5. Fairness: on a healthy round-robin group whose weights sum up to \<open>T\<close>, as many
  successive requests as \<open>T\<close> select every server exactly as often as its weight, and leave
  every current weight at zero, ready for the next period.
\<close>

theorem round_robin_fair:
  assumes "plain b" and "full_speed (Peers (primary b)) (heap w)"
    and "healthy_group (Peers (primary b)) w"
    and "\<forall>p \<in> set (Peers (primary b)). currentWeight (heap w p) = 0"
  shows "\<exists>rs w'. serve_run (nat (weight_sum (Peers (primary b)) (heap w))) (balRoundRobin b) w =
      Val (rs, w') \<and>
    (\<forall>p \<in> set (Peers (primary b)).
       int (count_list rs (Some p)) = Weight (heap w p) \<and> currentWeight (heap w' p) = 0)"
  using serve_period [OF assms(1) refl assms(2-4)] by blast

theorem round_robin_fair_witness:
  "\<exists>rs w'. serve_run 7 (balRoundRobin (sample_rr [5, 1, 1])) (sample_start [5, 1, 1]) = Val (rs, w') \<and>
     count_list rs (Some 0) = 5 \<and> count_list rs (Some 1) = 1 \<and> count_list rs (Some 2) = 1"
proof -
  let ?b = "sample_rr [5, 1, 1]" and ?w = "sample_start [5, 1, 1]"
  have ps: "Peers (primary ?b) = [0..<length [5, 1, 1 :: int]]" by (simp add: sample_groups)
  have T: "weight_sum [0..<length [5, 1, 1 :: int]] (heap ?w) = 7"
    by (subst sample_weight_sum) auto
  have W: "Weight (heap ?w 0) = 5" "Weight (heap ?w 1) = 1" "Weight (heap ?w 2) = 1"
    by (simp_all add: sample_start_weight)
  have "plain ?b" by (simp add: plain_def sample_groups)
  moreover have "full_speed [0..<length [5, 1, 1 :: int]] (heap ?w)"
    by (rule sample_full_speed) auto
  moreover have "\<forall>p \<in> set [0..<length [5, 1, 1 :: int]]. currentWeight (heap ?w p) = 0"
    by (simp add: sample_start_peer)
  ultimately obtain rs w' where rs: "serve_run 7 (balRoundRobin ?b) ?w = Val (rs, w')"
    "int (count_list rs (Some 0)) = Weight (heap ?w 0)"
    "int (count_list rs (Some 1)) = Weight (heap ?w 1)"
    "int (count_list rs (Some 2)) = Weight (heap ?w 2)"
    using round_robin_fair [of ?b ?w, unfolded ps T] sample_healthy [of "[5, 1, 1]"]
    by (auto simp: numeral_2_eq_2)
  with W show ?thesis by auto
qed

section \<open>Retrying\<close>

text \<open>
  C6. \<open>PickWithRetry\<close> returns: whatever the callback answers and whatever it or other requests
  do to the shared state meanwhile, the loop ends after at most one attempt per server.
\<close>

theorem PickWithRetry_returns:
  assumes "balancer_wf b" and "peer_count b < fuel"
  shows "\<exists>res. PickWithRetry fuel (Some b) (Some tryFunc) w = Some (Val res)"
proof -
  have "picker_of b (NewPicker b)" by (rule NewPicker_of [OF assms(1)])
  moreover have "remaining (embedded (NewPicker b)) < fuel"
    using NewPicker_remaining assms(2) by (rule le_less_trans)
  ultimately show ?thesis
    using retry_loop_returns [of "NewPicker b"] by (simp add: picker_of_def PickWithRetry_def)
qed

theorem PickWithRetry_returns_witness:
  "peer_count (balRoundRobin (sample_rr [5, 1, 1])) < 4 \<and>
   (\<exists>res. PickWithRetry 4 (Some (balRoundRobin (sample_rr [5, 1, 1])))
      (Some (\<lambda>a u. (Some (externalError 0), u))) (sample_start [5, 1, 1]) = Some (Val res))"
proof -
  have "peer_count (balRoundRobin (sample_rr [5, 1, 1])) < 4"
    by (simp add: peer_count_def sample_groups)
  with PickWithRetry_returns [OF sample_balancer_wf] show ?thesis by blast
qed

text \<open>
  C7. When the callback leaves the store alone, \<open>PickWithRetry\<close> gives back every connection it
  took and changes no setting of a server, on success and on failure.
\<close>

theorem PickWithRetry_conns:
  assumes "balancer_wf b" and "\<And>a u. heap (snd (tryFunc a u)) = heap u" and "conns_in_range w"
    and "PickWithRetry fuel (Some b) (Some tryFunc) w = Some (Val (r, e, w'))"
  shows "conns (heap w' q) = conns (heap w q) \<and> settings (heap w' q) = settings (heap w q)"
  using retry_loop_conns [of "NewPicker b" tryFunc w fuel r e w'] NewPicker_of(1) [OF assms(1)] assms(2-4)
  by (simp add: picker_of_def PickWithRetry_def)

theorem PickWithRetry_conns_witness:
  "\<exists>r e w'. PickWithRetry 4 (Some (balRoundRobin (sample_rr [5, 1, 1])))
      (Some (\<lambda>a u. (Some (externalError 0), u))) (sample_start [5, 1, 1]) = Some (Val (r, e, w')) \<and>
     (\<forall>q. conns (heap w' q) = conns (heap (sample_start [5, 1, 1]) q))"
proof -
  let ?b = "balRoundRobin (sample_rr [5, 1, 1])" and ?f = "\<lambda>a u. (Some (externalError 0), u)"
  let ?w = "sample_start [5, 1, 1]"
  have "conns_in_range ?w"
    using sample_setup(1) by (simp add: conns_in_range_def fresh_store_def in_i64_def)
  moreover have "\<exists>res. PickWithRetry 4 (Some ?b) (Some ?f) ?w = Some (Val res)"
    using retry_loop_returns [of "NewPicker ?b" 4 ?f ?w] NewPicker_of(1) [OF sample_balancer_wf]
      NewPicker_remaining [of ?b]
    by (simp add: picker_of_def PickWithRetry_def peer_count_def sample_groups)
  then obtain r e w' where "PickWithRetry 4 (Some ?b) (Some ?f) ?w = Some (Val (r, e, w'))"
    by (metis prod_cases3)
  ultimately show ?thesis
    using PickWithRetry_conns [OF sample_balancer_wf, of ?f ?w 4 "[5, 1, 1]" r e w'] by fastforce
qed

text \<open>
  C8. \<open>PickWithRetry\<close> finds a working server: if a server of the primary or the backup group is
  enabled, has no connection or failure limit, and the callback succeeds on its address, then
  the call succeeds, however many other servers fail first.
\<close>

theorem PickWithRetry_finds:
  assumes "balancer_wf b" and "peer_count b < fuel"
    and "\<And>a u q. settings (heap (snd (tryFunc a u)) q) = settings (heap u q)"
    and "\<And>u. fst (tryFunc (Addr (heap w p)) u) = None"
    and "always_ready (heap w p)" and "p \<in> pool (embedded (NewPicker b))"
  shows "\<exists>q w'. PickWithRetry fuel (Some b) (Some tryFunc) w = Some (Val (Some q, None, w'))"
proof -
  have "picker_of b (NewPicker b)" by (rule NewPicker_of [OF assms(1)])
  then have wf: "picker_wf (NewPicker b)" "rr_wf (embedded (NewPicker b))"
    by (simp_all add: picker_of_def)
  have fuel: "remaining (embedded (NewPicker b)) < fuel"
    using NewPicker_remaining assms(2) by (rule le_less_trans)
  have c: "p \<in> considered (embedded (NewPicker b))"
    using assms(6) by (simp only: NewPicker_considers)
  show ?thesis
    using retry_loop_finds [where tryFunc = tryFunc and w = w and p = p,
        OF wf fuel assms(3) assms(4) assms(5) refl c NewPicker_considers(2)]
    by (simp add: PickWithRetry_def)
qed

theorem PickWithRetry_finds_witness:
  "\<exists>q w'. PickWithRetry 4 (Some (balRoundRobin (sample_rr [5, 1, 1])))
     (Some (\<lambda>a u. (if a = ''s2'' then None else Some (externalError 0), u))) (ready_start [5, 1, 1]) =
     Some (Val (Some q, None, w'))"
proof -
  let ?b = "balRoundRobin (sample_rr [5, 1, 1])"
  let ?f = "\<lambda>a u. (if a = ''s2'' then None else Some (externalError 0), u :: world)"
  have "peer_count ?b < 4" "2 \<in> pool (embedded (NewPicker ?b))"
    by (simp_all add: peer_count_def sample_groups pool_def NewRRPicker_def RoundRobin_NewPicker_def)
  moreover have "Addr (heap (ready_start [5, 1, 1]) 2) = ''s2''" by code_simp
  moreover have "always_ready (heap (ready_start [5, 1, 1]) 2)" by code_simp
  ultimately show ?thesis
    using PickWithRetry_finds [OF sample_balancer_wf, where tryFunc = ?f and p = 2] by simp
qed

section \<open>What a selection means\<close>

text \<open>
  C9. \<open>Pick\<close> returns nil only if every server it had to consider was tried before, disabled,
  at its connection limit or failed out at a moment of the call; it then changes no server.
\<close>

theorem Pick_nil_unavailable:
  assumes "picker_wf pk" and "rr_wf (embedded pk)" and "Pick pk w = Val (None, pk', w')"
  shows "heap w' = heap w \<and> (\<forall>p \<in> considered (embedded pk). unavailable (embedded pk) w w' p)"
  using Pick_ok [OF assms(1,2), of w] assms(3) by (auto simp: pick_spec_def)

theorem Pick_nil_unavailable_witness:
  "\<exists>pk' w'. Pick (NewPicker (balRoundRobin (sample_rr [5, 1, 1]))) down_start = Val (None, pk', w') \<and>
     unavailable (embedded (NewPicker (balRoundRobin (sample_rr [5, 1, 1])))) down_start w' 1"
proof -
  let ?pk = "NewPicker (balRoundRobin (sample_rr [5, 1, 1]))"
  have wf: "picker_wf ?pk" "rr_wf (embedded ?pk)"
    using NewPicker_of(1) [OF sample_balancer_wf, of "[5, 1, 1]"] by (simp_all add: picker_of_def)
  have "case Pick ?pk down_start of Val (None, _, _) \<Rightarrow> True | _ \<Rightarrow> False" by code_simp
  then obtain pk' w' where p: "Pick ?pk down_start = Val (None, pk', w')"
    by (auto split: outcome.splits option.splits)
  have "1 \<in> considered (embedded ?pk)"
    by (simp add: considered_def RoundRobin_NewPicker_def NewRRPicker_def sample_groups)
  with Pick_nil_unavailable [OF wf p] p show ?thesis by blast
qed

text \<open>
  C10. A backup server is used only when no primary server is available: if a picker that has
  not switched to the backup group yet returns a backup server, every primary server was
  tried before, disabled, at its connection limit or failed out.
\<close>

theorem backup_only_without_primary:
  assumes "picker_wf pk" and "rr_wf (embedded pk)" and "Pick pk w = Val (Some p, pk', w')"
    and "\<not> backupPhase (embedded pk)" and "p \<in> set (backup_peers (embedded pk))"
  shows "backupPhase (embedded pk') \<and>
    (\<forall>q \<in> set (Peers (rr_primary (embedded pk))). unavailable (embedded pk) w w' q)"
  using Pick_ok [OF assms(1,2), of w] assms(3-5) by (auto simp: pick_spec_def)

theorem backup_only_without_primary_witness:
  "\<exists>pk' w'. Pick (NewPicker (balRoundRobin backup_rr)) backup_start = Val (Some 2, pk', w') \<and>
     unavailable (embedded (NewPicker (balRoundRobin backup_rr))) backup_start w' 0"
proof -
  let ?pk = "NewPicker (balRoundRobin backup_rr)"
  have wf: "picker_wf ?pk" "rr_wf (embedded ?pk)"
    using NewPicker_of(1) [OF backup_balancer_wf] by (simp_all add: picker_of_def)
  have "picked_peer (Pick ?pk backup_start) = Some 2" by code_simp
  from picked_peerD [OF this] obtain pk' w' where p: "Pick ?pk backup_start = Val (Some 2, pk', w')"
    by blast
  have "\<not> backupPhase (embedded ?pk)" by code_simp
  moreover have "2 \<in> set (backup_peers (embedded ?pk))" by code_simp
  moreover have "0 \<in> set (Peers (rr_primary (embedded ?pk)))" by code_simp
  ultimately show ?thesis using backup_only_without_primary [OF wf p] p by blast
qed

text \<open>
  C11. Least-conn returns a server of least load: no eligible server of the group has fewer
  connections per unit of weight, as long as the cross products fit 64 bits.
\<close>

theorem least_conn_minimal:
  assumes "distinct (Peers grp)" and "loads_fit (set (Peers grp)) (heap w)"
    and "leastConn_pickFromGroup grp rr w = Val (Some p, rr', w')"
    and "q \<in> set (Peers grp)" and "rr_ok rr (clock w (ticks w)) (heap w q) q"
  shows "conns (heap w p) * Weight (heap w q) \<le> conns (heap w q) * Weight (heap w p)"
  using lc_group_least [OF assms] by (simp add: load_le_def)

theorem least_conn_minimal_witness:
  "\<exists>rr' w'. leastConn_pickFromGroup (primary (sample_rr [5, 1, 1]))
      (RoundRobin_NewPicker (sample_rr [5, 1, 1])) loaded_start = Val (Some 1, rr', w') \<and>
     conns (heap loaded_start 1) * Weight (heap loaded_start 0)
       \<le> conns (heap loaded_start 0) * Weight (heap loaded_start 1)"
proof -
  let ?g = "primary (sample_rr [5, 1, 1])" and ?rr = "RoundRobin_NewPicker (sample_rr [5, 1, 1])"
  have "picked_peer (leastConn_pickFromGroup ?g ?rr loaded_start) = Some 1" by code_simp
  from picked_peerD [OF this] obtain rr' w' where
    p: "leastConn_pickFromGroup ?g ?rr loaded_start = Val (Some 1, rr', w')" by blast
  have d: "distinct (Peers ?g)" by code_simp
  have f: "loads_fit (set (Peers ?g)) (heap loaded_start)" by code_simp
  have m: "0 \<in> set (Peers ?g)" by code_simp
  have e: "rr_ok ?rr (clock loaded_start (ticks loaded_start)) (heap loaded_start 0) 0" by code_simp
  from least_conn_minimal [OF d f p m e] p show ?thesis by blast
qed

section \<open>Health\<close>

text \<open>
  C12. A reported failure that reaches \<open>MaxFails\<close> quarantines the server: at every moment within
  \<open>FailTimeout\<close> of the report it counts as failed out, and its effective weight has dropped by
  the share \<open>Weight / MaxFails\<close>, not below zero.
\<close>

theorem failure_quarantines:
  assumes "rr_done (Some p) True False rr w = (rr', w')"
    and "\<not> single (done_group rr (heap w p))"
    and "0 < MaxFails (heap w p)" and "MaxFails (heap w p) \<le> fails (heap w p) + 1"
    and "fails (heap w p) + 1 < 2 ^ 63" and "weight_ok (heap w p)" and "Weight (heap w p) < 2 ^ 63"
    and "time_Sub now (clock w (ticks w)) \<le> FailTimeout (heap w p)"
  shows "failed_out now (heap w' p) \<and> fails (heap w' p) = fails (heap w p) + 1 \<and>
    effectiveWeight (heap w' p) =
      max 0 (effectiveWeight (heap w p) - Weight (heap w p) div MaxFails (heap w p))"
proof -
  have "heap w' p = release_conn (done_failed (clock w (ticks w)) (heap w p))"
    using rr_done_world(1) [OF assms(1)] assms(2) by (simp add: done_peer_def)
  with rr_done_quarantine [OF assms(1-5)] assms(3,8) done_failed_weight [OF assms(6,7)]
  show ?thesis by simp
qed

theorem failure_quarantines_witness:
  "\<exists>rr' w'. rr_done (Some 0) True False (RoundRobin_NewPicker (sample_rr [5, 1, 1]))
      (sample_start [5, 1, 1]) = (rr', w') \<and>
     failed_out 1000000000001 (heap w' 0) \<and> effectiveWeight (heap w' 0) = 0"
proof -
  let ?rr = "RoundRobin_NewPicker (sample_rr [5, 1, 1])" and ?w = "sample_start [5, 1, 1]"
  obtain rr' w' where d: "rr_done (Some 0) True False ?rr ?w = (rr', w')" by fastforce
  have ns: "\<not> single (done_group ?rr (heap ?w 0))" by code_simp
  have m: "0 < MaxFails (heap ?w 0)" by code_simp
  have l: "MaxFails (heap ?w 0) \<le> fails (heap ?w 0) + 1" by code_simp
  have r: "fails (heap ?w 0) + 1 < 2 ^ 63" by code_simp
  have ok: "weight_ok (heap ?w 0)" by code_simp
  have W: "Weight (heap ?w 0) < 2 ^ 63" by code_simp
  have t: "time_Sub 1000000000001 (clock ?w (ticks ?w)) \<le> FailTimeout (heap ?w 0)" by code_simp
  have e: "max 0 (effectiveWeight (heap ?w 0) - Weight (heap ?w 0) div MaxFails (heap ?w 0)) = 0"
    by code_simp
  from failure_quarantines [OF d ns m l r ok W t] d e show ?thesis by simp
qed

text \<open>
  C13. Recovery: when the fail timeout of a server has passed, the request that is then sent to it
  as a probe clears the failure counter if it succeeds.
\<close>

theorem probe_success_recovers:
  assumes "commitPeer p now rr w = (rr1, w1)"
    and "FailTimeout (heap w p) < time_Sub now (checked (heap w p))"
    and "accessed (heap w p) \<le> checked (heap w p)" and "0 \<le> FailTimeout (heap w p)"
  shows "fails (heap (snd (RRPicker_Done (Some p) False rr1 w1)) p) = 0"
proof -
  obtain rr2 w2 where d: "rr_done (Some p) False False rr1 w1 = (rr2, w2)" by fastforce
  from probe_success_clears [OF assms this] d show ?thesis by (simp add: RRPicker_Done_def)
qed

theorem probe_success_recovers_witness:
  "fails (heap (failed_start [5, 1, 1]) 0) = 1 \<and>
   fails (heap (snd (RRPicker_Done (Some 0) False
     (fst (commitPeer 0 1000000000000 (RoundRobin_NewPicker (sample_rr [5, 1, 1])) (failed_start [5, 1, 1])))
     (snd (commitPeer 0 1000000000000 (RoundRobin_NewPicker (sample_rr [5, 1, 1])) (failed_start [5, 1, 1])))))
     0) = 0"
proof -
  let ?rr = "RoundRobin_NewPicker (sample_rr [5, 1, 1])" and ?w = "failed_start [5, 1, 1]"
  let ?now = "1000000000000 :: time"
  have c: "commitPeer 0 ?now ?rr ?w = (fst (commitPeer 0 ?now ?rr ?w), snd (commitPeer 0 ?now ?rr ?w))"
    by simp
  have t: "FailTimeout (heap ?w 0) < time_Sub ?now (checked (heap ?w 0))" by code_simp
  have a: "accessed (heap ?w 0) \<le> checked (heap ?w 0)" by code_simp
  have p: "0 \<le> FailTimeout (heap ?w 0)" by code_simp
  have "fails (heap ?w 0) = 1" by code_simp
  with probe_success_recovers [OF c t a p] show ?thesis by simp
qed

text \<open>
  C14. A neutral report undoes a selection: connections, failure counter and both timestamps of
  every server are what they were before the selection, also when the selection had consumed
  a recovery probe, and the picker holds no probe any more.
\<close>

theorem neutral_report_undoes_selection:
  assumes "commitPeer p now rr w = (rr1, w1)" and "probeChecked rr p = None"
    and "\<not> single (done_group rr1 (heap w1 p))" and "in_i64 (conns (heap w p))"
    and "RRPicker_doneNeutral (Some p) rr1 w1 = (rr2, w2)"
  shows "health (heap w2 q) = health (heap w q) \<and> settings (heap w2 q) = settings (heap w q) \<and>
    probeChecked rr2 p = None"
proof -
  have d: "rr_done (Some p) False True rr1 w1 = (rr2, w2)"
    using assms(5) by (simp add: RRPicker_doneNeutral_def)
  show ?thesis using commit_neutral_health [OF assms(1-3) d assms(4)] by simp
qed

theorem neutral_report_undoes_selection_witness:
  "\<exists>rr1 w1 rr2 w2.
     commitPeer 0 1000000000000 (RoundRobin_NewPicker (sample_rr [5, 1, 1])) (failed_start [5, 1, 1]) =
       (rr1, w1) \<and>
     checked (heap w1 0) = 1000000000000 \<and> RRPicker_doneNeutral (Some 0) rr1 w1 = (rr2, w2) \<and>
     health (heap w2 0) = health (heap (failed_start [5, 1, 1]) 0)"
proof -
  let ?rr = "RoundRobin_NewPicker (sample_rr [5, 1, 1])" and ?w = "failed_start [5, 1, 1]"
  let ?c = "commitPeer 0 1000000000000 ?rr ?w"
  obtain rr1 w1 where c: "?c = (rr1, w1)" by fastforce
  obtain rr2 w2 where d: "RRPicker_doneNeutral (Some 0) rr1 w1 = (rr2, w2)" by fastforce
  have n: "probeChecked ?rr 0 = None" by code_simp
  have "\<not> single (done_group (fst ?c) (heap (snd ?c) 0))" by code_simp
  then have s: "\<not> single (done_group rr1 (heap w1 0))" by (simp add: c)
  have r: "in_i64 (conns (heap ?w 0))" by code_simp
  have "checked (heap (snd ?c) 0) = 1000000000000" by code_simp
  then have "checked (heap w1 0) = 1000000000000" by (simp add: c)
  with neutral_report_undoes_selection [OF c n s r d, of 0] c d show ?thesis by blast
qed

text \<open>
  C15. A neutral report never overwrites a newer outcome. A request selects a server, as a
  recovery probe or not; other requests pick and report, in any order, and one of them reports
  a failure of the server; then the first request reports neutrally. The timestamp \<open>checked\<close> and
  its version counter stay as the others left them, and in particular hold the time of the
  failure if that was the last step. The 64-bit counter distinguishes fewer than \<open>2 ^ 64\<close> steps.
\<close>

theorem neutral_report_keeps_newer:
  assumes "commitPeer p now rr w = (rr1, w1)" and "probeChecked rr p = None"
    and "(other_step ^^ i) w1 wa"
    and "Done (Some p) True pk wa = (pk', wb)" and "\<not> single (done_group (embedded pk) (heap wa p))"
    and "(other_step ^^ j) wb w2" and "i + j + 1 < 2 ^ 64"
    and "RRPicker_doneNeutral (Some p) rr1 w2 = (rr2, w3)"
  shows "checked (heap w3 p) = checked (heap w2 p) \<and> checkedSeq (heap w3 p) = checkedSeq (heap w2 p) \<and>
    (j = 0 \<longrightarrow> checked (heap w3 p) = clock wa (ticks wa))"
proof -
  have "seq probe \<noteq> checkedSeq (heap w2 p)" if "probeChecked rr1 p = Some probe" for probe
    using commit_probe [OF assms(1,2) that] failure_moves_version [OF assms(3-7)] by simp
  then have "checked (heap w3 p) = checked (heap w2 p)" "checkedSeq (heap w3 p) = checkedSeq (heap w2 p)"
    using neutral_keeps_newer [of p False rr1 w2 rr2 w3] assms(8) by (auto simp: RRPicker_doneNeutral_def)
  moreover have "j = 0 \<longrightarrow> w2 = wb" using assms(6) by auto
  ultimately show ?thesis using failure_counted(2) [OF assms(4,5)] by auto
qed

theorem neutral_report_keeps_newer_witness:
  "\<exists>rr1 w1 pk' wb rr2 w3.
     commitPeer 0 1000000000000 (RoundRobin_NewPicker (sample_rr [5, 1, 1])) (failed_start [5, 1, 1]) = (rr1, w1) \<and>
     probeChecked rr1 0 \<noteq> None \<and>
     Done (Some 0) True (NewPicker (balRoundRobin (sample_rr [5, 1, 1]))) w1 = (pk', wb) \<and>
     RRPicker_doneNeutral (Some 0) rr1 wb = (rr2, w3) \<and> checked (heap w3 0) = clock w1 (ticks w1)"
proof -
  let ?rr = "RoundRobin_NewPicker (sample_rr [5, 1, 1])" and ?pk = "NewPicker (balRoundRobin (sample_rr [5, 1, 1]))"
  let ?c = "commitPeer 0 1000000000000 ?rr (failed_start [5, 1, 1])"
  obtain rr1 w1 where c: "?c = (rr1, w1)" by fastforce
  obtain pk' wb where d: "Done (Some 0) True ?pk w1 = (pk', wb)" by fastforce
  obtain rr2 w3 where n: "RRPicker_doneNeutral (Some 0) rr1 wb = (rr2, w3)" by fastforce
  have f: "probeChecked ?rr 0 = None" by code_simp
  have "\<not> single (done_group (embedded ?pk) (heap (snd ?c) 0))" by code_simp
  then have s: "\<not> single (done_group (embedded ?pk) (heap w1 0))" by (simp add: c)
  have "map_option seq (probeChecked (fst ?c) 0) \<noteq> None" by code_simp
  then have pr: "probeChecked rr1 0 \<noteq> None" by (simp add: c)
  have "(other_step ^^ 0) w1 w1" "(other_step ^^ 0) wb wb" by simp_all
  from neutral_report_keeps_newer [OF c f this(1) d s this(2) _ n] have "checked (heap w3 0) = clock w1 (ticks w1)"
    by simp
  with c pr d n show ?thesis by blast
qed

section \<open>Construction\<close>

text \<open>
  C16. \<open>BuildGroups\<close> puts the non-nil servers, in order, into the primary and the backup group,
  brings every one of them to its initial state (positive weight, full effective weight,
  current weight zero), leaves all other servers alone, sums the weights of each group up in
  64 bits, and establishes the invariants on which the pickers rely.
\<close>

theorem BuildGroups_establishes:
  assumes "BuildGroups ps w = (p, b, w')" and "distinct (pointers ps)"
  shows "groups_wf p b \<and> Peers p = primaries ps w \<and> balanced (Peers p) (heap w') \<and>
    single p = (backups ps w = [] \<and> length (primaries ps w) = 1) \<and>
    (b = None \<longleftrightarrow> backups ps w = []) \<and>
    (\<forall>g. b = Some g \<longrightarrow> Peers g = backups ps w \<and> balanced (Peers g) (heap w') \<and>
       TotalWeight g = i64 (weight_sum (Peers g) (heap w'))) \<and>
    TotalWeight p = i64 (weight_sum (Peers p) (heap w')) \<and>
    (\<forall>q. heap w' q = (if q \<in> set (pointers ps) then peer_init (heap w q) else heap w q))"
proof -
  have "Peers p = primaries ps w" "single p = (backups ps w = [] \<and> length (primaries ps w) = 1)"
    "b = None \<longleftrightarrow> backups ps w = []" "\<forall>g. b = Some g \<longrightarrow> Peers g = backups ps w"
    using assms(1) by (auto simp: BuildGroups_eq Let_def split: if_splits)
  moreover have "heap w' q = (if q \<in> set (pointers ps) then peer_init (heap w q) else heap w q)" for q
    using BuildGroups_heap [OF assms(1)] by (simp add: init_all_def)
  ultimately show ?thesis
    using BuildGroups_groups_wf [OF assms] BuildGroups_balanced [OF assms(1)] BuildGroups_weights [OF assms]
    by blast
qed

theorem BuildGroups_establishes_witness:
  "\<exists>p b w'. BuildGroups [Some 0, None, Some 1, Some 2] backup_world = (p, b, w') \<and>
     Peers p = [0, 1] \<and> balanced [0, 1] (heap w')"
proof -
  obtain p b w' where g: "BuildGroups [Some 0, None, Some 1, Some 2] backup_world = (p, b, w')"
    by (metis prod_cases3)
  have "primaries [Some 0, None, Some 1, Some 2] backup_world = [0, 1]" by code_simp
  moreover have "distinct (pointers [Some 0, None, Some 1, Some (2 :: nat)])" by simp
  ultimately have "Peers p = [0, 1]" "balanced (Peers p) (heap w')"
    using BuildGroups_establishes [OF g] by metis+
  with g show ?thesis by metis
qed

section \<open>Weighted slots\<close>

text \<open>
  C17. The bisection over cumulative weights in \<open>randomSelect\<close> returns the same server as the
  linear walk along the weights that the hash balancers use, for every draw in range.
\<close>

theorem randomSelect_is_walk:
  assumes "slots_ok h (Peers grp)" and "ranges (rp_balancer pk) = build_ranges h (Peers grp) 0"
    and "TotalWeight grp = (\<Sum>p\<leftarrow>Peers grp. Weight (h p))"
    and "0 \<le> intn (rp_balancer pk) (draws w) (TotalWeight grp)"
    and "intn (rp_balancer pk) (draws w) (TotalWeight grp) < TotalWeight grp"
  shows "randomSelect grp pk w =
    Val (weight_slot h (Peers grp) (intn (rp_balancer pk) (draws w) (TotalWeight grp)),
         w\<lparr>draws := Suc (draws w)\<rparr>)"
  using assms by (rule randomSelect_walk)

theorem randomSelect_is_walk_witness:
  "randomSelect (primary (rd_rr (sample_random [5, 3, 2] 6)))
     (Random_NewPicker (sample_random [5, 3, 2] 6)) (sample_start [5, 3, 2]) =
     Val (Some 1, (sample_start [5, 3, 2])\<lparr>draws := 1\<rparr>)"
proof -
  let ?r = "sample_random [5, 3, 2] 6" and ?w = "sample_start [5, 3, 2]"
  let ?g = "primary (rd_rr ?r)" and ?pk = "Random_NewPicker ?r"
  have s: "slots_ok (heap ?w) (Peers ?g)" by code_simp
  have r: "ranges (rp_balancer ?pk) = build_ranges (heap ?w) (Peers ?g) 0" by code_simp
  have t: "TotalWeight ?g = (\<Sum>p\<leftarrow>Peers ?g. Weight (heap ?w p))" by code_simp
  have x: "0 \<le> intn (rp_balancer ?pk) (draws ?w) (TotalWeight ?g)" by code_simp
  have y: "intn (rp_balancer ?pk) (draws ?w) (TotalWeight ?g) < TotalWeight ?g" by code_simp
  have v: "weight_slot (heap ?w) (Peers ?g) (intn (rp_balancer ?pk) (draws ?w) (TotalWeight ?g)) = Some 1"
    by code_simp
  have "draws ?w = 0" by code_simp
  with randomSelect_is_walk [OF s r t x y] v show ?thesis by simp
qed

text \<open>
  C18. Exact shares: of the slots \<open>0 .. T - 1\<close> every server owns exactly as many as its weight,
  so a uniform draw or hash selects it with probability weight by total weight.
\<close>

theorem slot_shares:
  assumes "slots_ok h ps" and "distinct ps" and "p \<in> set ps"
  shows "int (card {x. 0 \<le> x \<and> x < (\<Sum>p\<leftarrow>ps. Weight (h p)) \<and> weight_slot h ps x = Some p}) =
    Weight (h p)"
  using assms by (rule weight_slot_share)

theorem slot_shares_witness:
  "int (card {x. 0 \<le> x \<and> x < (\<Sum>p\<leftarrow>[0, 1, 2]. Weight (heap (sample_start [5, 3, 2]) p)) \<and>
     weight_slot (heap (sample_start [5, 3, 2])) [0, 1, 2] x = Some 1}) = 3"
proof -
  have "slots_ok (heap (sample_start [5, 3, 2])) [0, 1, 2]" by code_simp
  moreover have "Weight (heap (sample_start [5, 3, 2]) 1) = 3" by code_simp
  ultimately show ?thesis
    using slot_shares [of "heap (sample_start [5, 3, 2])" "[0, 1, 2]" 1] by simp
qed

section \<open>Hashing\<close>

text \<open>
  C19. IP-hash is sticky per IPv4 /24 network: two clients whose addresses, in 4-byte or
  IPv4-mapped 16-byte form, agree in the first three bytes are sent to the same server in the
  same state, and leave the same state behind.
\<close>

theorem ip_hash_sticky:
  assumes "same_net a b"
  shows "ipHashPicker_Pick (NewPickerForIP b h) w =
    wrap_pick (\<lambda>pk. pk\<lparr>clientIP_of := b\<rparr>) (ipHashPicker_Pick (NewPickerForIP a h) w)"
  using assms by (rule same_net_pick)

theorem ip_hash_sticky_witness:
  "picked_peer (ipHashPicker_Pick (NewPickerForIP (replicate 10 0 @ [255, 255, 192, 0, 2, 254])
       \<lparr>ip_rr = sample_rr [5, 3, 2]\<rparr>) (sample_start [5, 3, 2])) = Some 1 \<and>
   picked_peer (ipHashPicker_Pick (NewPickerForIP [192, 0, 2, 1]
       \<lparr>ip_rr = sample_rr [5, 3, 2]\<rparr>) (sample_start [5, 3, 2])) = Some 1"
proof -
  let ?a = "[192, 0, 2, 1] :: byte list"
  let ?b = "replicate 10 0 @ [255, 255, 192, 0, 2, 254] :: byte list"
  have n: "same_net ?a ?b" by code_simp
  have "picked_peer (ipHashPicker_Pick (NewPickerForIP ?a \<lparr>ip_rr = sample_rr [5, 3, 2]\<rparr>)
      (sample_start [5, 3, 2])) = Some 1" by code_simp
  then show ?thesis
    unfolding ip_hash_sticky [OF n]
    by (auto simp: picked_peer_def wrap_pick_def split: outcome.splits)
qed

text \<open>
  C20. A defect of hashing: \<open>hash % uint32(group.TotalWeight)\<close> keeps the low 32 bits of the total
  weight, so a primary group of at least two servers whose weights sum up to a multiple of
  \<open>2 ^ 32\<close> makes every keyed \<open>Pick\<close> of the hash balancer, and every \<open>Pick\<close> of the IP-hash balancer
  for a valid client address, panic with an integer division by zero, while the group's
  mutex is held.
\<close>

theorem hash_total_weight_panics:
  assumes "2 ^ 32 dvd TotalWeight grp" and "2 \<le> length (Peers grp)"
    and "primary (h_rr h) = grp" and "key \<noteq> ''''"
    and "primary (ip_rr i) = grp" and "hash_addr ip \<noteq> None"
  shows "hashPicker_Pick (Hash_NewPickerForKey key h) w = Panic \<and>
    ipHashPicker_Pick (NewPickerForIP ip i) w = Panic"
  using assms hash_panics [of h key w] ipHash_panics [of i ip w] by simp

theorem hash_total_weight_panics_witness:
  "hashPicker_Pick (Hash_NewPickerForKey ''k'' (fst (NewHash [Some 0, Some 1]
      (sample_world [2147483648, 2147483648])))) (sample_start [2147483648, 2147483648]) = Panic \<and>
   ipHashPicker_Pick (NewPickerForIP [192, 0, 2, 1] (fst (NewIPHash [Some 0, Some 1]
      (sample_world [2147483648, 2147483648])))) (sample_start [2147483648, 2147483648]) = Panic"
proof (rule hash_total_weight_panics)
  let ?h = "fst (NewHash [Some 0, Some 1] (sample_world [2147483648, 2147483648]))"
    and ?i = "fst (NewIPHash [Some 0, Some 1] (sample_world [2147483648, 2147483648]))"
  have "TotalWeight (primary (h_rr ?h)) = 4294967296" by code_simp
  then show "2 ^ 32 dvd TotalWeight (primary (h_rr ?h))" by simp
  have "length (Peers (primary (h_rr ?h))) = 2" by code_simp
  then show "2 \<le> length (Peers (primary (h_rr ?h)))" by simp
  show "primary (ip_rr ?i) = primary (h_rr ?h)" by (simp add: NewHash_def NewIPHash_def split_def)
  have "hash_addr [192, 0, 2, 1] = Some [192, 0, 2, 1]" by code_simp
  then show "hash_addr [192, 0, 2, 1] \<noteq> None" by simp
qed simp_all

section \<open>The ring\<close>

text \<open>
  C21. A key reaches its owner: on a consistent-hash balancer that the constructor made, with more
  than one server, the \<open>Pick\<close> of a new picker for a key returns a server with the address of the
  ring point that succeeds the key's checksum, whenever a primary server with that address is
  up, below its limits and not failed out. It falls back to the rest of the ring or to
  round-robin only if there is none.
\<close>

theorem keyed_pick_reaches_owner:
  assumes "NewHashConsistent ps w0 = Val (b, w0')" and "distinct (pointers ps)"
    and "\<not> single (primary (hc_rr b))" and "points b \<noteq> []" and "key \<noteq> ''''"
    and "successor (set (points b)) (ChecksumIEEE (bytes_of key)) pt"
    and "q \<in> set (Peers (primary (hc_rr b)))" and "usable w q" and "Addr (heap w q) = Addr (heap w (pt_peer pt))"
  shows "\<exists>p pk w'. chashPicker_Pick (HashConsistent_NewPickerForKey key b) w = Val (Some p, pk, w') \<and>
    p \<in> set (Peers (primary (hc_rr b))) \<and> Addr (heap w p) = Addr (heap w (pt_peer pt))"
proof -
  obtain rr where rr: "NewRoundRobin ps w0 = (rr, w0')" "hc_rr b = rr"
    and ring: "buildChashRing (heap w0') (map Some (Peers (primary rr))) = Val (points b)"
    using assms(1) by (auto simp: NewHashConsistent_def split: prod.splits outcome.splits)
  obtain p0 b0 where "BuildGroups ps w0 = (p0, b0, w0')" "primary rr = p0"
    using rr(1) by (auto simp: NewRoundRobin_def split: prod.splits)
  from BuildGroups_groups_wf [OF this(1) assms(2)] this(2) have d: "distinct (Peers (primary (hc_rr b)))"
    by (simp add: groups_wf_def rr(2))
  have l: "int (length (points b)) + 21 < 2 ^ 63" using ring_length [OF ring] by simp
  show ?thesis
    by (rule chash_pick_first [OF d assms(3,4) l ring_mem(2) [OF ring] assms(5-9)])
qed

theorem keyed_pick_reaches_owner_witness:
  "\<exists>b pt p pk w'. NewHashConsistent [Some 0, Some 1] (sample_world [1, 1]) = Val (b, sample_start [1, 1]) \<and>
     successor (set (points b)) (ChecksumIEEE (bytes_of ''k'')) pt \<and>
     chashPicker_Pick (HashConsistent_NewPickerForKey ''k'' b) (sample_start [1, 1]) = Val (Some p, pk, w') \<and>
     Addr (heap (sample_start [1, 1]) p) = Addr (heap (sample_start [1, 1]) (pt_peer pt))"
proof -
  let ?k = "ChecksumIEEE (bytes_of ''k'')" and ?w = "sample_start [1, 1]"
  obtain pts where pts: "buildChashRing (heap ?w) [Some 0, Some 1] = Val pts" "pts \<noteq> []"
    using sample_ring by blast
  let ?b = "\<lparr>hc_rr = sample_rr [1, 1], points = pts\<rparr>" and ?pt = "pts ! findChashStart pts ?k"
  have ps: "sample_pointers [1, 1] = [Some 0, Some 1]" by (simp add: sample_pointers_def)
  have "NewRoundRobin [Some 0, Some 1] (sample_world [1, 1]) = (sample_rr [1, 1], ?w)"
    by (simp add: sample_rr_def sample_start_def ps)
  then have b: "NewHashConsistent [Some 0, Some 1] (sample_world [1, 1]) = Val (?b, ?w)"
    using pts by (simp add: NewHashConsistent_def sample_groups numeral_2_eq_2)
  note succ = findChashStart_successor(2) [OF ring_mem(2) [OF pts(1)] pts(2), of ?k]
  from ring_peer [OF pts(1), of ?pt] succ have q: "pt_peer ?pt \<in> {0, 1}" by (auto simp: successor_def)
  have u: "usable ?w 0" "usable ?w 1"
    by (simp_all add: usable_def sample_start_peer peer_init_keeps sample_heap_def sample_peer_def conns_full_def failed_out_def)
  have "\<exists>p pk w'. chashPicker_Pick (HashConsistent_NewPickerForKey ''k'' ?b) ?w = Val (Some p, pk, w') \<and>
      p \<in> set (Peers (primary (hc_rr ?b))) \<and> Addr (heap ?w p) = Addr (heap ?w (pt_peer ?pt))"
    by (rule keyed_pick_reaches_owner [OF b, where q = "pt_peer ?pt"])
      (use pts(2) succ q u in \<open>auto simp: sample_groups\<close>)
  with b succ show ?thesis by fastforce
qed


text \<open>
  C22. \<open>buildChashRing\<close> returns a ring that is strictly increasing in the hash, and a hash value
  belongs to the point that was generated first, so the ring does not depend on how the sort
  treats collisions beyond stability.
\<close>

theorem ring_strict_and_first:
  assumes "buildChashRing h ps = Val pts"
  shows "sorted_wrt (\<lambda>a b. pt_hash a < pt_hash b) pts \<and>
    (\<forall>q. q \<in> set pts \<longleftrightarrow> find (\<lambda>r. pt_hash r = pt_hash q) (ring_points h ps) = Some q)"
  using ring_mem [OF assms] by (simp add: strict_ring_def first_with_def)

theorem ring_strict_and_first_witness:
  "\<exists>pts. buildChashRing (heap (sample_start [1, 1])) [Some 0, Some 1] = Val pts \<and> pts \<noteq> [] \<and>
     sorted_wrt (\<lambda>a b. pt_hash a < pt_hash b) pts"
proof -
  obtain pts where "buildChashRing (heap (sample_start [1, 1])) [Some 0, Some 1] = Val pts" "pts \<noteq> []"
    using sample_ring by blast
  with ring_strict_and_first [OF this(1)] show ?thesis by blast
qed

text \<open>
  C23. \<open>findChashStart\<close> returns the index of the successor of the key's hash on the ring: the point
  of least hash not below it, or the first point when there is none.
\<close>

theorem findChashStart_is_successor:
  assumes "buildChashRing h ps = Val pts" and "pts \<noteq> []"
  shows "findChashStart pts key < length pts \<and> successor (set pts) key (pts ! findChashStart pts key)"
  using findChashStart_successor [OF ring_mem(2) [OF assms(1)] assms(2)] by simp

theorem findChashStart_is_successor_witness:
  "\<exists>pts. buildChashRing (heap (sample_start [1, 1])) [Some 0, Some 1] = Val pts \<and>
     successor (set pts) 12345 (pts ! findChashStart pts 12345)"
proof -
  obtain pts where p: "buildChashRing (heap (sample_start [1, 1])) [Some 0, Some 1] = Val pts" "pts \<noteq> []"
    using sample_ring by blast
  with findChashStart_is_successor [OF p, of 12345] show ?thesis by blast
qed

text \<open>
  C24. Consistency: removing a server from the configuration moves only the keys it owned; every
  key that another server owned keeps its owner.
\<close>

theorem ring_removal_keeps_owners:
  assumes "buildChashRing h ps = Val pts"
    and "buildChashRing h (filter (\<lambda>y. y \<noteq> Some x) ps) = Val pts'"
    and "pts \<noteq> []" and "ring_owner pts key \<noteq> x"
  shows "ring_owner pts' key = ring_owner pts key"
  using assms by (rule ring_owner_stable)

theorem ring_removal_keeps_owners_witness:
  "\<exists>x pts pts'. x \<in> {0, 1} \<and> buildChashRing (heap (sample_start [1, 1])) [Some 0, Some 1] = Val pts \<and>
     buildChashRing (heap (sample_start [1, 1])) (filter (\<lambda>y. y \<noteq> Some x) [Some 0, Some 1]) = Val pts' \<and>
     ring_owner pts 12345 \<noteq> x \<and> ring_owner pts' 12345 = ring_owner pts 12345"
proof -
  let ?h = "heap (sample_start [1, 1])"
  obtain pts where p: "buildChashRing ?h [Some 0, Some 1] = Val pts" "pts \<noteq> []"
    using sample_ring by blast
  obtain x :: nat where x: "ring_owner pts 12345 \<noteq> x" "x \<in> {0, 1}"
    by (cases "ring_owner pts 12345 = 0") auto
  obtain pts' where p': "buildChashRing ?h (filter (\<lambda>y. y \<noteq> Some x) [Some 0, Some 1]) = Val pts'"
    using sample_ring_without [OF x(2)] by blast
  from ring_removal_keeps_owners [OF p(1) p' p(2) x(1)] p p' x show ?thesis by blast
qed

text \<open>
  C25. The ring's seed depends on host and port only: an address of the form \<open>host:port\<close> is split
  into its parts, and a URL with that authority, with or without a path, is split the same way.
\<close>

theorem splitKetamaHostPort_forms:
  assumes "\<forall>c \<in> set port. is_digit c" and "CHR ''/'' \<notin> set host" and "CHR '':'' \<notin> set scheme"
  shows "splitKetamaHostPort (host @ '':'' @ port) = (host, port) \<and>
    splitKetamaHostPort (scheme @ ''://'' @ host @ '':'' @ port) = (host, port) \<and>
    splitKetamaHostPort (scheme @ ''://'' @ (host @ '':'' @ port) @ ''/'' @ path) = (host, port)"
proof -
  have "CHR ''/'' \<notin> set port" using assms(1) by (auto simp: is_digit_def)
  then have "CHR ''/'' \<notin> set (host @ '':'' @ port)" using assms(2) by simp
  from splitKetamaHostPort_url [OF assms(3) this] splitKetamaHostPort_join [OF assms(1,2)]
  show ?thesis by simp
qed

theorem splitKetamaHostPort_forms_witness:
  "splitKetamaHostPort (''http'' @ ''://'' @ (''10.0.0.1'' @ '':'' @ ''8080'') @ ''/'' @ ''api'') =
     (''10.0.0.1'', ''8080'')"
  using splitKetamaHostPort_forms [of "''8080''" "''10.0.0.1''" "''http''" "''api''"]
  by (simp add: is_digit_def)

end
